(* ===== verification/Prelude.thy ===== *)
theory Prelude
  imports Main "HOL-Library.Word" "HOL-Library.Signed_Division"
begin

text \<open>
  Shared vocabulary of the development: the machine types of the C programs, the
  collections of hints the component theories feed, and the generic facts on lists and
  options that more than one component needs.
\<close>

unbundle bit_operations_syntax

section \<open>Machine types\<close>

type_synonym u8 = "8 word"
type_synonym u16 = "16 word"
type_synonym u32 = "32 word"

text \<open>
  The programs are built for 64-bit Linux: \<open>long\<close> has 64 bits, \<open>int\<close> 32. A signed value
  is an \<^typ>\<open>int\<close> inside the range of its type; leaving the range by arithmetic is
  undefined in C and is an explicit outcome of the models.
\<close>

abbreviation long_max :: int where
  "long_max \<equiv> 9223372036854775807"

abbreviation long_min :: int where
  "long_min \<equiv> - 9223372036854775808"

definition in_long :: "int \<Rightarrow> bool" where
  "in_long x \<longleftrightarrow> long_min \<le> x \<and> x \<le> long_max"

text \<open>The conversion of a \<open>long\<close> to an \<open>int\<close>, as the compiler does it: the low 32 bits.\<close>

definition to_int32 :: "int \<Rightarrow> int" where
  "to_int32 x = signed_take_bit 31 x"

section \<open>Outcomes of a call\<close>

text \<open>
  A call of a C function returns a value, ends the process with an exit status, has no defined
  behaviour (it reads an uninitialised variable, writes past an array, dereferences NULL), or
  waits for ever on the system.
\<close>

datatype 'a outcome = Return 'a | Exit int | Undefined | Blocks

fun bind_outcome :: "'a outcome \<Rightarrow> ('a \<Rightarrow> 'b outcome) \<Rightarrow> 'b outcome" where
  "bind_outcome (Return x) f = f x"
| "bind_outcome (Exit c) f = Exit c"
| "bind_outcome Undefined f = Undefined"
| "bind_outcome Blocks f = Blocks"

lemma bind_outcome_Return_iff [simp]:
  "bind_outcome m f = Return y \<longleftrightarrow> (\<exists>x. m = Return x \<and> f x = Return y)"
  by (cases m) auto

section \<open>Collections of hints\<close>

named_theorems c_eval \<open>equations that run a model on concrete input\<close>
named_theorems c_bounds \<open>range facts of machine values\<close>

declare in_long_def [c_eval]
declare to_int32_def [c_eval]

lemma in_long_small [c_bounds]: "0 \<le> x \<Longrightarrow> x \<le> long_max \<Longrightarrow> in_long x"
  by (simp add: in_long_def)

lemma to_int32_id [simp]: "- 2147483648 \<le> x \<Longrightarrow> x \<le> 2147483647 \<Longrightarrow> to_int32 x = x"
  by (simp add: to_int32_def signed_take_bit_int_eq_self)

lemma to_int32_range [c_bounds]: "- 2147483648 \<le> to_int32 x \<and> to_int32 x \<le> 2147483647"
  using signed_take_bit_int_greater_eq_minus_exp [of 31 x]
    signed_take_bit_int_less_exp [of 31 x]
  by (simp add: to_int32_def)

lemma unat_u8_less [c_bounds]: "unat (x :: u8) < 256"
  using unsigned_less [of x] by simp

lemma unat_u16_less [c_bounds]: "unat (x :: u16) < 65536"
  using unsigned_less [of x] by simp

lemma unat_u32_less [c_bounds]: "unat (x :: u32) < 4294967296"
  using unsigned_less [of x] by simp

lemma unat_low_byte [simp]: "unat (ucast (c :: u16) :: u8) = unat c mod 256"
  by (simp add: unsigned_ucast_eq take_bit_eq_mod)

lemma high_nibble_bits:
  "n < 8 \<Longrightarrow> bit (0xF0 :: u8) n \<longleftrightarrow> 4 \<le> n"
  by (auto simp: less_Suc_eq numeral_eq_Suc)

lemma high_nibble_eq: "b AND 0xF0 = push_bit 4 (drop_bit 4 (b :: u8))"
proof (rule bit_word_eqI)
  fix n
  assume "n < LENGTH(8)"
  then have n: "n < 8" by simp
  then show "bit (b AND 0xF0) n = bit (push_bit 4 (drop_bit 4 b)) n"
    unfolding bit_and_iff bit_push_bit_iff bit_drop_bit_eq high_nibble_bits [OF n]
    by (auto simp: possible_bit_word)
qed

lemma unat_high_nibble: "unat (b AND 0xF0 :: u8) = 16 * (unat b div 16)"
proof -
  have "unat b div 16 < 16" using unat_u8_less [of b] by simp
  then have "16 * (unat b div 16) < 256" by linarith
  then show ?thesis
    by (simp only: high_nibble_eq unsigned_push_bit_eq unsigned_drop_bit_eq)
      (simp add: push_bit_eq_mult drop_bit_eq_div take_bit_eq_mod)
qed

lemma bytes_split: "b < 256 \<Longrightarrow> (256 * a + b) div 256 = a \<and> (256 * a + b) mod 256 = (b::nat)"
  by simp

section \<open>Generic facts on lists\<close>

lemma less_10_cases:
  "(d::nat) < 10 \<longleftrightarrow> d = 0 \<or> d = 1 \<or> d = 2 \<or> d = 3 \<or> d = 4 \<or> d = 5 \<or> d = 6 \<or> d = 7 \<or> d = 8 \<or> d = 9"
  by auto

lemma set_take_drop_Suc:
  assumes "distinct bs" and "i < length bs"
  shows "set (take i bs) \<union> set (drop (Suc i) bs) = set bs - {bs ! i}"
proof -
  define xs y ys where "xs = take i bs" and "y = bs ! i" and "ys = drop (Suc i) bs"
  have "bs = xs @ y # ys" using id_take_nth_drop [OF assms(2)] by (simp add: xs_def y_def ys_def)
  then have "set bs = insert y (set xs \<union> set ys)" "y \<notin> set xs \<union> set ys"
    using assms(1) by auto
  then show ?thesis by (auto simp: xs_def y_def ys_def)
qed

end
