(* ===== verification/CString.thy ===== *)
theory CString
  imports Prelude
begin

text \<open>
  The part of the C string library the programs call, on strings without their final NUL:
  the decimal conversions of \<open>printf\<close> (\<open>dec\<close>, \<open>dec_int\<close>), and \<open>strtol\<close> to base ten with
  its end pointer. The end pointer is the unread rest of the string; it equals the whole
  string exactly when nothing was converted.
\<close>

section \<open>Decimal digits\<close>

definition digit_char :: "nat \<Rightarrow> char" where
  "digit_char d = ''0123456789'' ! d"

definition is_digit :: "char \<Rightarrow> bool" where
  "is_digit c \<longleftrightarrow> c \<in> set ''0123456789''"

definition digit_val :: "char \<Rightarrow> nat" where
  "digit_val c = of_char c - 48"

declare digit_char_def [c_eval] is_digit_def [c_eval] digit_val_def [c_eval]

lemma digit_val_char [simp]: "d < 10 \<Longrightarrow> digit_val (digit_char d) = d"
  by (auto simp: less_10_cases digit_val_def digit_char_def)

lemma is_digit_char [simp]: "d < 10 \<Longrightarrow> is_digit (digit_char d)"
  by (auto simp: less_10_cases is_digit_def digit_char_def)

text \<open>What \<open>%lu\<close> prints, and \<open>%ld\<close> for a signed value.\<close>

fun dec :: "nat \<Rightarrow> string" where
  "dec n = (if n < 10 then [digit_char n] else dec (n div 10) @ [digit_char (n mod 10)])"

declare dec.simps [simp del]

definition dec_int :: "int \<Rightarrow> string" where
  "dec_int i = (if i < 0 then CHR ''-'' # dec (nat (- i)) else dec (nat i))"

declare dec.simps [c_eval] dec_int_def [c_eval]

lemma dec_small: "n < 10 \<Longrightarrow> dec n = [digit_char n]"
  by (simp add: dec.simps)

lemma dec_not_Nil [simp]: "dec n \<noteq> []"
  by (subst dec.simps) simp

lemma dec_int_not_Nil [simp]: "dec_int i \<noteq> []" "[] \<noteq> dec_int i"
  using dec_not_Nil [of "nat i"] by (auto simp: dec_int_def simp del: dec_not_Nil)

lemma dec_digits: "c \<in> set (dec n) \<Longrightarrow> is_digit c"
proof (induction n rule: dec.induct)
  case (1 n)
  show ?case
  proof (cases "n < 10")
    case True
    with "1.prems" show ?thesis by (simp add: dec.simps)
  next
    case False
    with 1 show ?thesis by (auto simp: dec.simps [of n])
  qed
qed

lemma dec_first_nonzero: "0 < n \<Longrightarrow> hd (dec n) \<noteq> CHR ''0''"
proof (induction n rule: dec.induct)
  case (1 n)
  show ?case
  proof (cases "n < 10")
    case True
    with "1.prems" show ?thesis by (auto simp: dec.simps less_10_cases digit_char_def)
  next
    case False
    with 1 show ?thesis by (auto simp: dec.simps [of n])
  qed
qed

lemma takeWhile_dec [simp]: "takeWhile is_digit (dec n) = dec n"
  and dropWhile_dec [simp]: "dropWhile is_digit (dec n) = []"
  by (auto simp: takeWhile_eq_all_conv dec_digits)

section \<open>Hexadecimal digits\<close>

text \<open>\<open>%x\<close>, and \<open>%.kx\<close>: at least \<open>k\<close> digits, filled up with zeros on the left.\<close>

definition hex_char :: "nat \<Rightarrow> char" where
  "hex_char d = ''0123456789abcdef'' ! d"

definition hex_val :: "char \<Rightarrow> nat" where
  "hex_val c = (if is_digit c then digit_val c else of_char c - 87)"

fun hex :: "nat \<Rightarrow> string" where
  "hex n = (if n < 16 then [hex_char n] else hex (n div 16) @ [hex_char (n mod 16)])"

declare hex.simps [simp del]

definition hex_pad :: "nat \<Rightarrow> nat \<Rightarrow> string" where
  "hex_pad k n = replicate (k - length (hex n)) CHR ''0'' @ hex n"

declare hex_char_def [c_eval] hex_val_def [c_eval] hex.simps [c_eval] hex_pad_def [c_eval]

lemma less_16_cases:
  "(d::nat) < 16 \<longleftrightarrow> d < 10 \<or> d = 10 \<or> d = 11 \<or> d = 12 \<or> d = 13 \<or> d = 14 \<or> d = 15"
  by auto

lemma hex_val_char [simp]: "d < 16 \<Longrightarrow> hex_val (hex_char d) = d"
  by (auto simp: less_16_cases less_10_cases hex_val_def hex_char_def is_digit_def digit_val_def)

lemma hex_char_not_blank:
  "d < 16 \<Longrightarrow> hex_char d \<noteq> CHR '' '' \<and> hex_char d \<noteq> CHR 0x0A \<and> hex_char d \<noteq> CHR ''>''"
  by (auto simp: less_16_cases less_10_cases hex_char_def)

lemma hex_two_digits: "n < 256 \<Longrightarrow> hex_pad 2 n = [hex_char (n div 16), hex_char (n mod 16)]"
  by (auto simp: hex_pad_def hex.simps [of n] hex.simps [of "n div 16"] hex_char_def)

lemma length_hex_le: "n < 16 ^ Suc k \<Longrightarrow> length (hex n) \<le> Suc k"
proof (induction k arbitrary: n)
  case (Suc k)
  then have "n div 16 < 16 ^ Suc k" by (simp add: less_mult_imp_div_less)
  with Suc.IH [of "n div 16"] show ?case by (simp add: hex.simps [of n])
qed (simp add: hex.simps)

lemma length_hex_pad_4: "n < 65536 \<Longrightarrow> length (hex_pad 4 n) = 4"
  using length_hex_le [of n 3] by (simp add: hex_pad_def)

section \<open>strtol\<close>

fun digits_val :: "nat \<Rightarrow> string \<Rightarrow> nat" where
  "digits_val n [] = n"
| "digits_val n (c # cs) = digits_val (10 * n + digit_val c) cs"

lemma digits_val_append [simp]: "digits_val n (xs @ ys) = digits_val (digits_val n xs) ys"
  by (induction xs arbitrary: n) auto

lemma digits_val_dec: "digits_val 0 (dec n) = n"
proof (induction n rule: dec.induct)
  case (1 n)
  show ?case
  proof (cases "n < 10")
    case True
    then show ?thesis by (simp add: dec.simps)
  next
    case False
    with 1 show ?thesis by (simp add: dec.simps [of n])
  qed
qed

text \<open>The characters \<open>isspace\<close> accepts in the C locale.\<close>

definition is_space :: "char \<Rightarrow> bool" where
  "is_space c \<longleftrightarrow> c \<in> {CHR '' '', CHR 0x09, CHR 0x0A, CHR 0x0B, CHR 0x0C, CHR 0x0D}"

text \<open>
  \<open>strtol(s, &end, 10)\<close>: leading white space, an optional sign, then digits; a value out
  of range is clamped to the limits of \<open>long\<close>; with no digit the value is 0 and \<open>end\<close>
  is \<open>s\<close>.
\<close>

definition clamp_long :: "int \<Rightarrow> int" where
  "clamp_long i = max long_min (min long_max i)"

definition split_sign :: "string \<Rightarrow> bool \<times> string" where
  "split_sign s = (case s of
     [] \<Rightarrow> (False, [])
   | c # cs \<Rightarrow> if c = CHR ''-'' then (True, cs) else if c = CHR ''+'' then (False, cs) else (False, s))"

definition strtol :: "string \<Rightarrow> int \<times> string" where
  "strtol s =
     (let (neg, t) = split_sign (dropWhile is_space s);
          ds = takeWhile is_digit t
      in if ds = [] then (0, s)
         else (clamp_long (if neg then - int (digits_val 0 ds) else int (digits_val 0 ds)),
               dropWhile is_digit t))"

definition atol :: "string \<Rightarrow> int" where
  "atol s = fst (strtol s)"

declare is_space_def [c_eval] clamp_long_def [c_eval] split_sign_def [c_eval]
declare strtol_def [c_eval] atol_def [c_eval]

lemma clamp_long_id: "in_long i \<Longrightarrow> clamp_long i = i"
  by (simp add: clamp_long_def in_long_def)

lemma clamp_long_range [c_bounds]: "in_long (clamp_long i)"
  by (simp add: clamp_long_def in_long_def)

lemma digit_not_space: "is_digit c \<Longrightarrow> \<not> is_space c"
  by (auto simp: is_digit_def is_space_def)

lemma digit_not_sign: "is_digit c \<Longrightarrow> c \<noteq> CHR ''-'' \<and> c \<noteq> CHR ''+''"
  by (auto simp: is_digit_def)

lemma strtol_range [c_bounds]: "in_long (fst (strtol s))"
  by (auto simp: strtol_def Let_def clamp_long_range in_long_def split: prod.splits)
    (use clamp_long_range in \<open>auto simp: in_long_def\<close>)

text \<open>A run of digits followed by something else is converted up to that point.\<close>

lemma strtol_digits:
  assumes "ds \<noteq> []" and "\<And>c. c \<in> set ds \<Longrightarrow> is_digit c"
    and "rest = [] \<or> \<not> is_digit (hd rest)"
  shows "strtol (ds @ rest) = (clamp_long (int (digits_val 0 ds)), rest)"
proof -
  obtain d ds' where ds: "ds = d # ds'" using assms(1) by (cases ds) auto
  have d: "is_digit d" using assms(2) ds by simp
  have "dropWhile is_space (ds @ rest) = ds @ rest"
    using ds digit_not_space [OF d] by simp
  moreover have "split_sign (ds @ rest) = (False, ds @ rest)"
    using ds digit_not_sign [OF d] by (simp add: split_sign_def)
  moreover have "takeWhile is_digit (ds @ rest) = ds"
    using assms(2,3) by (cases rest) auto
  moreover have "dropWhile is_digit (ds @ rest) = rest"
    using assms(2,3) by (cases rest) auto
  ultimately show ?thesis
    using assms(1) by (simp add: strtol_def)
qed

lemma strtol_dec:
  assumes "int n \<le> long_max" and "rest = [] \<or> \<not> is_digit (hd rest)"
  shows "strtol (dec n @ rest) = (int n, rest)"
  using strtol_digits [of "dec n" rest] assms
  by (auto simp: dec_digits digits_val_dec clamp_long_id in_long_def)

lemma strtol_dec_int:
  assumes "in_long i"
  shows "strtol (dec_int i) = (i, [])"
proof (cases "i < 0")
  case False
  then show ?thesis
    using assms strtol_dec [of "nat i" "[]"] by (simp add: dec_int_def in_long_def)
next
  case True
  with assms show ?thesis
    by (simp add: dec_int_def strtol_def split_sign_def is_space_def digits_val_dec clamp_long_id Let_def)
qed

end
