(* ===== verification/Getopt.thy ===== *)
theory Getopt
  imports CString
begin

text \<open>
  How the C library takes a command line apart for the three C programs: \<open>argp_parse\<close> with flags 0
  hands the option table of the program and its own options to \<open>getopt_long\<close>, which reports the
  options in order, wherever they stand, and leaves the other words for the end. The tables are in
  the theories of the programs; every option in them takes an argument.
\<close>

section \<open>Options\<close>

text \<open>An entry of the table; the flags and the group are 0 in all of them.\<close>

record argp_option =
  ao_name :: string
  ao_key :: char
  ao_arg :: string
  ao_doc :: "string option"

text \<open>
  What a long option stands for: one of the program, or one the library adds: \<open>--help\<close> and
  \<open>--usage\<close> print a text and end the process with status 0, \<open>--program-name\<close> and \<open>--HANG\<close> are
  for debugging and change nothing here.
\<close>

datatype long_option = Own char | Show_help | Program_name | Hang

definition library_options :: "(string \<times> long_option) list" where
  "library_options = [(''help'', Show_help), (''usage'', Show_help), (''program-name'', Program_name), (''HANG'', Hang)]"

definition long_options :: "argp_option list \<Rightarrow> (string \<times> long_option) list" where
  "long_options tab = map (\<lambda>e. (ao_name e, Own (ao_key e))) tab @ library_options"

text \<open>A long option may be cut short as long as only one starts that way; \<open>None\<close> is an error.\<close>

definition long_match :: "argp_option list \<Rightarrow> string \<Rightarrow> long_option option" where
  "long_match tab n = (case map_of (long_options tab) n of
     Some e \<Rightarrow> Some e
   | None \<Rightarrow> (case filter (\<lambda>e. take (length n) (fst e) = n) (long_options tab) of
       [e] \<Rightarrow> Some (snd e)
     | _ \<Rightarrow> None))"

definition is_key :: "argp_option list \<Rightarrow> char \<Rightarrow> bool" where
  "is_key tab c \<longleftrightarrow> c \<in> ao_key ` set tab"

section \<open>Words\<close>

datatype word_kind = Plain | End_of_options | Long_word string "string option" | Short_word char string

fun dashed :: "string \<Rightarrow> bool" where
  "dashed [] = False"
| "dashed (c # cs) = (c = CHR ''-'')"

definition word_kind_of :: "string \<Rightarrow> word_kind" where
  "word_kind_of w =
     (if w = ''-'' \<or> \<not> dashed w then Plain
      else if w = ''--'' then End_of_options
      else if take 2 w = ''--'' then
        (let t = drop 2 w; n = takeWhile (\<lambda>c. c \<noteq> CHR ''='') t
         in Long_word n (if n = t then None else Some (drop (Suc (length n)) t)))
      else Short_word (w ! 1) (drop 2 w))"

text \<open>
  What the parser is told: an argument, an option, one of the library's own keys; or it ends the
  process because of a help option or of a word that is not understood.
\<close>

datatype argp_event = Arg string | Opt char string | Other | Help | Bad_option

definition with_event :: "argp_event \<Rightarrow> argp_event list \<times> string list \<Rightarrow> argp_event list \<times> string list" where
  "with_event e r = (e # fst r, snd r)"

fun getopt :: "argp_option list \<Rightarrow> string list \<Rightarrow> argp_event list \<times> string list" where
  "getopt tab [] = ([], [])"
| "getopt tab (w # ws) = (case word_kind_of w of
     Plain \<Rightarrow> (let (es, ps) = getopt tab ws in (es, w # ps))
   | End_of_options \<Rightarrow> ([], ws)
   | Long_word n v \<Rightarrow> (case long_match tab n of
       None \<Rightarrow> ([Bad_option], [])
     | Some Show_help \<Rightarrow> ([if v = None then Help else Bad_option], [])
     | Some Hang \<Rightarrow> getopt tab ws
     | Some (Own c) \<Rightarrow> (case v of
         Some a \<Rightarrow> with_event (Opt c a) (getopt tab ws)
       | None \<Rightarrow> (case ws of [] \<Rightarrow> ([Bad_option], []) | a # ws' \<Rightarrow> with_event (Opt c a) (getopt tab ws')))
     | Some Program_name \<Rightarrow> (case v of
         Some a \<Rightarrow> getopt tab ws
       | None \<Rightarrow> (case ws of [] \<Rightarrow> ([Bad_option], []) | a # ws' \<Rightarrow> getopt tab ws')))
   | Short_word c cs \<Rightarrow>
       (if is_key tab c then
          (if cs \<noteq> [] then with_event (Opt c cs) (getopt tab ws)
           else (case ws of [] \<Rightarrow> ([Bad_option], []) | a # ws' \<Rightarrow> with_event (Opt c a) (getopt tab ws')))
        else if c = CHR ''?'' then ([Help], [])
        else ([Bad_option], [])))"

definition argp_events :: "argp_option list \<Rightarrow> string list \<Rightarrow> argp_event list" where
  "argp_events tab ws = (let (es, ps) = getopt tab ws in [Other] @ es @ map Arg ps @ [Other])"

section \<open>Spellings\<close>

text \<open>An option and its argument as one can write them, and the words between them.\<close>

datatype cl_item = Word string | Short_apart char string | Short_joined char string
  | Long_apart string string | Long_equals string string

fun item_words :: "cl_item \<Rightarrow> string list" where
  "item_words (Word w) = [w]"
| "item_words (Short_apart c a) = [[CHR ''-'', c], a]"
| "item_words (Short_joined c a) = [[CHR ''-'', c] @ a]"
| "item_words (Long_apart n a) = [''--'' @ n, a]"
| "item_words (Long_equals n a) = [''--'' @ n @ ''='' @ a]"

fun item_ok :: "argp_option list \<Rightarrow> cl_item \<Rightarrow> bool" where
  "item_ok tab (Word w) \<longleftrightarrow> \<not> dashed w \<or> w = ''-''"
| "item_ok tab (Short_apart c a) \<longleftrightarrow> is_key tab c \<and> c \<noteq> CHR ''-''"
| "item_ok tab (Short_joined c a) \<longleftrightarrow> is_key tab c \<and> c \<noteq> CHR ''-'' \<and> a \<noteq> []"
| "item_ok tab (Long_apart n a) \<longleftrightarrow> n \<noteq> [] \<and> CHR ''='' \<notin> set n \<and> (\<exists>c. long_match tab n = Some (Own c))"
| "item_ok tab (Long_equals n a) \<longleftrightarrow> n \<noteq> [] \<and> CHR ''='' \<notin> set n \<and> (\<exists>c. long_match tab n = Some (Own c))"

fun item_event :: "argp_option list \<Rightarrow> cl_item \<Rightarrow> argp_event" where
  "item_event tab (Word w) = Arg w"
| "item_event tab (Short_apart c a) = Opt c a"
| "item_event tab (Short_joined c a) = Opt c a"
| "item_event tab (Long_apart n a) = (case long_match tab n of Some (Own c) \<Rightarrow> Opt c a | _ \<Rightarrow> Bad_option)"
| "item_event tab (Long_equals n a) = (case long_match tab n of Some (Own c) \<Rightarrow> Opt c a | _ \<Rightarrow> Bad_option)"

definition is_word :: "cl_item \<Rightarrow> bool" where
  "is_word x \<longleftrightarrow> (\<exists>w. x = Word w)"

lemma word_kind_plain: "\<not> dashed w \<or> w = ''-'' \<Longrightarrow> word_kind_of w = Plain"
  by (auto simp: word_kind_of_def)

lemma word_kind_short: "c \<noteq> CHR ''-'' \<Longrightarrow> word_kind_of (CHR ''-'' # c # cs) = Short_word c cs"
  by (simp add: word_kind_of_def)

lemma takeWhile_name: "CHR ''='' \<notin> set n \<Longrightarrow> takeWhile (\<lambda>c. c \<noteq> CHR ''='') n = n"
  by (simp add: takeWhile_eq_all_conv) blast

lemma word_kind_long:
  assumes "n \<noteq> []" and "CHR ''='' \<notin> set n"
  shows "word_kind_of (CHR ''-'' # CHR ''-'' # n) = Long_word n None"
    "word_kind_of (CHR ''-'' # CHR ''-'' # n @ CHR ''='' # a) = Long_word n (Some a)"
proof -
  have "takeWhile (\<lambda>c. c \<noteq> CHR ''='') (n @ CHR ''='' # a) = n"
    using assms(2) by (induction n) auto
  then show "word_kind_of (CHR ''-'' # CHR ''-'' # n @ CHR ''='' # a) = Long_word n (Some a)"
    by (simp add: word_kind_of_def Let_def)
  show "word_kind_of (CHR ''-'' # CHR ''-'' # n) = Long_word n None"
    using assms by (simp add: word_kind_of_def Let_def takeWhile_name)
qed

lemma getopt_item:
  assumes "item_ok tab x"
  shows "getopt tab (item_words x @ ws) =
    (if is_word x then (fst (getopt tab ws), item_words x @ snd (getopt tab ws))
     else with_event (item_event tab x) (getopt tab ws))"
  using assms by (cases x) (auto simp: word_kind_plain word_kind_short word_kind_long is_word_def Let_def
      split: prod.splits)

lemma long_match_key:
  assumes "long_match tab n = Some (Own c)"
  shows "is_key tab c"
proof -
  have "\<exists>m. (m, Own c) \<in> set (long_options tab)"
  proof (cases "map_of (long_options tab) n")
    case None
    then obtain e where "filter (\<lambda>e. take (length n) (fst e) = n) (long_options tab) = [e]" "snd e = Own c"
      using assms by (auto simp: long_match_def split: list.splits)
    then have "e \<in> set (filter (\<lambda>e. take (length n) (fst e) = n) (long_options tab))" by simp
    then have "e \<in> set (long_options tab)" by simp
    with \<open>snd e = Own c\<close> show ?thesis by (metis prod.collapse)
  next
    case (Some e)
    then show ?thesis using assms map_of_SomeD [OF Some] by (auto simp: long_match_def)
  qed
  then show ?thesis by (auto simp: long_options_def library_options_def is_key_def)
qed

text \<open>Every way to write an option is an option of the table.\<close>

lemma item_option:
  "item_ok tab x \<Longrightarrow> \<not> is_word x \<Longrightarrow> \<exists>c v. item_event tab x = Opt c v \<and> is_key tab c"
  by (cases x) (auto simp: is_word_def dest: long_match_key)

text \<open>Options and other words in any order: the options come first, the words after them.\<close>

definition given_options :: "argp_option list \<Rightarrow> cl_item list \<Rightarrow> argp_event list" where
  "given_options tab xs = map (item_event tab) (filter (\<lambda>x. \<not> is_word x) xs)"

definition given_words :: "cl_item list \<Rightarrow> string list" where
  "given_words xs = concat (map item_words (filter is_word xs))"

definition command_words :: "cl_item list \<Rightarrow> string list" where
  "command_words xs = concat (map item_words xs)"

lemma given_simps [simp]:
  "given_words [] = []" "given_words (x # xs) = (if is_word x then item_words x @ given_words xs else given_words xs)"
  "given_options tab [] = []"
  "given_options tab (x # xs) = (if is_word x then given_options tab xs else item_event tab x # given_options tab xs)"
  "command_words [] = []" "command_words (x # xs) = item_words x @ command_words xs"
  by (simp_all add: given_words_def given_options_def command_words_def)

lemma is_word_simps [simp]:
  "is_word (Word w)" "\<not> is_word (Short_apart c a)" "\<not> is_word (Short_joined c a)"
  "\<not> is_word (Long_apart n a)" "\<not> is_word (Long_equals n a)"
  by (simp_all add: is_word_def)

lemma getopt_items:
  "\<forall>x \<in> set xs. item_ok tab x \<Longrightarrow> getopt tab (command_words xs @ ws) =
    (given_options tab xs @ fst (getopt tab ws), given_words xs @ snd (getopt tab ws))"
  by (induction xs) (simp_all add: getopt_item with_event_def given_options_def given_words_def command_words_def)

lemma argp_events_items:
  "\<forall>x \<in> set xs. item_ok tab x \<Longrightarrow> argp_events tab (command_words xs @ ws) =
    [Other] @ (given_options tab xs @ fst (getopt tab ws) @ map Arg (given_words xs @ snd (getopt tab ws))) @ [Other]"
  by (simp add: argp_events_def getopt_items split: prod.splits)

lemma word_kind_end [simp]: "word_kind_of ''--'' = End_of_options"
  by (simp add: word_kind_of_def)

end
