(* ===== verification/Argp.thy ===== *)
theory Argp
  imports Getopt
begin

text \<open>
  The command line layer shared by the three C programs. Each has a callback \<open>parse_opt\<close>
  that the C library's \<open>argp_parse\<close> calls once for every option and every positional
  argument, in order, with the number of positional arguments seen before. The events are
  what theory \<open>Getopt\<close> makes of the command line; the callbacks themselves are in the theories of
  the programs.

  \<open>argp_parse\<close> stops at the first error the callback returns. \<open>ARGP_ERR_UNKNOWN\<close> for a
  positional argument means that nobody takes it: the library prints a usage message and
  ends the process with status 64, as it does for a word it cannot read. A help option ends the
  process with status 0. The library's own keys (start, end, success) reach the
  callback as \<open>KEY_OTHER\<close>, and \<open>ARGP_ERR_UNKNOWN\<close> for them is not an error.
\<close>

datatype error_t = NO_ERROR | ARGP_ERR_UNKNOWN | EINVAL | MINUS_ONE

datatype argp_key = KEY_ARG | KEY_OPT char | KEY_OTHER

datatype 'a parse_result = Parsed 'a | Parse_failed error_t | Usage_exit | Help_exit

type_synonym 'a parse_opt = "argp_key \<Rightarrow> string \<Rightarrow> nat \<Rightarrow> 'a \<Rightarrow> error_t \<times> 'a"

fun argp_parse :: "'a parse_opt \<Rightarrow> argp_event list \<Rightarrow> nat \<Rightarrow> 'a \<Rightarrow> 'a parse_result" where
  "argp_parse f [] n a = Parsed a"
| "argp_parse f (Arg s # es) n a = (case f KEY_ARG s n a of
     (NO_ERROR, a') \<Rightarrow> argp_parse f es (Suc n) a'
   | (ARGP_ERR_UNKNOWN, a') \<Rightarrow> Usage_exit
   | (e, a') \<Rightarrow> Parse_failed e)"
| "argp_parse f (Opt c s # es) n a = (case f (KEY_OPT c) s n a of
     (NO_ERROR, a') \<Rightarrow> argp_parse f es n a'
   | (e, a') \<Rightarrow> Parse_failed e)"
| "argp_parse f (Other # es) n a = (case f KEY_OTHER [] n a of
     (NO_ERROR, a') \<Rightarrow> argp_parse f es n a'
   | (ARGP_ERR_UNKNOWN, a') \<Rightarrow> argp_parse f es n a'
   | (e, a') \<Rightarrow> Parse_failed e)"
| "argp_parse f (Help # es) n a = Help_exit"
| "argp_parse f (Bad_option # es) n a = Usage_exit"

text \<open>The call \<open>argp_parse(&argp, argc, argv, 0, 0, args)\<close> on the words of the command line.\<close>

definition argp :: "'a parse_opt \<Rightarrow> argp_option list \<Rightarrow> string list \<Rightarrow> 'a \<Rightarrow> 'a parse_result" where
  "argp f tab argv a = argp_parse f (argp_events tab (tl argv)) 0 a"

text \<open>Options that the callback stores.\<close>

lemma argp_parse_options:
  assumes "\<And>e. e \<in> set es \<Longrightarrow> \<exists>c s. e = Opt c s \<and> (\<forall>n a. f (KEY_OPT c) s n a = (NO_ERROR, st e a))"
  shows "argp_parse f (es @ fs) n a = argp_parse f fs n (fold st es a)"
  using assms
proof (induction es arbitrary: a)
  case (Cons e es)
  have "\<exists>c s. e = Opt c s \<and> (\<forall>n a. f (KEY_OPT c) s n a = (NO_ERROR, st e a))"
    by (rule Cons.prems) simp
  then have "argp_parse f ((e # es) @ fs) n a = argp_parse f (es @ fs) n (st e a)" by auto
  then show ?case using Cons by simp
qed simp

text \<open>
  The contract between the library and a callback: an invariant of the argument record that
  every call keeps, whatever it returns, and that the library's own keys are left alone.
\<close>

locale option_parser =
  fixes parse_opt :: "'a parse_opt" and inv :: "'a \<Rightarrow> bool"
  assumes keeps_inv: "inv a \<Longrightarrow> parse_opt k s n a = (e, a') \<Longrightarrow> inv a'"
    and leaves_other: "parse_opt KEY_OTHER s n a = (ARGP_ERR_UNKNOWN, a)"
begin

lemma parsed_inv:
  "inv a \<Longrightarrow> argp_parse parse_opt es n a = Parsed a' \<Longrightarrow> inv a'"
proof (induction es arbitrary: n a)
  case (Cons ev es)
  then show ?case
    by (cases ev) (auto dest: keeps_inv split: prod.splits error_t.splits)
qed simp

lemma argp_inv: "inv a \<Longrightarrow> argp parse_opt tab argv a = Parsed a' \<Longrightarrow> inv a'"
  unfolding argp_def by (rule parsed_inv)

lemma drop_other: "argp_parse parse_opt ([Other] @ es @ [Other]) n a = argp_parse parse_opt es n a"
proof -
  have "argp_parse parse_opt (es @ [Other]) n a = argp_parse parse_opt es n a"
  proof (induction es arbitrary: n a)
    case (Cons e es)
    then show ?case by (cases e) (auto split: prod.splits error_t.splits)
  qed (simp add: leaves_other)
  then show ?thesis by (simp add: leaves_other)
qed

text \<open>
  Options that the callback stores are handled first, in order, then what the rest \<open>ws\<close> of the command line
  starts with, then the words.
\<close>

lemma argp_settings:
  assumes "\<forall>x \<in> set xs. item_ok tab x"
    and st: "\<And>x. x \<in> set xs \<Longrightarrow> \<not> is_word x \<Longrightarrow> \<exists>c s. item_event tab x = Opt c s \<and>
      (\<forall>n a. parse_opt (KEY_OPT c) s n a = (NO_ERROR, st (Opt c s) a))"
  shows "argp parse_opt tab (prog # command_words xs @ ws) a =
      argp_parse parse_opt (fst (getopt tab ws) @ map Arg (given_words xs @ snd (getopt tab ws))) 0
        (fold st (given_options tab xs) a)"
proof -
  have "\<exists>c s. e = Opt c s \<and> (\<forall>n a. parse_opt (KEY_OPT c) s n a = (NO_ERROR, st e a))"
    if "e \<in> set (given_options tab xs)" for e
    using that st unfolding given_options_def by fastforce
  then have "argp_parse parse_opt (given_options tab xs @ fs) 0 a =
      argp_parse parse_opt fs 0 (fold st (given_options tab xs) a)" for fs
    by (rule argp_parse_options)
  then show ?thesis
    by (simp only: argp_def argp_events_items [OF assms(1)] drop_other list.sel)
qed

lemma argp_words: "\<forall>w \<in> set ws. \<not> dashed w \<Longrightarrow> argp parse_opt tab (prog # ws) a = argp_parse parse_opt (map Arg ws) 0 a"
  using argp_settings [of "map Word ws" tab "\<lambda>_ a. a" prog "[]" a]
  by (force simp: command_words_def given_words_def given_options_def is_word_def comp_def concat_map_singleton)

lemma argp_end: "argp parse_opt tab (prog # ''--'' # ws) a = argp_parse parse_opt (map Arg ws) 0 a"
  using argp_settings [of "[]" tab "\<lambda>_ a. a" prog "''--'' # ws" a] by simp

end

end
