(* ===== verification/Collatz.thy ===== *)
theory Collatz
  imports Argp
begin

text \<open>
  Assignment 1, the program \<open>collatz\<close>: \<open>assignment1/src/assignment1.c\<close> and
  \<open>assignment1/src/arguments.c\<close>. The loop has no known termination argument, so it is a
  partial function: the value \<open>None\<close> is a run that never returns. A signed overflow of the
  \<open>long\<close> (undefined in C) ends a run with \<open>Signed_overflow\<close>.
\<close>

section \<open>The command line\<close>

record collatz_args =
  start :: int

definition parse_opt_collatz :: "collatz_args parse_opt" where
  "parse_opt_collatz key arg arg_num args = (case key of
     KEY_ARG \<Rightarrow>
       (if arg_num = 0 then
          (let (tmp, endptr) = strtol arg
           in if endptr \<noteq> [] \<or> endptr = arg then (MINUS_ONE, args)
              else (NO_ERROR, args\<lparr>start := tmp\<rparr>))
        else (ARGP_ERR_UNKNOWN, args))
   | _ \<Rightarrow> (ARGP_ERR_UNKNOWN, args))"

definition options_collatz :: "argp_option list" where
  "options_collatz = []"

definition parse_args_collatz :: "string list \<Rightarrow> collatz_args parse_result" where
  "parse_args_collatz argv =
     (if length argv \<le> 1 then Parse_failed MINUS_ONE
      else argp parse_opt_collatz options_collatz argv \<lparr>start = 0\<rparr>)"

interpretation collatz_parser: option_parser parse_opt_collatz "\<lambda>a. in_long (start a)"
proof
  fix a k s n e a'
  assume "in_long (start a)" "parse_opt_collatz k s n a = (e, a')"
  then show "in_long (start a')"
    using strtol_range [of s]
    by (auto simp: parse_opt_collatz_def Let_def split: argp_key.splits prod.splits if_splits)
qed (simp add: parse_opt_collatz_def)

section \<open>The loop\<close>

datatype collatz_end = Reached_one | Signed_overflow

partial_function (option) collatz_loop :: "int \<Rightarrow> int list \<Rightarrow> (int list \<times> collatz_end) option" where
  "collatz_loop n out =
     (if n = 1 then Some (out, Reached_one)
      else if n smod 2 = 0 then collatz_loop (n sdiv 2) (out @ [n sdiv 2])
      else if in_long (3 * n) \<and> in_long (3 * n + 1)
        then collatz_loop (3 * n + 1) (out @ [3 * n + 1])
      else Some (out, Signed_overflow))"

text \<open>The numbers printed, in order; and the text \<open>printf("%ld\n")\<close> makes of them.\<close>

definition assignment1 :: "int \<Rightarrow> (int list \<times> collatz_end) option" where
  "assignment1 n = collatz_loop n [n]"

definition print_lines :: "int list \<Rightarrow> string" where
  "print_lines ns = concat (map (\<lambda>n. dec_int n @ [CHR 0x0A]) ns)"

text \<open>
  \<open>main\<close>: the text the program itself puts on standard output and the exit status; \<open>None\<close> if it never returns or
  its behaviour is undefined.
\<close>

definition main_collatz :: "string list \<Rightarrow> (string \<times> int) option" where
  "main_collatz argv = (case parse_args_collatz argv of
     Help_exit \<Rightarrow> Some ([], 0)
   | Usage_exit \<Rightarrow> Some ([], 64)
   | Parse_failed e \<Rightarrow> Some ([], - 1)
   | Parsed args \<Rightarrow> (case assignment1 (start args) of
       Some (ns, Reached_one) \<Rightarrow> Some (print_lines ns, 0)
     | _ \<Rightarrow> None))"

section \<open>The Collatz step as mathematics\<close>

definition collatz_next :: "int \<Rightarrow> int" where
  "collatz_next n = (if even n then n div 2 else 3 * n + 1)"

fun orbit :: "nat \<Rightarrow> int \<Rightarrow> int list" where
  "orbit 0 n = [n]"
| "orbit (Suc k) n = n # orbit k (collatz_next n)"

lemma smod_2_eq_0_iff: "(n::int) smod 2 = 0 \<longleftrightarrow> even n"
  by (auto simp: signed_modulo_int_def signed_divide_int_def sgn_if)

lemma even_sdiv_2: "even n \<Longrightarrow> (n::int) sdiv 2 = n div 2"
  by (auto simp: signed_divide_int_def sgn_if elim: evenE)

lemma collatz_loop_one: "collatz_loop 1 out = Some (out, Reached_one)"
  by (simp add: collatz_loop.simps)

lemma collatz_loop_even:
  "n \<noteq> 1 \<Longrightarrow> even n \<Longrightarrow> collatz_loop n out = collatz_loop (collatz_next n) (out @ [collatz_next n])"
  by (subst collatz_loop.simps) (simp add: smod_2_eq_0_iff even_sdiv_2 collatz_next_def)

lemma collatz_loop_odd:
  "n \<noteq> 1 \<Longrightarrow> odd n \<Longrightarrow> in_long (3 * n) \<Longrightarrow> in_long (3 * n + 1)
    \<Longrightarrow> collatz_loop n out = collatz_loop (collatz_next n) (out @ [collatz_next n])"
  by (subst collatz_loop.simps) (simp add: smod_2_eq_0_iff collatz_next_def)

lemma collatz_loop_overflow:
  "n \<noteq> 1 \<Longrightarrow> odd n \<Longrightarrow> \<not> (in_long (3 * n) \<and> in_long (3 * n + 1))
    \<Longrightarrow> collatz_loop n out = Some (out, Signed_overflow)"
  by (subst collatz_loop.simps) (auto simp: smod_2_eq_0_iff)

lemmas collatz_loop_unfold = collatz_loop_one collatz_loop_even collatz_loop_odd collatz_loop_overflow

lemma collatz_next_pos: "0 < n \<Longrightarrow> 0 < collatz_next n"
  by (auto simp: collatz_next_def elim: evenE)

lemma collatz_next_in_long:
  assumes "0 < n" and "in_long n" and "odd n" and "in_long (collatz_next n)"
  shows "in_long (3 * n)" and "in_long (3 * n + 1)"
  using assms by (auto simp: in_long_def collatz_next_def)


section \<open>Runs of the loop\<close>

lemma orbit_not_Nil [simp]: "orbit k n \<noteq> []"
  by (cases k) auto

lemma hd_orbit [simp]: "hd (orbit k n) = n"
  by (cases k) auto

lemma orbit_Cons_tl: "orbit k n = n # tl (orbit k n)"
  by (cases k) auto

text \<open>
  How a run that returns is shaped: what it printed, as a stretch of the orbit, and the
  reason it stopped.
\<close>

definition stopped :: "int \<Rightarrow> collatz_end \<Rightarrow> bool" where
  "stopped m e = (case e of
     Reached_one \<Rightarrow> m = 1
   | Signed_overflow \<Rightarrow> m \<noteq> 1 \<and> odd m \<and> \<not> (in_long (3 * m) \<and> in_long (3 * m + 1)))"

definition in_range_run :: "int list \<Rightarrow> bool" where
  "in_range_run ns \<longleftrightarrow> 1 \<notin> set (butlast ns) \<and> (\<forall>m \<in> set ns. 0 < m \<and> m \<le> long_max)"

lemma in_range_run_Cons:
  "in_range_run (n # orbit k m) \<longleftrightarrow> n \<noteq> 1 \<and> 0 < n \<and> n \<le> long_max \<and> in_range_run (orbit k m)"
  by (auto simp: in_range_run_def)

lemma collatz_step_eq:
  assumes "0 < n" "n \<noteq> 1" "0 < collatz_next n" "collatz_next n \<le> long_max"
  shows "collatz_loop n out = collatz_loop (collatz_next n) (out @ [collatz_next n])"
proof (cases "even n")
  case True
  with assms show ?thesis by (simp add: collatz_loop_even)
next
  case False
  with assms have "in_long (3 * n)" "in_long (3 * n + 1)"
    by (auto simp: collatz_next_def in_long_def)
  with False assms show ?thesis by (simp add: collatz_loop_odd)
qed

lemma collatz_loop_orbit:
  "in_range_run (orbit k n) \<Longrightarrow> stopped (last (orbit k n)) e
    \<Longrightarrow> collatz_loop n out = Some (out @ tl (orbit k n), e)"
proof (induction k arbitrary: n out)
  case 0
  then show ?case
    by (cases e) (auto simp: stopped_def collatz_loop_one collatz_loop_overflow)
next
  case (Suc k)
  let ?m = "collatz_next n"
  from Suc.prems have n: "n \<noteq> 1" "0 < n" and run: "in_range_run (orbit k ?m)"
    by (simp_all add: in_range_run_Cons)
  from run have "0 < ?m \<and> ?m \<le> long_max"
    by (subst (asm) orbit_Cons_tl) (simp add: in_range_run_def)
  then have "collatz_loop n out = collatz_loop ?m (out @ [?m])"
    using n by (intro collatz_step_eq) auto
  also have "\<dots> = Some ((out @ [?m]) @ tl (orbit k ?m), e)"
    using Suc.prems(2) by (intro Suc.IH run) simp
  finally show ?case
    using orbit_Cons_tl [of k ?m] by simp
qed

lemma collatz_loop_returns:
  assumes "collatz_loop n out = Some r"
  shows "0 < n \<longrightarrow> n \<le> long_max \<longrightarrow>
    (\<exists>k. fst r = out @ tl (orbit k n) \<and> in_range_run (orbit k n) \<and> stopped (last (orbit k n)) (snd r))"
proof (rule collatz_loop.raw_induct [OF _ assms])
  fix f n out r
  assume IH: "\<And>n out r. f n out = Some r \<Longrightarrow> 0 < n \<longrightarrow> n \<le> long_max \<longrightarrow>
      (\<exists>k. fst r = out @ tl (orbit k n) \<and> in_range_run (orbit k n) \<and> stopped (last (orbit k n)) (snd r))"
    and eq: "(if n = 1 then Some (out, Reached_one)
      else if n smod 2 = 0 then f (n sdiv 2) (out @ [n sdiv 2])
      else if in_long (3 * n) \<and> in_long (3 * n + 1) then f (3 * n + 1) (out @ [3 * n + 1])
      else Some (out, Signed_overflow)) = Some r"
  let ?P = "\<lambda>k. fst r = out @ tl (orbit k n) \<and> in_range_run (orbit k n) \<and> stopped (last (orbit k n)) (snd r)"
  show "0 < n \<longrightarrow> n \<le> long_max \<longrightarrow> (\<exists>k. ?P k)"
  proof (intro impI)
    assume n: "0 < n" "n \<le> long_max"
    show "\<exists>k. ?P k"
    proof (cases "n = 1 \<or> odd n \<and> \<not> (in_long (3 * n) \<and> in_long (3 * n + 1))")
      case True
      with eq n have "?P 0"
        by (auto simp: stopped_def in_range_run_def smod_2_eq_0_iff split: if_splits)
      then show ?thesis ..
    next
      case False
      with eq have "f (collatz_next n) (out @ [collatz_next n]) = Some r"
        by (auto simp: smod_2_eq_0_iff even_sdiv_2 collatz_next_def split: if_splits)
      moreover have "0 < collatz_next n" "collatz_next n \<le> long_max"
        using False n collatz_next_pos [of n] by (auto simp: collatz_next_def in_long_def)
      ultimately obtain k where
        k: "fst r = (out @ [collatz_next n]) @ tl (orbit k (collatz_next n))"
          "in_range_run (orbit k (collatz_next n))" "stopped (last (orbit k (collatz_next n))) (snd r)"
        using IH by blast
      then have "?P (Suc k)"
        using False n orbit_Cons_tl [of k "collatz_next n"] by (simp add: in_range_run_Cons)
      then show ?thesis ..
    qed
  qed
qed


section \<open>Properties\<close>

lemma assignment1_iff:
  assumes "0 < n" and "n \<le> long_max"
  shows "assignment1 n = Some (ns, e) \<longleftrightarrow>
    (\<exists>k. ns = orbit k n \<and> in_range_run ns \<and> stopped (last ns) e)"
proof
  assume "assignment1 n = Some (ns, e)"
  then obtain k where "ns = [n] @ tl (orbit k n)" "in_range_run (orbit k n)" "stopped (last (orbit k n)) e"
    using collatz_loop_returns [of n "[n]" "(ns, e)"] assms by (auto simp: assignment1_def)
  then show "\<exists>k. ns = orbit k n \<and> in_range_run ns \<and> stopped (last ns) e"
    using orbit_Cons_tl [of k n] by auto
next
  assume "\<exists>k. ns = orbit k n \<and> in_range_run ns \<and> stopped (last ns) e"
  then show "assignment1 n = Some (ns, e)"
    using collatz_loop_orbit [of _ n e "[n]"] orbit_Cons_tl [of _ n] by (auto simp: assignment1_def)
qed

text \<open>
  C28. Total characterisation of \<open>assignment1\<close> for a positive start: the call returns, having
  printed \<open>ns\<close>, exactly when \<open>ns\<close> is a stretch of the mathematical Collatz orbit of the start
  whose numbers fit into a \<open>long\<close>, that meets 1 at most at its end, and whose last number
  either is 1 (normal return) or is odd with \<open>3 * m + 1\<close> out of range (signed overflow).
\<close>

theorem assignment1_iff_orbit:
  assumes "0 < n" and "n \<le> long_max"
  shows "assignment1 n = Some (ns, e) \<longleftrightarrow>
    (\<exists>k. ns = orbit k n \<and> in_range_run ns \<and> stopped (last ns) e)"
  using assms by (rule assignment1_iff)

theorem assignment1_iff_orbit_witness:
  "(0::int) < 6 \<and> assignment1 6 = Some ([6, 3, 10, 5, 16, 8, 4, 2, 1], Reached_one)"
proof -
  have "orbit 8 6 = [6, 3, 10, 5, 16, 8, 4, 2, 1]"
    by (simp add: numeral_eq_Suc collatz_next_def)
  then have "\<exists>k. [6, 3, 10, 5, 16, 8, 4, 2, 1] = orbit k 6" by metis
  then show ?thesis
    using assignment1_iff_orbit [of 6 "[6, 3, 10, 5, 16, 8, 4, 2, 1]" Reached_one]
    by (simp add: in_range_run_def stopped_def)
qed

lemma collatz_loop_reached_pos:
  assumes "collatz_loop n out = Some r"
  shows "n \<noteq> 0 \<and> (snd r = Reached_one \<longrightarrow> 0 < n)"
proof (rule collatz_loop.raw_induct [OF _ assms])
  fix f n out r
  assume IH: "\<And>n out r. f n out = Some r \<Longrightarrow> n \<noteq> 0 \<and> (snd r = Reached_one \<longrightarrow> 0 < n)"
    and eq: "(if n = 1 then Some (out, Reached_one)
      else if n smod 2 = 0 then f (n sdiv 2) (out @ [n sdiv 2])
      else if in_long (3 * n) \<and> in_long (3 * n + 1) then f (3 * n + 1) (out @ [3 * n + 1])
      else Some (out, Signed_overflow)) = Some r"
  consider "n = 1" | "n \<noteq> 1" "even n" "f (n div 2) (out @ [n div 2]) = Some r"
    | "n \<noteq> 1" "odd n" "f (3 * n + 1) (out @ [3 * n + 1]) = Some r"
    | "odd n" "snd r = Signed_overflow"
    using eq by (auto simp: smod_2_eq_0_iff even_sdiv_2 split: if_splits)
  then show "n \<noteq> 0 \<and> (snd r = Reached_one \<longrightarrow> 0 < n)"
  proof cases
    case 2
    with IH [OF 2(3)] show ?thesis by (auto elim!: evenE)
  next
    case 3
    with IH [OF 3(3)] show ?thesis by (cases "n = 0") auto
  qed auto
qed

text \<open>
  A start below 1 never ends normally, and start 0 never returns at all: the loop keeps
  halving 0. Neither \<open>parse_args\<close> nor \<open>assignment1\<close> guards against it.
\<close>

theorem assignment1_not_positive:
  assumes "n \<le> 0"
  shows "assignment1 n \<noteq> Some (ns, Reached_one) \<and> assignment1 0 = None"
  using assms collatz_loop_reached_pos [of n "[n]"] collatz_loop_reached_pos [of 0 "[0]"]
  by (cases "assignment1 0") (force simp: assignment1_def)+

theorem assignment1_not_positive_witness:
  "(- 1 :: int) \<le> 0 \<and> assignment1 (- 1) \<noteq> Some ([- 1, - 2, - 1], Reached_one) \<and> assignment1 0 = None"
  using assignment1_not_positive [of "- 1" "[- 1, - 2, - 1]"] by simp

lemma orbit_power_two: "orbit k (2 ^ k) = map (\<lambda>i. 2 ^ i) (rev [0..<Suc k])"
  by (induction k) (auto simp: collatz_next_def)

lemma two_power_not_one: "(2::int) ^ i = 1 \<Longrightarrow> i = 0"
  using power_inject_exp [of "2::int" i 0] by simp

text \<open>
  Termination on the powers of two that a \<open>long\<close> holds: from \<open>2 ^ k\<close> the program prints
  the \<open>k + 1\<close> powers down to 1 and returns.
\<close>

theorem assignment1_power_of_two:
  assumes "k \<le> 62"
  shows "assignment1 (2 ^ k) = Some (map (\<lambda>i. 2 ^ i) (rev [0..<Suc k]), Reached_one)"
proof -
  have le: "(2::int) ^ i \<le> long_max" if "i \<le> k" for i
    using power_increasing [of i 62 "2::int"] that assms by simp
  have last: "last (orbit k (2 ^ k)) = (1::int)"
    by (simp add: orbit_power_two last_map last_rev)
  have "butlast (rev [0..<Suc k]) = rev [1..<Suc k]"
    by (simp add: upt_rec)
  then have "in_range_run (orbit k (2 ^ k))"
    using le by (auto simp: in_range_run_def orbit_power_two map_butlast [symmetric]
        dest!: two_power_not_one simp del: upt_Suc)
  then have "assignment1 (2 ^ k) = Some (orbit k (2 ^ k), Reached_one)"
    using assignment1_iff [of "2 ^ k" "orbit k (2 ^ k)" Reached_one] le [of k] last
    by (auto simp: stopped_def)
  then show ?thesis by (simp only: orbit_power_two)
qed

theorem assignment1_power_of_two_witness:
  "(3::nat) \<le> 62 \<and> assignment1 8 = Some ([8, 4, 2, 1], Reached_one)"
  using assignment1_power_of_two [of 3] by (simp add: upt_rec)

lemma parse_opt_collatz_simps:
  "parse_opt_collatz KEY_ARG s (Suc n) a = (ARGP_ERR_UNKNOWN, a)"
  "in_long i \<Longrightarrow> parse_opt_collatz KEY_ARG (dec_int i) 0 a = (NO_ERROR, a\<lparr>start := i\<rparr>)"
  "snd (strtol s) = s \<or> snd (strtol s) \<noteq> [] \<Longrightarrow> parse_opt_collatz KEY_ARG s 0 a = (MINUS_ONE, a)"
  by (auto simp: parse_opt_collatz_def strtol_dec_int split: prod.splits)

lemma dashed_dec_int [simp]: "dashed (dec_int i) \<longleftrightarrow> i < 0"
  using dec_digits [of "hd (dec (nat i))" "nat i"] digit_not_sign
  by (cases "dec (nat i)") (auto simp: dec_int_def)

lemma collatz_negative:
  assumes "i < 0"
  shows "parse_args_collatz [prog, dec_int i] = Usage_exit"
proof (cases "dec (nat (- i))")
  case (Cons c cs)
  then have "is_digit c" using dec_digits [of c "nat (- i)"] by simp
  then have "c \<noteq> CHR ''-''" "c \<noteq> CHR ''?''" by (auto simp: is_digit_def)
  then have "argp_events options_collatz [dec_int i] = [Other, Bad_option, Other]"
    using assms Cons by (simp add: argp_events_def dec_int_def word_kind_short is_key_def options_collatz_def)
  then show ?thesis
    by (simp add: parse_args_collatz_def argp_def collatz_parser.leaves_other)
qed simp

text \<open>
  C20. The command line of \<open>collatz\<close>. The decimal text of a number from 0 to the largest \<open>long\<close> is
  parsed back to that number, and \<open>main\<close> prints the lines of its run and exits with 0. A negative
  number is taken for an option and ends the program with status 64, unless it stands behind
  \<open>--\<close>, where the text of every \<open>long\<close> is read back. Text that is not entirely a number is
  rejected with status - 1, as is an empty command line, a second argument with status 64.
\<close>

theorem main_collatz_command_line:
  "(in_long i \<longrightarrow> main_collatz [prog, ''--'', dec_int i] =
      (case assignment1 i of Some (ns, Reached_one) \<Rightarrow> Some (print_lines ns, 0) | _ \<Rightarrow> None)) \<and>
   (in_long i \<longrightarrow> main_collatz [prog, dec_int i] =
      (if i < 0 then Some ([], 64) else main_collatz [prog, ''--'', dec_int i])) \<and>
   (\<not> dashed s \<and> (snd (strtol s) = s \<or> snd (strtol s) \<noteq> []) \<longrightarrow> main_collatz [prog, s] = Some ([], - 1)) \<and>
   main_collatz [prog] = Some ([], - 1) \<and>
   (in_long i \<longrightarrow> main_collatz [prog, ''--'', dec_int i, s] = Some ([], 64))"
proof (intro conjI impI)
  assume i: "in_long i"
  then have behind: "parse_args_collatz [prog, ''--'', dec_int i] = Parsed \<lparr>start = i\<rparr>"
    by (simp add: parse_args_collatz_def collatz_parser.argp_end parse_opt_collatz_simps)
  then show "main_collatz [prog, ''--'', dec_int i] =
      (case assignment1 i of Some (ns, Reached_one) \<Rightarrow> Some (print_lines ns, 0) | _ \<Rightarrow> None)"
    by (simp add: main_collatz_def)
  show "main_collatz [prog, dec_int i] =
      (if i < 0 then Some ([], 64) else main_collatz [prog, ''--'', dec_int i])"
    using i behind collatz_negative [of i prog]
    by (simp add: main_collatz_def parse_args_collatz_def collatz_parser.argp_words parse_opt_collatz_simps)
  show "main_collatz [prog, ''--'', dec_int i, s] = Some ([], 64)"
    using i by (simp add: main_collatz_def parse_args_collatz_def collatz_parser.argp_end parse_opt_collatz_simps)
next
  assume "\<not> dashed s \<and> (snd (strtol s) = s \<or> snd (strtol s) \<noteq> [])"
  then show "main_collatz [prog, s] = Some ([], - 1)"
    by (simp add: main_collatz_def parse_args_collatz_def collatz_parser.argp_words parse_opt_collatz_simps)
next
  show "main_collatz [prog] = Some ([], - 1)" by (simp add: main_collatz_def parse_args_collatz_def)
qed

theorem main_collatz_command_line_witness:
  "main_collatz [''collatz'', ''2''] = Some (''2'' @ [CHR 0x0A] @ ''1'' @ [CHR 0x0A], 0) \<and>
   main_collatz [''collatz'', ''-5''] = Some ([], 64) \<and> main_collatz [''collatz'', ''2x''] = Some ([], - 1)"
proof -
  have "assignment1 2 = Some ([2, 1], Reached_one)"
    by (simp add: assignment1_def collatz_loop.simps signed_divide_int_def signed_modulo_int_def)
  moreover have "dec_int 2 = ''2''" "dec_int 1 = ''1''" "dec_int (- 5) = ''-5''" "snd (strtol ''2x'') = ''x''"
    by (simp_all add: c_eval)
  ultimately show ?thesis
    using main_collatz_command_line [of 2 "''collatz''" "''2x''"] main_collatz_command_line [of "- 5" "''collatz''" "''2x''"]
    by (simp add: print_lines_def in_long_def)
qed

end
