(* ===== verification/Checksum.thy ===== *)
theory Checksum
  imports Prelude
begin

text \<open>
  The ICMPv6 checksum of the library \<open>libraw\<close>:
  \<open>assignment2/libraw/src/checksum.c\<close> (the copy under \<open>assignment3/deps\<close> is the same file).
  The C code reads 16-bit words in the byte order of the host, so the host's order is an
  argument: \<open>big\<close> is True on a big-endian machine. \<open>sum\<close> is a \<open>long\<close>; it is a natural
  number here, and \<open>icmp6_sum_in_long\<close> shows that it stays below \<open>2 ^ 63\<close>.
\<close>

section \<open>The code\<close>

text \<open>The two fields of \<open>struct ip6_hdr\<close> the function reads, 16 bytes each.\<close>

record ip6_hdr =
  ip6_src :: "u8 list"
  ip6_dst :: "u8 list"

definition wf_hdr :: "ip6_hdr \<Rightarrow> bool" where
  "wf_hdr hdr \<longleftrightarrow> length (ip6_src hdr) = 16 \<and> length (ip6_dst hdr) = 16"

definition htonl_bytes :: "nat \<Rightarrow> u8 list" where
  "htonl_bytes n = [of_nat (n div 16777216), of_nat (n div 65536), of_nat (n div 256), of_nat n]"

definition pseudo_hdr :: "ip6_hdr \<Rightarrow> nat \<Rightarrow> u8 list" where
  "pseudo_hdr hdr len = ip6_src hdr @ ip6_dst hdr @ htonl_bytes len @ [0, 0] @ [0] @ [58]"

text \<open>\<open>*(uint16_t *)(p + offset)\<close>, and the loops that add up such words.\<close>

definition host16 :: "bool \<Rightarrow> u8 \<Rightarrow> u8 \<Rightarrow> nat" where
  "host16 big a b = (if big then 256 * unat a + unat b else unat a + 256 * unat b)"

fun add_words :: "bool \<Rightarrow> nat \<Rightarrow> u8 list \<Rightarrow> nat" where
  "add_words big acc (a # b # bs) = add_words big (acc + host16 big a b) bs"
| "add_words big acc bs = acc"

definition icmp6_sum :: "bool \<Rightarrow> ip6_hdr \<Rightarrow> u8 list \<Rightarrow> nat \<Rightarrow> nat" where
  "icmp6_sum big hdr payload len =
     (let acc = add_words big 0 (pseudo_hdr hdr len);
          acc = add_words big acc (take len payload)
      in if odd len then acc + unat (payload ! (len - 1)) else acc)"

function carry :: "nat \<Rightarrow> nat" where
  "carry acc = (if acc div 65536 \<noteq> 0 then carry (acc div 65536 + acc mod 65536) else acc)"
  by pat_completeness auto
termination
proof (relation "measure id")
  fix acc :: nat
  assume "acc div 65536 \<noteq> 0"
  then have "acc div 65536 + acc mod 65536 < acc"
    using div_mult_mod_eq [of acc 65536] by linarith
  then show "(acc div 65536 + acc mod 65536, acc) \<in> measure id" by simp
qed simp

declare carry.simps [simp del]

text \<open>\<open>None\<close>: the payload is shorter than \<open>len\<close>, so the loop reads past its end.\<close>

definition icmp6_checksum :: "bool \<Rightarrow> ip6_hdr \<Rightarrow> u8 list \<Rightarrow> nat \<Rightarrow> u16 option" where
  "icmp6_checksum big hdr payload len =
     (if length payload < len then None
      else Some (NOT (of_nat (carry (icmp6_sum big hdr payload len)))))"

text \<open>How a \<open>uint16_t\<close> lies in memory.\<close>

definition store16 :: "bool \<Rightarrow> u16 \<Rightarrow> u8 list" where
  "store16 big w =
     (let lo = of_nat (unat w); hi = of_nat (unat w div 256) in if big then [hi, lo] else [lo, hi])"

section \<open>The value of a byte string\<close>

text \<open>
  Modulo 65535 the words of a byte string add up to the string read as one number in the
  host's byte order, because \<open>256 * 256\<close> is 1 there.
\<close>

fun le_val :: "u8 list \<Rightarrow> nat" where
  "le_val [] = 0"
| "le_val (b # bs) = unat b + 256 * le_val bs"

lemma le_val_append: "le_val (xs @ ys) = le_val xs + 256 ^ length xs * le_val ys"
  by (induction xs) (auto simp: algebra_simps)

lemma le_val_update:
  "i < length xs \<Longrightarrow> le_val (xs[i := y]) + 256 ^ i * unat (xs ! i) = le_val xs + 256 ^ i * unat y"
proof (induction xs arbitrary: i)
  case (Cons x xs)
  show ?case
  proof (cases i)
    case (Suc j)
    with Cons.IH [of j] Cons.prems show ?thesis by (simp add: algebra_simps)
  qed simp
qed simp

lemma le_val_update_append:
  "i < length ys \<Longrightarrow> le_val (xs @ ys[i := y]) + 256 ^ (length xs + i) * unat (ys ! i) =
    le_val (xs @ ys) + 256 ^ (length xs + i) * unat y"
  using arg_cong [OF le_val_update [of i ys y], of "\<lambda>v. 256 ^ length xs * v"]
  by (simp add: le_val_append power_add algebra_simps)

text \<open>The words as the loops see them: a left-over odd byte counts as the first of a pair.\<close>

fun words_sum :: "bool \<Rightarrow> u8 list \<Rightarrow> nat" where
  "words_sum big (a # b # bs) = host16 big a b + words_sum big bs"
| "words_sum big [a] = unat a"
| "words_sum big [] = 0"

lemma add_words_even: "even (length bs) \<Longrightarrow> add_words big s bs = s + words_sum big bs"
  by (induction big s bs rule: add_words.induct) auto

lemma add_words_odd: "odd (length bs) \<Longrightarrow> add_words big s bs + unat (last bs) = s + words_sum big bs"
  by (induction big s bs rule: add_words.induct) auto

lemma words_sum_append: "even (length xs) \<Longrightarrow> words_sum big (xs @ ys) = words_sum big xs + words_sum big ys"
  by (induction big xs rule: words_sum.induct) auto

lemma length_pseudo_hdr: "wf_hdr hdr \<Longrightarrow> length (pseudo_hdr hdr len) = 40"
  by (simp add: wf_hdr_def pseudo_hdr_def htonl_bytes_def)

lemma icmp6_sum_eq:
  assumes "wf_hdr hdr" and "len \<le> length payload"
  shows "icmp6_sum big hdr payload len = words_sum big (pseudo_hdr hdr len @ take len payload)"
proof (cases "even len")
  case True
  with assms show ?thesis
    by (simp add: icmp6_sum_def add_words_even words_sum_append length_pseudo_hdr)
next
  case False
  then have "take len payload \<noteq> []" and "last (take len payload) = payload ! (len - 1)"
    using assms(2) by (cases len; cases payload; force simp: last_conv_nth)+
  with False assms show ?thesis
    using add_words_odd [of "take len payload" big "add_words big 0 (pseudo_hdr hdr len)"]
    by (simp add: icmp6_sum_def add_words_even words_sum_append length_pseudo_hdr)
qed

lemma pseudo_hdr_pos: "wf_hdr hdr \<Longrightarrow> 0 < words_sum big (pseudo_hdr hdr len @ bs)"
  by (simp add: pseudo_hdr_def htonl_bytes_def wf_hdr_def words_sum_append host16_def)

lemma le_val_words_sum: "\<exists>k. le_val bs = words_sum False bs + 65535 * k"
proof (induction False bs rule: words_sum.induct)
  case (1 a b bs)
  then obtain k where k: "le_val bs = words_sum False bs + 65535 * k" by blast
  have "le_val (a # b # bs) = words_sum False (a # b # bs) + 65535 * (k + le_val bs)"
    using k by (simp add: host16_def)
  then show ?case ..
qed auto

lemma words_sum_le: "words_sum False bs mod 65535 = le_val bs mod 65535"
  using le_val_words_sum [of bs] by auto

text \<open>On a host of the other order every word is swapped, which multiplies the sum by 256.\<close>

lemma words_sum_swap:
  "even (length bs) \<Longrightarrow> \<exists>k. 256 * words_sum False bs = words_sum True bs + 65535 * k"
proof (induction False bs rule: words_sum.induct)
  case (1 a b bs)
  then obtain k where k: "256 * words_sum False bs = words_sum True bs + 65535 * k" by auto
  have "256 * words_sum False (a # b # bs) = words_sum True (a # b # bs) + 65535 * (k + unat b)"
    using k by (simp add: host16_def)
  then show ?case ..
qed auto

section \<open>Folding the carries\<close>

text \<open>
  What the checksum needs of the carry loop: it keeps the value modulo 65535, lands in 16
  bits, and gives 0 for 0 only.
\<close>

locale carry_fold =
  fixes fold16 :: "nat \<Rightarrow> nat"
  assumes fold_mod: "fold16 n mod 65535 = n mod 65535"
    and fold_bound: "fold16 n < 65536"
    and fold_zero: "fold16 n = 0 \<longleftrightarrow> n = 0"
begin

lemma fold_pos_eq: "0 < n \<Longrightarrow> fold16 n = (if n mod 65535 = 0 then 65535 else n mod 65535)"
proof -
  assume "0 < n"
  then have f: "0 < fold16 n" using fold_zero [of n] by simp
  show ?thesis
  proof (cases "fold16 n = 65535")
    case True
    then show ?thesis using fold_mod [of n] by simp
  next
    case False
    then have "fold16 n mod 65535 = fold16 n" using fold_bound [of n] by simp
    then show ?thesis using f fold_mod [of n] by simp
  qed
qed

lemma fold_determined: "0 < m \<Longrightarrow> 0 < n \<Longrightarrow> fold16 m = fold16 n \<longleftrightarrow> m mod 65535 = n mod 65535"
  using fold_mod [of m] fold_mod [of n] by (metis fold_pos_eq)

lemma fold_complement: "0 < n \<Longrightarrow> fold16 (n + (65535 - fold16 n)) = 65535"
proof -
  assume n: "0 < n"
  have "(n + (65535 - fold16 n)) mod 65535 = (fold16 n + (65535 - fold16 n)) mod 65535"
    using fold_mod [of n] by (metis mod_add_left_eq)
  also have "\<dots> = 0" using fold_bound [of n] by simp
  finally show ?thesis using n fold_pos_eq [of "n + (65535 - fold16 n)"] by simp
qed

end

lemma carry_small: "n < 65536 \<Longrightarrow> carry n = n"
  by (subst carry.simps) simp

lemma carry_step: "65536 \<le> n \<Longrightarrow> carry n = carry (n div 65536 + n mod 65536)"
  by (subst carry.simps) auto

lemma carry_induct [case_names small step]:
  fixes n :: nat
  assumes "\<And>n. n < 65536 \<Longrightarrow> P n"
    and "\<And>n. 65536 \<le> n \<Longrightarrow> P (n div 65536 + n mod 65536) \<Longrightarrow> P n"
  shows "P n"
proof (induction n rule: carry.induct)
  case (1 n)
  show ?case
    using assms 1 by (cases "n < 65536") auto
qed

interpretation inet: carry_fold carry
proof
  fix n
  show "carry n < 65536"
    by (induction n rule: carry_induct) (simp_all add: carry_small carry_step)
  show "carry n mod 65535 = n mod 65535"
  proof (induction n rule: carry_induct)
    case (step n)
    have "n = (n div 65536 + n mod 65536) + 65535 * (n div 65536)"
      using div_mult_mod_eq [of n 65536] by linarith
    then have "n mod 65535 = (n div 65536 + n mod 65536) mod 65535"
      by (metis mod_mult_self2)
    with step show ?case by (simp add: carry_step)
  qed (simp add: carry_small)
  show "carry n = 0 \<longleftrightarrow> n = 0"
  proof (induction n rule: carry_induct)
    case (step n)
    then have "n div 65536 + n mod 65536 \<noteq> 0" by (simp add: div_greater_zero_iff)
    with step show ?case by (simp add: carry_step)
  qed (simp add: carry_small)
qed


section \<open>The checksum in closed form\<close>

text \<open>The words of the whole pseudo packet, and the range the C variable needs.\<close>

abbreviation packet_sum :: "bool \<Rightarrow> ip6_hdr \<Rightarrow> u8 list \<Rightarrow> nat \<Rightarrow> nat" where
  "packet_sum big hdr payload len \<equiv> words_sum big (pseudo_hdr hdr len @ take len payload)"

lemma unat_not_16: "n < 65536 \<Longrightarrow> unat (NOT (of_nat n :: u16)) = 65535 - n"
proof -
  assume n: "n < 65536"
  have "NOT (of_nat n :: u16) = - 1 - of_nat n"
    by (simp add: not_eq_complement)
  moreover have "(of_nat n :: u16) \<le> - 1"
    by (rule word_order.extremum)
  ultimately have "unat (NOT (of_nat n :: u16)) = unat (- 1 :: u16) - unat (of_nat n :: u16)"
    by (simp add: unat_sub)
  then show ?thesis
    using n by (simp add: unat_of_nat take_bit_nat_eq_self unsigned_minus_1_eq_mask mask_eq_exp_minus_1)
qed

lemma icmp6_checksum_eq:
  assumes "wf_hdr hdr" and "len \<le> length payload"
  shows "icmp6_checksum big hdr payload len = Some (NOT (of_nat (carry (packet_sum big hdr payload len))))"
  using assms by (simp add: icmp6_checksum_def icmp6_sum_eq)

lemma unat_icmp6_checksum:
  assumes "wf_hdr hdr" and "icmp6_checksum big hdr payload len = Some c"
  shows "unat c = 65535 - carry (packet_sum big hdr payload len)"
  using assms by (auto simp: icmp6_checksum_eq unat_not_16 inet.fold_bound icmp6_checksum_def
      icmp6_sum_eq split: if_splits)

lemma carry_packet_range:
  assumes "wf_hdr hdr"
  shows "0 < carry (packet_sum big hdr payload len) \<and> carry (packet_sum big hdr payload len) \<le> 65535"
  using inet.fold_bound [of "packet_sum big hdr payload len"]
    inet.fold_zero [of "packet_sum big hdr payload len"] pseudo_hdr_pos [OF assms, of big len "take len payload"]
  by auto


text \<open>Only the first \<open>len\<close> bytes of the payload count.\<close>

lemma icmp6_checksum_prefix:
  "len \<le> length p \<Longrightarrow> icmp6_checksum big h (take len p @ q) len = icmp6_checksum big h (take len p) len"
  by (cases "len = 0") (auto simp: icmp6_checksum_def icmp6_sum_def Let_def nth_append)

lemma complement_mod:
  "0 < f \<Longrightarrow> f \<le> 65535 \<Longrightarrow> c = 65535 - f \<longleftrightarrow> c < 65535 \<and> (c + f) mod 65535 = (0::nat)"
  using mod_if [of "c + f" 65535] mod_if [of "c + f - 65535" 65535] by auto

section \<open>Properties\<close>

text \<open>
  C11. Closed form on the little-endian hosts the programs run on: the function returns \<open>c\<close>
  exactly when it does not read past the payload and \<open>c\<close> is the one number below 65535 that,
  added to the pseudo header and payload read as one little-endian number, gives a multiple
  of 65535. In particular the carry loop terminates for every input.
\<close>

theorem icmp6_checksum_closed_form:
  assumes wf: "wf_hdr hdr"
  shows "icmp6_checksum False hdr payload len = Some c \<longleftrightarrow>
    len \<le> length payload \<and> unat c < 65535 \<and>
    (unat c + le_val (pseudo_hdr hdr len @ take len payload)) mod 65535 = 0"
    (is "_ \<longleftrightarrow> ?rhs")
proof (cases "len \<le> length payload")
  case le: True
  let ?s = "packet_sum False hdr payload len"
  let ?f = "carry ?s"
  let ?v = "le_val (pseudo_hdr hdr len @ take len payload)"
  have f: "0 < ?f" "?f \<le> 65535" using carry_packet_range [OF wf] by auto
  have fv: "?f mod 65535 = ?v mod 65535" by (simp add: inet.fold_mod words_sum_le)
  have "icmp6_checksum False hdr payload len = Some c \<longleftrightarrow> unat c = 65535 - ?f"
    using f by (auto simp: icmp6_checksum_eq [OF wf le] unat_not_16 word_unat_eq_iff)
  also have "\<dots> \<longleftrightarrow> unat c < 65535 \<and> (unat c + ?f) mod 65535 = 0"
    using f complement_mod [OF f, of "unat c"] by auto
  also have "\<dots> \<longleftrightarrow> unat c < 65535 \<and> (unat c + ?v) mod 65535 = 0"
    using fv by (metis mod_add_right_eq)
  finally show ?thesis using le by simp
next
  case False
  then show ?thesis by (simp add: icmp6_checksum_def)
qed

definition example_hdr :: ip6_hdr where
  "example_hdr = \<lparr>ip6_src = [0, 0, 0, 0, 0, 0, 0, 0, 0, 0, 0, 0, 0, 0, 0, 0],
    ip6_dst = [0, 0, 0, 0, 0, 0, 0, 0, 0, 0, 0, 0, 0, 0, 0, 0]\<rparr>"

lemma wf_example_hdr [simp]: "wf_hdr example_hdr"
  by (simp add: example_hdr_def wf_hdr_def)

theorem icmp6_checksum_closed_form_witness:
  "wf_hdr example_hdr \<and> icmp6_checksum False example_hdr [128, 0, 0, 0] 4 = Some 0xC17F"
  using icmp6_checksum_closed_form [of example_hdr "[128, 0, 0, 0]" 4 "0xC17F"]
  by (simp add: pseudo_hdr_def htonl_bytes_def) (simp add: example_hdr_def)

lemma store16_value: "\<exists>x y. store16 big c = [x, y] \<and> host16 big x y = unat c"
proof -
  have "unat c < 65536" by (rule unat_u16_less)
  then have "unat (of_nat (unat c div 256) :: u8) = unat c div 256"
    and "unat (of_nat (unat c) :: u8) = unat c mod 256"
    by (simp_all add: unat_of_nat take_bit_eq_mod take_bit_nat_eq_self less_mult_imp_div_less)
  then show ?thesis by (simp add: store16_def host16_def Let_def)
qed

lemma stored_checksum_zero:
  assumes wf: "wf_hdr hdr" and len: "4 \<le> len"
    and sum: "icmp6_checksum big hdr (a # b # 0 # 0 # rest) len = Some c"
  shows "icmp6_checksum big hdr (a # b # store16 big c @ rest) len = Some 0"
proof -
  obtain x y where c: "store16 big c = [x, y]" "host16 big x y = unat c"
    using store16_value by blast
  obtain n where n: "len = Suc (Suc (Suc (Suc n)))"
    using le_Suc_ex [OF len] by auto
  let ?old = "packet_sum big hdr (a # b # 0 # 0 # rest) len"
  let ?new = "packet_sum big hdr (a # b # x # y # rest) len"
  have l: "len \<le> length (a # b # x # y # rest)"
    using sum by (auto simp: icmp6_checksum_def split: if_splits)
  have "?new = ?old + unat c"
    using c n by (simp add: words_sum_append length_pseudo_hdr wf host16_def)
  also have "\<dots> = ?old + (65535 - carry ?old)"
    using unat_icmp6_checksum [OF wf sum] by simp
  finally have "carry ?new = 65535"
    using inet.fold_complement [of ?old] pseudo_hdr_pos [OF wf] by simp
  then show ?thesis
    using c icmp6_checksum_eq [OF wf l, of big] by simp
qed

text \<open>
  C12. What the checksum is for: a packet whose checksum field (payload bytes 2 and 3) is 0,
  with the returned value stored in that field in the host's byte order, has checksum 0. This
  holds for every length from 4 on, odd ones included, and on hosts of both byte orders.
\<close>

theorem icmp6_checksum_verifies:
  assumes "wf_hdr hdr" and "4 \<le> len" and "icmp6_checksum big hdr (a # b # 0 # 0 # rest) len = Some c"
  shows "icmp6_checksum big hdr (a # b # store16 big c @ rest) len = Some 0"
  using assms by (rule stored_checksum_zero)

theorem icmp6_checksum_verifies_witness:
  "icmp6_checksum False example_hdr ([128, 0] @ store16 False 0xC17F @ []) 4 = Some 0"
proof -
  have "icmp6_checksum False example_hdr [128, 0, 0, 0] 4 = Some 0xC17F"
    by (simp add: icmp6_checksum_def icmp6_sum_def carry_small pseudo_hdr_def htonl_bytes_def
        host16_def example_hdr_def)
  then show ?thesis
    using icmp6_checksum_verifies [of example_hdr 4 False 128 0 "[]" "0xC17F"] by simp
qed

lemma coprime_65535_256: "coprime (65535::int) 256"
proof (rule coprimeI)
  fix d :: int
  assume "d dvd 65535" "d dvd 256"
  then have "d dvd 256 * 256 - 65535" by (intro dvd_diff dvd_mult)
  then show "d dvd 1" by simp
qed

lemma exchange_mod:
  "n + a = k + b \<Longrightarrow> k mod m = n mod m \<Longrightarrow> (a + k) mod m = (b + k) mod (m::nat)"
  by (metis add.commute mod_add_left_eq)

lemma small_dvd_diff:
  "(m::int) dvd a - b \<Longrightarrow> 0 \<le> a \<Longrightarrow> a < m \<Longrightarrow> 0 \<le> b \<Longrightarrow> b < m \<Longrightarrow> a = b"
  by (metis mod_eq_dvd_iff mod_pos_pos_trivial)

lemma byte_change_mod:
  fixes x y :: u8
  assumes "(256 ^ k * unat x + r) mod 65535 = (256 ^ k * unat y + r) mod 65535"
  shows "x = y"
proof -
  have "65535 dvd int (256 ^ k * unat x + r) - int (256 ^ k * unat y + r)"
    using arg_cong [OF assms, of int] by (simp only: zmod_int mod_eq_dvd_iff of_nat_numeral)
  then have "(65535::int) dvd 256 ^ k * (int (unat x) - int (unat y))"
    by (simp add: algebra_simps)
  moreover have "coprime (65535::int) (256 ^ k)"
    using coprime_65535_256 by simp
  ultimately have "65535 dvd int (unat x) - int (unat y)"
    by (simp add: coprime_dvd_mult_right_iff)
  moreover have "int (unat x) < 256" "int (unat y) < 256" "0 \<le> int (unat x)" "0 \<le> int (unat y)"
    using unat_u8_less [of x] unat_u8_less [of y] by linarith+
  ultimately have "int (unat x) = int (unat y)"
    by (intro small_dvd_diff [of 65535]) linarith+
  then show ?thesis by (simp add: word_uint_eq_iff)
qed

text \<open>
  C29. Error detection: changing any single byte of the payload changes the checksum (on a
  little-endian host, for every length).
\<close>

theorem icmp6_checksum_detects_byte_error:
  assumes wf: "wf_hdr hdr" and len: "len \<le> length payload" and i: "i < len" and y: "y \<noteq> payload ! i"
  shows "icmp6_checksum False hdr (payload[i := y]) len \<noteq> icmp6_checksum False hdr payload len"
proof
  assume same: "icmp6_checksum False hdr (payload[i := y]) len = icmp6_checksum False hdr payload len"
  let ?p = "pseudo_hdr hdr len"
  let ?x = "payload ! i"
  let ?old = "le_val (?p @ take len payload)" and ?new = "le_val (?p @ take len (payload[i := y]))"
  have len': "len \<le> length (payload[i := y])" using len by simp
  have "unat (NOT (of_nat (carry (packet_sum False hdr payload len)) :: u16)) =
      unat (NOT (of_nat (carry (packet_sum False hdr (payload[i := y]) len)) :: u16))"
    using same unfolding icmp6_checksum_eq [OF wf len] icmp6_checksum_eq [OF wf len'] by simp
  then have "carry (packet_sum False hdr payload len) = carry (packet_sum False hdr (payload[i := y]) len)"
    using inet.fold_bound [of "packet_sum False hdr payload len"]
      inet.fold_bound [of "packet_sum False hdr (payload[i := y]) len"]
    by (simp add: unat_not_16)
  then have eq: "?old mod 65535 = ?new mod 65535"
    using pseudo_hdr_pos [OF wf] by (simp add: inet.fold_determined words_sum_le)
  have "?new + 256 ^ (length ?p + i) * unat ?x = ?old + 256 ^ (length ?p + i) * unat y"
    using le_val_update_append [of i "take len payload" ?p y] i len by (simp add: take_update_swap)
  then have "(256 ^ (length ?p + i) * unat ?x + ?old) mod 65535 = (256 ^ (length ?p + i) * unat y + ?old) mod 65535"
    using eq by (rule exchange_mod)
  with y show False using byte_change_mod by blast
qed

theorem icmp6_checksum_detects_byte_error_witness:
  "(1::nat) < 4 \<and> icmp6_checksum False example_hdr ([128, 0, 0, 0][1 := 7]) 4 \<noteq>
    icmp6_checksum False example_hdr [128, 0, 0, 0] 4"
  using icmp6_checksum_detects_byte_error [of example_hdr 4 "[128, 0, 0, 0]" 1 7] by simp

lemma swap_range:
  fixes f :: nat
  assumes "0 < f" and "f \<le> 65535"
  shows "f mod 256 * 256 + f div 256 = (if (256 * f) mod 65535 = 0 then 65535 else (256 * f) mod 65535)"
proof -
  let ?w = "f mod 256 * 256 + f div 256"
  have w: "256 * f = ?w + 65535 * (f div 256)"
    using div_mult_mod_eq [of f 256] by linarith
  have d: "f div 256 \<le> 255" using assms(2) by auto
  have m: "f mod 256 \<le> 255" by (simp add: less_Suc_eq_le [symmetric])
  have pos: "0 < ?w" using assms(1) by (cases "f div 256 = 0") auto
  have "(256 * f) mod 65535 = ?w mod 65535" by (metis w mod_mult_self2)
  moreover have "?w \<le> 65535" using d m by linarith
  ultimately show ?thesis using pos by (cases "?w = 65535") auto
qed

lemma carry_big_endian:
  assumes wf: "wf_hdr hdr" and "len \<le> length payload" and "even len"
  shows "carry (packet_sum True hdr payload len) =
    (let f = carry (packet_sum False hdr payload len) in f mod 256 * 256 + f div 256)"
proof -
  let ?t = "packet_sum True hdr payload len" and ?f = "packet_sum False hdr payload len"
  have even: "even (length (pseudo_hdr hdr len @ take len payload))"
    using assms by (simp add: length_pseudo_hdr)
  have "?t mod 65535 = (256 * ?f) mod 65535"
    using words_sum_swap [OF even] by auto
  also have "\<dots> = (256 * carry ?f) mod 65535"
    using inet.fold_mod [of ?f] by (metis mod_mult_right_eq)
  finally have "?t mod 65535 = (256 * carry ?f) mod 65535" .
  then show ?thesis
    using swap_range [of "carry ?f"] carry_packet_range [OF wf] inet.fold_pos_eq [of ?t]
      pseudo_hdr_pos [OF wf, of True]
    by (simp add: Let_def)
qed

text \<open>
  Byte order: for payloads of even length the two bytes to be stored do not depend on the
  byte order of the host, as the header file promises. (For odd lengths they do, see
  \<open>icmp6_checksum_odd_byte_order\<close>: the last byte is added unshifted on both kinds of hosts.)
\<close>

theorem icmp6_checksum_byte_order:
  assumes wf: "wf_hdr hdr" and even: "even len"
    and le: "icmp6_checksum False hdr payload len = Some c"
    and be: "icmp6_checksum True hdr payload len = Some d"
  shows "store16 False c = store16 True d"
proof -
  let ?f = "carry (packet_sum False hdr payload len)"
  have len: "len \<le> length payload"
    using le by (auto simp: icmp6_checksum_def split: if_splits)
  have f: "?f \<le> 65535" using carry_packet_range [OF wf] by simp
  have c: "unat c = 65535 - ?f" by (rule unat_icmp6_checksum [OF wf le])
  have d: "unat d = 65535 - (?f mod 256 * 256 + ?f div 256)"
    using unat_icmp6_checksum [OF wf be] carry_big_endian [OF wf len even] by (simp add: Let_def)
  have f': "?f = 256 * (?f div 256) + ?f mod 256" "?f mod 256 \<le> 255" "?f div 256 \<le> 255"
    using f by (auto simp: less_Suc_eq_le [symmetric])
  have c': "unat c = 256 * (255 - ?f div 256) + (255 - ?f mod 256)"
    using c f' by linarith
  have d': "unat d = 256 * (255 - ?f mod 256) + (255 - ?f div 256)"
    using d f' by linarith
  have "unat c div 256 = 255 - ?f div 256" "unat c mod 256 = 255 - ?f mod 256"
    "unat d div 256 = 255 - ?f mod 256" "unat d mod 256 = 255 - ?f div 256"
    using bytes_split [of "255 - ?f mod 256" "255 - ?f div 256"]
      bytes_split [of "255 - ?f div 256" "255 - ?f mod 256"] unfolding c' d' by auto
  moreover have "255 - ?f mod 256 < 256" "255 - ?f div 256 < 256" by linarith+
  ultimately show ?thesis
    by (simp add: store16_def Let_def word_unat_eq_iff unat_of_nat take_bit_eq_mod)
qed

theorem icmp6_checksum_byte_order_witness:
  "store16 False 0xC17F = store16 True 0x7FC1"
proof -
  have "icmp6_checksum False example_hdr [128, 0, 0, 0] 4 = Some 0xC17F"
    "icmp6_checksum True example_hdr [128, 0, 0, 0] 4 = Some 0x7FC1"
    by (simp_all add: icmp6_checksum_def icmp6_sum_def carry_small pseudo_hdr_def htonl_bytes_def
        host16_def example_hdr_def)
  then show ?thesis
    using icmp6_checksum_byte_order [of example_hdr 4 "[128, 0, 0, 0]" "0xC17F" "0x7FC1"] by simp
qed

text \<open>For an odd length the two hosts store different bytes.\<close>

lemma icmp6_checksum_odd_byte_order:
  "\<exists>c d. icmp6_checksum False example_hdr [1] 1 = Some c \<and>
    icmp6_checksum True example_hdr [1] 1 = Some d \<and> store16 False c \<noteq> store16 True d"
  by (auto simp: icmp6_checksum_def icmp6_sum_def carry_small pseudo_hdr_def htonl_bytes_def
      host16_def example_hdr_def store16_def)

lemma words_sum_bound: "words_sum big bs \<le> 65535 * length bs"
proof (induction big bs rule: words_sum.induct)
  case (1 big a b bs)
  have "host16 big a b \<le> 65535 + 65535"
    using unat_u8_less [of a] unat_u8_less [of b] by (auto simp: host16_def)
  with 1 show ?case by simp
next
  case (2 big a)
  then show ?case using unat_u8_less [of a] by simp
qed simp

lemma carry_le: "carry n \<le> n"
proof (induction n rule: carry_induct)
  case (step n)
  have "n div 65536 + n mod 65536 \<le> n"
    using div_mult_mod_eq [of n 65536] by linarith
  with step show ?case by (simp add: carry_step)
qed (simp add: carry_small)

text \<open>
  No overflow: for every payload that fits into the address space (\<open>len < 2 ^ 47\<close>) the
  variable \<open>sum\<close> stays below \<open>2 ^ 63\<close> before the carries are folded, and folding never
  increases it, so the signed arithmetic of the function is defined.
\<close>

theorem icmp6_sum_in_long:
  assumes "wf_hdr hdr" and "len \<le> length payload" and "len < 2 ^ 47"
  shows "icmp6_sum big hdr payload len < 2 ^ 63 \<and>
    carry (icmp6_sum big hdr payload len) \<le> icmp6_sum big hdr payload len"
proof -
  have "icmp6_sum big hdr payload len \<le> 65535 * (40 + len)"
    using words_sum_bound [of big "pseudo_hdr hdr len @ take len payload"] assms
    by (simp add: icmp6_sum_eq length_pseudo_hdr)
  with assms(3) show ?thesis by (simp add: carry_le)
qed

theorem icmp6_sum_in_long_witness:
  "(1::nat) < 2 ^ 47 \<and> icmp6_sum False example_hdr [255] 1 < 2 ^ 63"
  using icmp6_sum_in_long [of example_hdr 1 "[255]" False] by simp

end
