(* ===== verification/Hexdump.thy ===== *)
theory Hexdump
  imports CString "HOL-Library.Monad_Syntax"
begin

text \<open>
  The hex dump of \<open>libraw\<close>: \<open>assignment2/libraw/src/hexdump.c\<close>. The function prints into a
  static array of 65536 characters; \<open>p\<close>, the number of characters printed so far, is the
  length of the string built. Printing past the array, or reading past the dumped buffer, is
  \<open>None\<close>.
\<close>

section \<open>The code\<close>

abbreviation str_size :: nat where
  "str_size \<equiv> 65536"

text \<open>\<open>p += sprintf(str + p, ...)\<close>: the text and a final NUL must fit.\<close>

definition sprintf_at :: "string \<Rightarrow> string \<Rightarrow> string option" where
  "sprintf_at str s = (if length str + length s + 1 \<le> str_size then Some (str @ s) else None)"

text \<open>\<open>str[p++] = c\<close>.\<close>

definition putc_at :: "string \<Rightarrow> char \<Rightarrow> string option" where
  "putc_at str c = (if length str < str_size then Some (str @ [c]) else None)"

text \<open>One iteration, up to the test at its end.\<close>

definition hexdump_byte :: "nat \<Rightarrow> u8 \<Rightarrow> string \<Rightarrow> string option" where
  "hexdump_byte i b str = do {
     str \<leftarrow> (if i mod 8 = 0 \<and> i \<noteq> 0 then sprintf_at str ''  '' else Some str);
     str \<leftarrow> (if i mod 16 = 0 then
               (if i = 0 then sprintf_at str (''>> '' @ hex_pad 4 i @ '':  '')
                else do {
                  str \<leftarrow> putc_at str (CHR 0x0A);
                  sprintf_at str (''>> '' @ hex_pad 4 i @ '':  '')
                })
             else Some str);
     sprintf_at str (hex_pad 2 (unat b) @ '' '')
   }"

fun hexdump_loop :: "nat \<Rightarrow> nat \<Rightarrow> u8 list \<Rightarrow> string \<Rightarrow> string option" where
  "hexdump_loop i 0 bs str = Some str"
| "hexdump_loop i (Suc n) [] str = None"
| "hexdump_loop i (Suc n) (b # bs) str = do {
     str \<leftarrow> hexdump_byte i b str;
     if str_size - length str < 64 then Some str else hexdump_loop (Suc i) n bs str
   }"

text \<open>
  \<open>hexdump2\<close> returns the static array. Its first argument is what the array holds from the
  previous call: nothing clears it, so with \<open>len\<close> 0 or negative that text is returned.
\<close>

definition hexdump2 :: "string \<Rightarrow> u8 list \<Rightarrow> int \<Rightarrow> string option" where
  "hexdump2 static_str buffer len =
     (if len \<le> 0 then Some static_str else hexdump_loop 0 (nat len) buffer [])"

text \<open>\<open>hexdump\<close> prints the dump and a newline on standard error.\<close>

definition hexdump :: "string \<Rightarrow> u8 list \<Rightarrow> int \<Rightarrow> string option" where
  "hexdump static_str buffer len = map_option (\<lambda>str. str @ [CHR 0x0A]) (hexdump2 static_str buffer len)"

section \<open>The dump as rows of sixteen bytes\<close>

definition hex_byte :: "u8 \<Rightarrow> string" where
  "hex_byte b = hex_pad 2 (unat b) @ '' ''"

definition row :: "nat \<Rightarrow> u8 list \<Rightarrow> string" where
  "row off bs = ''>> '' @ hex_pad 4 off @ '':  '' @ concat (map hex_byte (take 8 bs)) @
     (if 8 < length bs then ''  '' @ concat (map hex_byte (drop 8 bs)) else [])"

fun rows :: "nat \<Rightarrow> u8 list \<Rightarrow> string" where
  "rows off bs =
     (if length bs \<le> 16 then row off bs
      else row off (take 16 bs) @ ''  '' @ [CHR 0x0A] @ rows (off + 16) (drop 16 bs))"

declare rows.simps [simp del]

text \<open>What one iteration appends, and the dump of a list from index \<open>i\<close> on.\<close>

definition separator :: "nat \<Rightarrow> string" where
  "separator i = (if i mod 8 = 0 \<and> i \<noteq> 0 then ''  '' else []) @
     (if i mod 16 = 0 then (if i = 0 then [] else [CHR 0x0A]) @ ''>> '' @ hex_pad 4 i @ '':  '' else [])"

fun dump :: "nat \<Rightarrow> u8 list \<Rightarrow> string" where
  "dump i [] = []"
| "dump i (b # bs) = separator i @ hex_byte b @ dump (Suc i) bs"

lemma length_hex_byte: "length (hex_byte b) = 3"
  by (simp add: hex_byte_def hex_two_digits unat_u8_less)

lemma length_separator: "i < 65536 \<Longrightarrow> length (separator i) \<le> 13"
  by (simp add: separator_def length_hex_pad_4)

lemma hexdump_byte_eq:
  assumes "i < 65536" and "length str \<le> 65472"
  shows "hexdump_byte i b str = Some (str @ separator i @ hex_byte b)"
  using assms length_hex_byte [of b]
  by (auto simp: hexdump_byte_def sprintf_at_def putc_at_def separator_def length_hex_pad_4 hex_byte_def)

lemma dump_append: "dump i (xs @ ys) = dump i xs @ dump (i + length xs) ys"
  by (induction xs arbitrary: i) auto

text \<open>
  The loop prints the dump of a prefix: of everything, or of as much as fits before fewer
  than 64 characters are left.
\<close>

lemma hexdump_loop_dump:
  assumes "n \<le> length bs" and "3 * i \<le> length str" and "length str \<le> 65472"
  shows "\<exists>k \<le> n. hexdump_loop i n bs str = Some (str @ dump i (take k bs)) \<and>
    length (str @ dump i (take k bs)) < str_size \<and>
    (k = n \<or> 65472 < length (str @ dump i (take k bs)))"
  using assms
proof (induction n arbitrary: i bs str)
  case (Suc n)
  then obtain b bs' where bs: "bs = b # bs'" by (cases bs) auto
  let ?str = "str @ separator i @ hex_byte b"
  have i: "i < 65536" using Suc.prems by simp
  then have step: "hexdump_byte i b str = Some ?str"
    using Suc.prems by (simp add: hexdump_byte_eq)
  have len: "length ?str \<le> 65488"
    using Suc.prems length_separator [OF i] by (simp add: length_hex_byte)
  show ?case
  proof (cases "length ?str \<le> 65472")
    case True
    then obtain k where "k \<le> n"
      "hexdump_loop (Suc i) n bs' ?str = Some (?str @ dump (Suc i) (take k bs'))"
      "length (?str @ dump (Suc i) (take k bs')) < str_size"
      "k = n \<or> 65472 < length (?str @ dump (Suc i) (take k bs'))"
      using Suc.IH [of bs' "Suc i" ?str] Suc.prems bs by (auto simp: length_hex_byte)
    then show ?thesis
      using bs step True by (intro exI [of _ "Suc k"]) auto
  next
    case False
    then show ?thesis
      using bs step len by (intro exI [of _ 1]) auto
  qed
qed auto


section \<open>Rows\<close>

lemma separator_inside: "i mod 8 \<noteq> 0 \<Longrightarrow> separator i = []"
  using mod_mod_cancel [of 8 16 i] by (auto simp: separator_def)

lemma separator_half: "i mod 16 = 0 \<Longrightarrow> separator (i + 8) = ''  ''"
  using mod_add_left_eq [of i 16 8] mod_mod_cancel [of 8 16 "i + 8"] by (simp add: separator_def)

lemma separator_row:
  "i mod 16 = 0 \<Longrightarrow> separator i =
    (if i = 0 then [] else ''  '' @ [CHR 0x0A]) @ ''>> '' @ hex_pad 4 i @ '':  ''"
  using mod_mod_cancel [of 8 16 i] by (simp add: separator_def)

text \<open>Inside a group of eight bytes nothing is inserted.\<close>

lemma dump_inside:
  "i mod 8 \<noteq> 0 \<Longrightarrow> i mod 8 + length bs \<le> 8 \<Longrightarrow> dump i bs = concat (map hex_byte bs)"
proof (induction bs arbitrary: i)
  case (Cons b bs)
  then show ?case
  proof (cases "bs = []")
    case False
    with Cons.prems have "i mod 8 < 7" by (cases bs) auto
    then have "Suc i mod 8 = Suc (i mod 8)" by (simp add: mod_Suc)
    with Cons show ?thesis by (simp add: separator_inside)
  qed (simp add: separator_inside)
qed simp

lemma dump_group:
  assumes "i mod 8 = 0" and "bs \<noteq> []" and "length bs \<le> 8"
  shows "dump i bs = separator i @ concat (map hex_byte bs)"
proof -
  obtain b bs' where bs: "bs = b # bs'" using assms(2) by (cases bs) auto
  have "Suc i mod 8 = 1" using assms(1) by (simp add: mod_Suc)
  with assms(3) bs have "dump (Suc i) bs' = concat (map hex_byte bs')"
    by (intro dump_inside) auto
  with bs show ?thesis by simp
qed

lemma dump_row:
  assumes "i mod 16 = 0" and "bs \<noteq> []" and "length bs \<le> 16"
  shows "dump i bs = (if i = 0 then [] else ''  '' @ [CHR 0x0A]) @ row i bs"
proof -
  have i: "i mod 8 = 0" "(i + 8) mod 8 = 0" using assms(1) mod_mod_cancel [of 8 16 i] by auto
  have "dump i (take 8 bs @ drop 8 bs) = dump i (take 8 bs) @ dump (i + length (take 8 bs)) (drop 8 bs)"
    by (rule dump_append)
  also have "dump i (take 8 bs) = separator i @ concat (map hex_byte (take 8 bs))"
    using assms i by (intro dump_group) auto
  also have "dump (i + length (take 8 bs)) (drop 8 bs) =
      (if 8 < length bs then ''  '' @ concat (map hex_byte (drop 8 bs)) else [])"
    using assms dump_group [OF i(2), of "drop 8 bs"] separator_half [OF assms(1)] by (auto simp: min_def)
  finally show ?thesis
    using separator_row [OF assms(1)] by (simp add: row_def)
qed

lemma dump_rows:
  "i mod 16 = 0 \<Longrightarrow> bs \<noteq> [] \<Longrightarrow>
    dump i bs = (if i = 0 then [] else ''  '' @ [CHR 0x0A]) @ rows i bs"
proof (induction i bs rule: rows.induct)
  case (1 i bs)
  show ?case
  proof (cases "length bs \<le> 16")
    case True
    with 1 show ?thesis by (simp add: rows.simps [of i bs] dump_row)
  next
    case False
    have "dump i (take 16 bs @ drop 16 bs) = dump i (take 16 bs) @ dump (i + 16) (drop 16 bs)"
      using False by (subst dump_append) simp
    also have "dump i (take 16 bs) = (if i = 0 then [] else ''  '' @ [CHR 0x0A]) @ row i (take 16 bs)"
      using 1 False by (intro dump_row) auto
    also have "dump (i + 16) (drop 16 bs) = (''  '' @ [CHR 0x0A]) @ rows (i + 16) (drop 16 bs)"
      using 1 False by simp
    finally show ?thesis
      using False by (simp add: rows.simps [of i bs])
  qed
qed

section \<open>Reading a dump back\<close>

text \<open>
  A reader of dumps: it skips blanks and line ends, and the seven characters that follow the
  first \<open>>\<close> of a row header, and takes two digits at a time otherwise.
\<close>

fun undump :: "string \<Rightarrow> u8 list" where
  "undump [] = []"
| "undump (c # s) =
     (if c = CHR '' '' \<or> c = CHR 0x0A then undump s
      else if c = CHR ''>'' then undump (drop 7 s)
      else case s of [] \<Rightarrow> []
        | d # s' \<Rightarrow> of_nat (16 * hex_val c + hex_val d) # undump s')"

lemma undump_hex_byte: "undump (hex_byte b @ s) = b # undump s"
proof -
  have b: "unat b < 256" by (rule unat_u8_less)
  then have "unat b div 16 < 16" by auto
  with hex_char_not_blank [OF this] show ?thesis
    by (simp add: hex_byte_def hex_two_digits b)
qed

lemma undump_header:
  assumes "i < 65536"
  shows "undump (''>> '' @ hex_pad 4 i @ '':  '' @ s) = undump s"
proof -
  obtain a b c d where "hex_pad 4 i = [a, b, c, d]"
    using length_hex_pad_4 [OF assms] by (auto simp: numeral_eq_Suc length_Suc_conv)
  then show ?thesis by simp
qed

lemma undump_separator: "i < 65536 \<Longrightarrow> undump (separator i @ s) = undump s"
  using undump_header [of i s] by (auto simp: separator_def)

lemma undump_dump: "i + length bs \<le> 65536 \<Longrightarrow> undump (dump i bs) = bs"
  by (induction bs arbitrary: i) (auto simp: undump_separator undump_hex_byte)

section \<open>Properties\<close>

lemma hexdump2_dump:
  assumes "0 < len" and "nat len \<le> length buffer"
  shows "\<exists>k \<le> nat len. hexdump2 old buffer len = Some (dump 0 (take k buffer)) \<and>
    length (dump 0 (take k buffer)) < str_size \<and> (k = nat len \<or> 65472 < length (dump 0 (take k buffer)))"
  using hexdump_loop_dump [of "nat len" buffer 0 "[]"] assms by (simp add: hexdump2_def)

text \<open>
  C23. Memory safety: whatever the length, as long as it does not exceed the dumped buffer,
  \<open>hexdump2\<close> returns, and text and final NUL fit into the static array.
\<close>

theorem hexdump2_safe:
  assumes "nat len \<le> length buffer" and "length old < str_size"
  shows "\<exists>str. hexdump2 old buffer len = Some str \<and> length str < str_size"
proof (cases "0 < len")
  case True
  with hexdump2_dump [OF True assms(1), of old] show ?thesis by blast
next
  case False
  with assms show ?thesis by (simp add: hexdump2_def)
qed

theorem hexdump2_safe_witness:
  "nat 100000 \<le> length (replicate 100000 (0 :: u8)) \<and>
    (\<exists>str. hexdump2 [] (replicate 100000 0) 100000 = Some str \<and> length str < str_size)"
  using hexdump2_safe [of 100000 "replicate 100000 0" "[]"] by simp

lemma take_length_dump: "65536 < n \<Longrightarrow> n \<le> length bs \<Longrightarrow> 65536 < length (dump i (take n bs))"
proof -
  have "length bs \<le> length (dump i bs)" for i and bs :: "u8 list"
    by (induction bs arbitrary: i) (auto simp: length_hex_byte intro: le_SucI trans_le_add2)
  then show "65536 < n \<Longrightarrow> n \<le> length bs \<Longrightarrow> 65536 < length (dump i (take n bs))"
    by (metis length_take min.absorb2 order_less_le_trans)
qed

text \<open>
  C24. Layout and completeness: the text is the rows of sixteen bytes (offset, two groups of
  eight) of a prefix of the buffer. The prefix is the whole buffer unless fewer than 64
  characters of the array are left, and reading the text back gives exactly that prefix.
\<close>

theorem hexdump2_rows_roundtrip:
  assumes "0 < len" and "nat len \<le> length buffer"
  shows "\<exists>k str. hexdump2 old buffer len = Some str \<and> 0 < k \<and> k \<le> nat len \<and>
    str = rows 0 (take k buffer) \<and> undump str = take k buffer \<and>
    (k = nat len \<or> 65472 < length str)"
proof -
  obtain k where k: "k \<le> nat len" "hexdump2 old buffer len = Some (dump 0 (take k buffer))"
    "length (dump 0 (take k buffer)) < str_size" "k = nat len \<or> 65472 < length (dump 0 (take k buffer))"
    using hexdump2_dump [OF assms] by blast
  have pos: "0 < k" using k(4) assms by (cases k) auto
  then have "dump 0 (take k buffer) = rows 0 (take k buffer)"
    using dump_rows [of 0 "take k buffer"] assms k(1) by (cases buffer) auto
  moreover have "k \<le> 65536"
    using take_length_dump [of k buffer 0] k(1,3) assms(2) by (cases "k \<le> 65536") auto
  then have "undump (dump 0 (take k buffer)) = take k buffer"
    using undump_dump [of 0 "take k buffer"] by simp
  ultimately show ?thesis using k pos by (intro exI [of _ k]) auto
qed

theorem hexdump2_rows_roundtrip_witness:
  "\<exists>k str. hexdump2 [] [0x60, 0x0A] 2 = Some str \<and> 0 < k \<and> k \<le> 2 \<and>
    str = rows 0 (take k [0x60, 0x0A]) \<and> undump str = take k [0x60, 0x0A] \<and> (k = 2 \<or> 65472 < length str)"
  using hexdump2_rows_roundtrip [of 2 "[0x60, 0x0A]" "[]"] by simp

text \<open>
  The array keeps its old text: with a length of 0 (or less) the returned dump is the one
  of the previous call, not an empty text.
\<close>

theorem hexdump2_stale:
  assumes "hexdump2 old buffer len = Some str" and "len' \<le> 0"
  shows "hexdump2 str buffer' len' = Some str"
  using assms by (simp add: hexdump2_def)

theorem hexdump2_stale_witness:
  "hexdump2 [] [255] 1 = Some ''>> 0000:  ff '' \<and> hexdump2 ''>> 0000:  ff '' [] 0 = Some ''>> 0000:  ff ''"
proof -
  have "hexdump2 [] [255] 1 = Some ''>> 0000:  ff ''"
    by (simp add: hexdump2_def hexdump_byte_def sprintf_at_def c_eval numeral_3_eq_3)
  with hexdump2_stale [OF this, of 0 "[]"] show ?thesis by simp
qed

end
