(* ===== verification/Timespec.thy ===== *)
theory Timespec
  imports Prelude
begin

text \<open>
  The macros of \<open>assignment2/libraw/src/timespec.h\<close>. A \<open>struct timespec\<close> is a pair of
  \<open>long\<close>s; the macros assign through their first argument, the definitions return its new
  value. \<open>nsecs\<close> is the time as one number of nanoseconds, \<open>normalised\<close> the range of
  \<open>tv_nsec\<close> that the clock functions of the system guarantee.
\<close>

datatype timespec = Timespec (tv_sec: int) (tv_nsec: int)

definition timespecclear :: "timespec \<Rightarrow> timespec" where
  "timespecclear t = Timespec 0 0"

definition timespecisset :: "timespec \<Rightarrow> bool" where
  "timespecisset t \<longleftrightarrow> tv_sec t \<noteq> 0 \<or> tv_nsec t \<noteq> 0"

definition timespeccmp :: "timespec \<Rightarrow> timespec \<Rightarrow> (int \<Rightarrow> int \<Rightarrow> bool) \<Rightarrow> bool" where
  "timespeccmp t u cmp =
     (if tv_sec t = tv_sec u then cmp (tv_nsec t) (tv_nsec u) else cmp (tv_sec t) (tv_sec u))"

definition timespecadd :: "timespec \<Rightarrow> timespec \<Rightarrow> timespec" where
  "timespecadd v u =
     (let sec = tv_sec v + tv_sec u; nsec = tv_nsec v + tv_nsec u
      in if nsec \<ge> 1000000000 then Timespec (sec + 1) (nsec - 1000000000) else Timespec sec nsec)"

definition timespecsub :: "timespec \<Rightarrow> timespec \<Rightarrow> timespec" where
  "timespecsub v u =
     (let sec = tv_sec v - tv_sec u; nsec = tv_nsec v - tv_nsec u
      in if nsec < 0 then Timespec (sec - 1) (nsec + 1000000000) else Timespec sec nsec)"

definition timespecmax :: "timespec \<Rightarrow> timespec \<Rightarrow> timespec" where
  "timespecmax u w = (if timespeccmp u w (>) then Timespec (tv_sec u) (tv_nsec u)
     else Timespec (tv_sec w) (tv_nsec w))"

text \<open>\<open>msec\<close> is an \<open>unsigned int\<close> in the only use of the macro.\<close>

definition timespecmset :: "u32 \<Rightarrow> timespec" where
  "timespecmset msec =
     (let sec = uint (msec div 1000) in Timespec sec ((uint msec - sec * 1000) * 1000000))"

section \<open>Order\<close>

text \<open>
  \<open>timespeccmp\<close> with \<open>\<le>\<close> and \<open><\<close> is a linear order on the structure, and \<open>timespecmax\<close> is
  its maximum.
\<close>

instantiation timespec :: linorder
begin

definition less_eq_timespec :: "timespec \<Rightarrow> timespec \<Rightarrow> bool" where
  "less_eq_timespec t u = timespeccmp t u (\<le>)"

definition less_timespec :: "timespec \<Rightarrow> timespec \<Rightarrow> bool" where
  "less_timespec t u = timespeccmp t u (<)"

instance
  by standard (auto simp: less_eq_timespec_def less_timespec_def timespeccmp_def
      intro: timespec.expand split: if_splits)

end

section \<open>Arithmetic in nanoseconds\<close>

definition nsecs :: "timespec \<Rightarrow> int" where
  "nsecs t = tv_sec t * 1000000000 + tv_nsec t"

definition normalised :: "timespec \<Rightarrow> bool" where
  "normalised t \<longleftrightarrow> 0 \<le> tv_nsec t \<and> tv_nsec t < 1000000000"

named_theorems timespec_simps

lemma nsecs_sub [timespec_simps, simp]: "nsecs (timespecsub v u) = nsecs v - nsecs u"
  by (simp add: timespecsub_def nsecs_def Let_def)

lemma nsecs_add [timespec_simps, simp]: "nsecs (timespecadd v u) = nsecs v + nsecs u"
  by (simp add: timespecadd_def nsecs_def Let_def)

lemma normalised_sub [intro]: "normalised v \<Longrightarrow> normalised u \<Longrightarrow> normalised (timespecsub v u)"
  by (auto simp: timespecsub_def normalised_def Let_def)

lemma normalised_add [intro]: "normalised v \<Longrightarrow> normalised u \<Longrightarrow> normalised (timespecadd v u)"
  by (auto simp: timespecadd_def normalised_def Let_def)

lemma uint_div_1000: "uint (m div 1000) = uint m div 1000" for m :: u32
  by (simp add: uint_div)

lemma nsecs_mset [timespec_simps, simp]: "nsecs (timespecmset m) = uint m * 1000000"
  by (simp add: timespecmset_def nsecs_def Let_def)

lemma normalised_mset [intro, simp]: "normalised (timespecmset m)"
proof -
  have "0 \<le> uint m - uint m div 1000 * 1000" "uint m - uint m div 1000 * 1000 \<le> 999"
    by (simp_all add: minus_div_mult_eq_mod)
  then show ?thesis by (simp add: timespecmset_def normalised_def Let_def uint_div_1000)
qed

text \<open>The milliseconds \<open>grnvs_read\<close> stores are the nanoseconds rounded down.\<close>

lemma msecs_of_nsecs:
  "normalised t \<Longrightarrow> tv_sec t * 1000 + tv_nsec t sdiv 1000000 = nsecs t div 1000000"
proof -
  assume t: "normalised t"
  then have "tv_nsec t sdiv 1000000 = tv_nsec t div 1000000"
    by (simp add: normalised_def signed_divide_int_def sgn_if)
  moreover have "nsecs t div 1000000 = tv_sec t * 1000 + tv_nsec t div 1000000"
    by (simp add: nsecs_def)
  ultimately show ?thesis by simp
qed

lemma timespec_less_nsecs: "normalised t \<Longrightarrow> normalised u \<Longrightarrow> t < u \<longleftrightarrow> nsecs t < nsecs u"
  by (auto simp: less_timespec_def timespeccmp_def nsecs_def normalised_def)

lemma timespec_le_nsecs: "normalised t \<Longrightarrow> normalised u \<Longrightarrow> t \<le> u \<longleftrightarrow> nsecs t \<le> nsecs u"
  using timespec_less_nsecs [of u t] by (simp add: not_less [symmetric])

lemma timespecmax_eq: "timespecmax t u = max t u"
  using less_timespec_def [of u t] by (auto simp: timespecmax_def max_def timespeccmp_def split: if_splits)

section \<open>Properties\<close>

text \<open>
  On normalised times the macros are exact: comparison, maximum, sum, difference and the
  conversion from milliseconds agree with the arithmetic on nanoseconds, and their results
  are normalised again (one borrow or carry is always enough).
\<close>

theorem timespec_exact:
  assumes "normalised t" and "normalised u"
  shows "(timespeccmp t u (<) \<longleftrightarrow> nsecs t < nsecs u) \<and>
    (timespeccmp t u (\<le>) \<longleftrightarrow> nsecs t \<le> nsecs u) \<and>
    nsecs (timespecadd t u) = nsecs t + nsecs u \<and> normalised (timespecadd t u) \<and>
    nsecs (timespecsub t u) = nsecs t - nsecs u \<and> normalised (timespecsub t u) \<and>
    nsecs (timespecmax t u) = max (nsecs t) (nsecs u) \<and>
    nsecs (timespecmset m) = uint m * 1000000 \<and> normalised (timespecmset m)"
  using assms timespec_less_nsecs [OF assms] timespec_le_nsecs [OF assms]
  by (auto simp: less_timespec_def less_eq_timespec_def timespecmax_eq max_def)

theorem timespec_exact_witness:
  "normalised (Timespec 1 5) \<and> normalised (Timespec 0 7) \<and> timespecsub (Timespec 1 5) (Timespec 0 7) = Timespec 0 999999998
    \<and> nsecs (timespecsub (Timespec 1 5) (Timespec 0 7)) = 999999998"
  using timespec_exact [of "Timespec 1 5" "Timespec 0 7" 0]
  by (simp add: normalised_def timespecsub_def nsecs_def)

end
