(* ===== verification/Raw.thy ===== *)
theory Raw
  imports Timespec
begin

text \<open>
  The raw sockets of \<open>libraw\<close>: \<open>assignment2/libraw/src/raw.c\<close>. The static variables of the
  file are the record \<open>raw_state\<close>. Every system call is answered by the environment: for
  \<open>grnvs_open\<close> a record \<open>os_open\<close> of answers, for the loops of \<open>grnvs_read\<close> and
  \<open>grnvs_write\<close> a list with the answers of one iteration each, consumed from the front; an
  exhausted list is a call that waits for ever.
\<close>

section \<open>State\<close>

record raw_state =
  ifindex :: int
  write_six :: int
  write_four :: int
  mac :: "u8 list"
  ip :: "u8 list"
  ip6 :: "u8 list"

abbreviation zeros :: "nat \<Rightarrow> u8 list" where
  "zeros n \<equiv> replicate n 0"

definition raw_init :: raw_state where
  "raw_init = \<lparr>ifindex = - 1, write_six = - 1, write_four = - 1,
     mac = zeros 6, ip = zeros 4, ip6 = zeros 16\<rparr>"

definition SOCK_DGRAM :: int where
  "SOCK_DGRAM = 2"

definition SOCK_RAW :: int where
  "SOCK_RAW = 3"

section \<open>Opening\<close>

datatype sockaddr = AF_INET "u8 list" | AF_INET6 "u8 list" | AF_OTHER

record ifaddr =
  ifa_name :: string
  ifa_addr :: "sockaddr option"

text \<open>
  The answers of the system to one \<open>grnvs_open\<close>: the three \<open>socket\<close> calls, the two
  \<open>ioctl\<close>s by interface name, \<open>getifaddrs\<close> and \<open>bind\<close>. \<open>None\<close> is a failing call.
\<close>

record os_open =
  os_socket6 :: int
  os_socket4 :: int
  os_packet :: int
  os_ifindex :: "string \<Rightarrow> int option"
  os_hwaddr :: "string \<Rightarrow> u8 list option"
  os_ifaddrs :: "ifaddr list option"
  os_bind :: bool

definition is_global :: "u8 list \<Rightarrow> bool" where
  "is_global addr \<longleftrightarrow> \<not> (addr ! 0 = 0xFE \<and> addr ! 1 = 0x80)"

definition use_ifaddr :: "string \<Rightarrow> int \<Rightarrow> ifaddr \<Rightarrow> raw_state \<Rightarrow> raw_state" where
  "use_ifaddr ifname layer ifc st =
     (if ifa_name ifc \<noteq> ifname then st
      else case ifa_addr ifc of
        None \<Rightarrow> st
      | Some (AF_INET a) \<Rightarrow> st\<lparr>ip := a\<rparr>
      | Some (AF_INET6 a) \<Rightarrow>
          if layer = SOCK_DGRAM \<and> \<not> is_global a then st else st\<lparr>ip6 := a\<rparr>
      | Some AF_OTHER \<Rightarrow> st)"

definition grnvs_get_addresses :: "os_open \<Rightarrow> string \<Rightarrow> int \<Rightarrow> raw_state \<Rightarrow> raw_state outcome" where
  "grnvs_get_addresses os ifname layer st =
     (case os_ifaddrs os of
        None \<Rightarrow> Exit (- 1)
      | Some ifa \<Rightarrow> Return (fold (use_ifaddr ifname layer) ifa st))"

text \<open>\<open>ifr_name\<close> has 16 characters; \<open>strcpy\<close> of a longer name writes past it.\<close>

definition open_writers :: "os_open \<Rightarrow> int \<Rightarrow> raw_state \<Rightarrow> raw_state outcome" where
  "open_writers os layer st =
     (if layer = SOCK_DGRAM then
        (let st = st\<lparr>write_six := os_socket6 os\<rparr>
         in if write_six st < 0 then Exit (- 1)
            else let st = st\<lparr>write_four := os_socket4 os\<rparr>
              in if write_four st < 0 then Exit (- 1) else Return st)
      else Return st)"

definition query_interface :: "os_open \<Rightarrow> string \<Rightarrow> raw_state \<Rightarrow> raw_state outcome" where
  "query_interface os ifname st =
     (if 16 \<le> length ifname then Undefined
      else case os_ifindex os ifname of
        None \<Rightarrow> Exit (- 1)
      | Some i \<Rightarrow> (case os_hwaddr os ifname of
          None \<Rightarrow> Exit (- 1)
        | Some hw \<Rightarrow> Return (st\<lparr>ifindex := i, mac := take 6 hw\<rparr>)))"

definition grnvs_open :: "os_open \<Rightarrow> string \<Rightarrow> int \<Rightarrow> raw_state \<Rightarrow> (int \<times> raw_state) outcome" where
  "grnvs_open os ifname layer st =
     (let st = st\<lparr>ip6 := zeros 16\<rparr>
      in if layer \<noteq> SOCK_DGRAM \<and> layer \<noteq> SOCK_RAW then Exit (- 1)
         else bind_outcome (open_writers os layer st) (\<lambda>st.
           if os_packet os < 0 then Exit (- 1)
           else bind_outcome (query_interface os ifname st) (\<lambda>st.
             bind_outcome (grnvs_get_addresses os ifname layer st) (\<lambda>st.
               if os_bind os then Return (os_packet os, st) else Exit (- 1)))))"

section \<open>Reading with a timeout\<close>

datatype select_result = Sel_ready | Sel_timeout | Sel_eintr | Sel_error

datatype read_result = Rd_data "u8 list" | Rd_eintr | Rd_error

text \<open>
  The answers of one iteration: the clock before and after \<open>pselect\<close>, what \<open>pselect\<close>
  returned, and what \<open>read\<close> returns if it is called. The system hands out at most \<open>maxlen\<close>
  bytes of a frame.
\<close>

record read_round =
  before :: timespec
  after :: timespec
  sel :: select_result
  rd :: read_result

text \<open>A successful read: length, bytes, the new \<open>*timeout\<close>, and the answers left over.\<close>

record read_return =
  ret :: int
  data :: "u8 list"
  timeout_left :: "u32 option"
  rounds_left :: "read_round list"

text \<open>
  The loop of \<open>grnvs_read\<close>. \<open>tmo\<close> is \<open>*timeout\<close> (\<open>None\<close> for a NULL pointer), \<open>time\<close> the
  variable of that name, \<open>len\<close> is \<open>None\<close> while the variable is not initialised. A
  \<open>continue\<close> goes to the test at the end of the loop, which reads \<open>len\<close>; \<open>errno\<close> is
  \<open>EINTR\<close> there. The store \<open>*timeout = 0\<close> needs a pointer.
\<close>

fun read_loop :: "nat \<Rightarrow> u32 option \<Rightarrow> timespec \<Rightarrow> int option \<Rightarrow> read_round list \<Rightarrow> read_return outcome" where
  "read_loop maxlen tmo time len [] = Blocks"
| "read_loop maxlen tmo time len (r # rs) =
     (let elapsed = timespecsub (after r) (before r);
          time' = (case tmo of None \<Rightarrow> time | Some _ \<Rightarrow> timespecsub time elapsed);
          tmo' = (case tmo of None \<Rightarrow> None
            | Some _ \<Rightarrow> Some (word_of_int (tv_sec time' * 1000 + tv_nsec time' sdiv 1000000)))
      in case sel r of
           Sel_eintr \<Rightarrow> (case len of
               None \<Rightarrow> Undefined
             | Some l \<Rightarrow> if l < 0 then read_loop maxlen tmo' time' len rs
                 else Return \<lparr>ret = l, data = [], timeout_left = tmo', rounds_left = rs\<rparr>)
         | Sel_error \<Rightarrow> Exit (- 1)
         | Sel_timeout \<Rightarrow> (case tmo' of
               None \<Rightarrow> Undefined
             | Some _ \<Rightarrow> Return \<lparr>ret = 0, data = [], timeout_left = Some 0, rounds_left = rs\<rparr>)
         | Sel_ready \<Rightarrow> (case rd r of
               Rd_eintr \<Rightarrow> read_loop maxlen tmo' time' (Some (- 1)) rs
             | Rd_error \<Rightarrow> Exit (- 1)
             | Rd_data f \<Rightarrow> Return \<lparr>ret = int (length (take maxlen f)), data = take maxlen f,
                 timeout_left = tmo', rounds_left = rs\<rparr>))"

definition grnvs_read :: "raw_state \<Rightarrow> nat \<Rightarrow> u32 option \<Rightarrow> read_round list \<Rightarrow> read_return outcome" where
  "grnvs_read st maxlen tmo rounds =
     (if ifindex st < 0 then Exit (- 1)
      else case tmo of
        None \<Rightarrow> read_loop maxlen None (Timespec 0 0) None rounds
      | Some t \<Rightarrow>
          if t = 0 then Return \<lparr>ret = 0, data = [], timeout_left = Some t, rounds_left = rounds\<rparr>
          else read_loop maxlen (Some t) (timespecmset t) None rounds)"

section \<open>Writing\<close>

datatype write_result = Wr_sent int | Wr_eintr | Wr_error

text \<open>A transmission: the descriptor, the destination address if one is given, the bytes.\<close>

record transmission =
  tx_fd :: int
  tx_dst :: "u8 list option"
  tx_bytes :: "u8 list"

definition version_nibble :: "u8 list \<Rightarrow> u8" where
  "version_nibble buf = (buf ! 0) AND 0xF0"

text \<open>
  Where \<open>grnvs_write\<close> sends a packet; \<open>None\<close> is the return with \<open>-EINVAL\<close>.
\<close>

definition route :: "raw_state \<Rightarrow> int \<Rightarrow> u8 list \<Rightarrow> nat \<Rightarrow> transmission option" where
  "route st fd buf len =
     (if 0 < write_six st then
        (if version_nibble buf = 0x60 then
           Some \<lparr>tx_fd = write_six st, tx_dst = Some (take 16 (drop 24 buf)), tx_bytes = take len buf\<rparr>
         else if version_nibble buf = 0x40 then
           Some \<lparr>tx_fd = write_four st, tx_dst = None, tx_bytes = take len buf\<rparr>
         else None)
      else Some \<lparr>tx_fd = fd, tx_dst = None, tx_bytes = take len buf\<rparr>)"

fun write_loop :: "transmission \<Rightarrow> write_result list \<Rightarrow> (int \<times> transmission list) outcome" where
  "write_loop tx [] = Blocks"
| "write_loop tx (w # ws) = (case w of
     Wr_sent n \<Rightarrow> Return (n, [tx])
   | Wr_eintr \<Rightarrow> write_loop tx ws
   | Wr_error \<Rightarrow> Exit (- 1))"

text \<open>
  \<open>buf\<close> is the memory behind the pointer. On a layer 3 socket the destination address is
  copied from bytes 24 to 39 before anything is checked, whatever \<open>len\<close> is.
\<close>

definition grnvs_write ::
  "raw_state \<Rightarrow> int \<Rightarrow> u8 list \<Rightarrow> nat \<Rightarrow> write_result list \<Rightarrow> (int \<times> transmission list) outcome" where
  "grnvs_write st fd buf len answers =
     (if 0 < write_six st \<and> length buf < 40 then Undefined
      else if ifindex st < 0 then Exit (- 1)
      else case route st fd buf len of
        None \<Rightarrow> Return (- 22, [])
      | Some tx \<Rightarrow> if length buf < len then Undefined else write_loop tx answers)"

section \<open>Closing and the addresses\<close>

definition grnvs_close :: "raw_state \<Rightarrow> int \<Rightarrow> int \<times> raw_state" where
  "grnvs_close st close_result =
     (close_result, st\<lparr>ifindex := - 1, mac := zeros 6, ip6 := zeros 16, ip := zeros 4\<rparr>)"

text \<open>\<open>None\<close> is the NULL pointer.\<close>

definition grnvs_get_hwaddr :: "raw_state \<Rightarrow> u8 list option" where
  "grnvs_get_hwaddr st = (if ifindex st < 0 then None else Some (mac st))"

definition grnvs_get_ipaddr :: "raw_state \<Rightarrow> u8 list" where
  "grnvs_get_ipaddr st = ip st"

definition grnvs_get_ip6addr :: "raw_state \<Rightarrow> u8 list option" where
  "grnvs_get_ip6addr st = (if ifindex st < 0 then None else Some (ip6 st))"


section \<open>The addresses chosen by open\<close>

definition ip6_candidates :: "string \<Rightarrow> int \<Rightarrow> ifaddr list \<Rightarrow> u8 list list" where
  "ip6_candidates ifname layer l = concat (map (\<lambda>ifc. case ifa_addr ifc of
     Some (AF_INET6 a) \<Rightarrow>
       if ifa_name ifc = ifname \<and> (layer = SOCK_DGRAM \<longrightarrow> is_global a) then [a] else []
   | _ \<Rightarrow> []) l)"

definition ip_candidates :: "string \<Rightarrow> ifaddr list \<Rightarrow> u8 list list" where
  "ip_candidates ifname l = concat (map (\<lambda>ifc. case ifa_addr ifc of
     Some (AF_INET a) \<Rightarrow> if ifa_name ifc = ifname then [a] else []
   | _ \<Rightarrow> []) l)"

definition last_or :: "'a \<Rightarrow> 'a list \<Rightarrow> 'a" where
  "last_or d xs = (if xs = [] then d else last xs)"

lemma last_or_append: "last_or d (xs @ ys) = last_or (last_or d xs) ys"
  by (simp add: last_or_def)

lemma last_or_in: "last_or d xs \<in> insert d (set xs)"
  by (simp add: last_or_def)

lemma fold_use_ifaddr:
  "fold (use_ifaddr ifname layer) l st =
    st\<lparr>ip := last_or (ip st) (ip_candidates ifname l), ip6 := last_or (ip6 st) (ip6_candidates ifname layer l)\<rparr>"
proof (induction l arbitrary: st)
  case Nil
  then show ?case by (simp add: ip_candidates_def ip6_candidates_def last_or_def)
next
  case (Cons ifc l)
  then show ?case
    by (auto simp: use_ifaddr_def ip_candidates_def ip6_candidates_def last_or_append
        split: option.splits sockaddr.splits) (auto simp: last_or_def)
qed

lemma open_writers_Return:
  "open_writers os layer st = Return st' \<Longrightarrow> st' =
    (if layer = SOCK_DGRAM then st\<lparr>write_six := os_socket6 os, write_four := os_socket4 os\<rparr> else st)"
  by (auto simp: open_writers_def Let_def split: if_splits)

lemma query_interface_Return:
  "query_interface os ifname st = Return st' \<longleftrightarrow> length ifname < 16 \<and>
    (\<exists>i hw. os_ifindex os ifname = Some i \<and> os_hwaddr os ifname = Some hw \<and>
      st' = st\<lparr>ifindex := i, mac := take 6 hw\<rparr>)"
  by (auto simp: query_interface_def split: option.splits)

lemma grnvs_open_Return:
  assumes "grnvs_open os ifname layer st = Return (fd, st')"
  shows "\<exists>i hw l. layer \<in> {SOCK_DGRAM, SOCK_RAW} \<and> length ifname < 16 \<and> fd = os_packet os \<and> 0 \<le> fd \<and>
    os_ifindex os ifname = Some i \<and> os_hwaddr os ifname = Some hw \<and> os_ifaddrs os = Some l \<and>
    st' = \<lparr>ifindex = i,
      write_six = (if layer = SOCK_DGRAM then os_socket6 os else write_six st),
      write_four = (if layer = SOCK_DGRAM then os_socket4 os else write_four st),
      mac = take 6 hw,
      ip = last_or (ip st) (ip_candidates ifname l),
      ip6 = last_or (zeros 16) (ip6_candidates ifname layer l)\<rparr>"
  using assms
  by (auto simp: grnvs_open_def Let_def grnvs_get_addresses_def fold_use_ifaddr query_interface_Return
      dest!: open_writers_Return split: if_splits option.splits)

section \<open>Open and close in sequence\<close>

text \<open>The sizes the system promises for the addresses it hands out.\<close>

definition wf_sockaddr :: "sockaddr option \<Rightarrow> bool" where
  "wf_sockaddr a = (case a of
     Some (AF_INET b) \<Rightarrow> length b = 4 | Some (AF_INET6 b) \<Rightarrow> length b = 16 | _ \<Rightarrow> True)"

definition wf_os :: "os_open \<Rightarrow> bool" where
  "wf_os os \<longleftrightarrow> (\<forall>n i. os_ifindex os n = Some i \<longrightarrow> 0 < i) \<and>
     (\<forall>n hw. os_hwaddr os n = Some hw \<longrightarrow> 6 \<le> length hw) \<and>
     (\<forall>l. os_ifaddrs os = Some l \<longrightarrow> (\<forall>ifc \<in> set l. wf_sockaddr (ifa_addr ifc)))"

definition raw_inv :: "raw_state \<Rightarrow> bool" where
  "raw_inv st \<longleftrightarrow> length (mac st) = 6 \<and> length (ip st) = 4 \<and> length (ip6 st) = 16 \<and>
     (ifindex st < 0 \<longrightarrow> mac st = zeros 6 \<and> ip st = zeros 4 \<and> ip6 st = zeros 16)"

text \<open>The states a program can reach by opening and closing; reads and writes change nothing.\<close>

inductive raw_reachable :: "raw_state \<Rightarrow> bool" where
  start: "raw_reachable raw_init"
| opened: "raw_reachable st \<Longrightarrow> wf_os os \<Longrightarrow> grnvs_open os ifname layer st = Return (fd, st')
    \<Longrightarrow> raw_reachable st'"
| closed: "raw_reachable st \<Longrightarrow> grnvs_close st r = (r', st') \<Longrightarrow> raw_reachable st'"

lemma ip6_candidatesD:
  "a \<in> set (ip6_candidates ifname layer l) \<Longrightarrow>
    \<exists>ifc \<in> set l. ifa_addr ifc = Some (AF_INET6 a) \<and> ifa_name ifc = ifname \<and> (layer = SOCK_DGRAM \<longrightarrow> is_global a)"
  unfolding ip6_candidates_def by (auto split: option.splits sockaddr.splits if_splits)

lemma ip_candidatesD:
  "a \<in> set (ip_candidates ifname l) \<Longrightarrow> \<exists>ifc \<in> set l. ifa_addr ifc = Some (AF_INET a) \<and> ifa_name ifc = ifname"
  unfolding ip_candidates_def by (auto split: option.splits sockaddr.splits if_splits)

lemma ip6_candidates_length:
  "\<forall>ifc \<in> set l. wf_sockaddr (ifa_addr ifc) \<Longrightarrow> a \<in> set (ip6_candidates ifname layer l) \<Longrightarrow> length a = 16"
  by (force simp: wf_sockaddr_def dest: ip6_candidatesD)

lemma ip_candidates_length:
  "\<forall>ifc \<in> set l. wf_sockaddr (ifa_addr ifc) \<Longrightarrow> a \<in> set (ip_candidates ifname l) \<Longrightarrow> length a = 4"
  by (force simp: wf_sockaddr_def dest: ip_candidatesD)

lemma grnvs_open_inv:
  assumes "raw_inv st" and "wf_os os" and "grnvs_open os ifname layer st = Return (fd, st')"
  shows "raw_inv st' \<and> 0 < ifindex st'"
proof -
  obtain i hw l where o: "os_ifindex os ifname = Some i" "os_hwaddr os ifname = Some hw"
    "os_ifaddrs os = Some l" and st': "ifindex st' = i" "mac st' = take 6 hw"
    "ip st' = last_or (ip st) (ip_candidates ifname l)"
    "ip6 st' = last_or (zeros 16) (ip6_candidates ifname layer l)"
    using grnvs_open_Return [OF assms(3)] by auto
  have wf: "0 < i" "6 \<le> length hw" "\<forall>ifc \<in> set l. wf_sockaddr (ifa_addr ifc)"
    using assms(2) o by (auto simp: wf_os_def)
  have "length (ip st') = 4"
    using last_or_in [of "ip st" "ip_candidates ifname l"] ip_candidates_length [OF wf(3)] st' assms(1)
    by (auto simp: raw_inv_def)
  moreover have "length (ip6 st') = 16"
    using last_or_in [of "zeros 16" "ip6_candidates ifname layer l"] ip6_candidates_length [OF wf(3)] st'
    by auto
  ultimately show ?thesis using wf st' by (simp add: raw_inv_def)
qed

lemma raw_reachable_inv: "raw_reachable st \<Longrightarrow> raw_inv st"
proof (induction rule: raw_reachable.induct)
  case start
  show ?case by (simp add: raw_inv_def raw_init_def)
next
  case (opened st os ifname layer fd st')
  then show ?case using grnvs_open_inv by blast
next
  case (closed st r r' st')
  then show ?case by (auto simp: grnvs_close_def raw_inv_def)
qed


section \<open>The time a read uses\<close>

definition normal_round :: "read_round \<Rightarrow> bool" where
  "normal_round r \<longleftrightarrow> normalised (before r) \<and> normalised (after r) \<and> nsecs (before r) \<le> nsecs (after r)"

definition elapsed :: "read_round list \<Rightarrow> int" where
  "elapsed rs = sum_list (map (\<lambda>r. nsecs (after r) - nsecs (before r)) rs)"

lemma elapsed_simps [simp]:
  "elapsed [] = 0"
  "elapsed (r # rs) = (nsecs (after r) - nsecs (before r)) + elapsed rs"
  "elapsed (xs @ ys) = elapsed xs + elapsed ys"
  by (simp_all add: elapsed_def)

lemma elapsed_nonneg: "\<forall>r \<in> set rs. normal_round r \<Longrightarrow> 0 \<le> elapsed rs"
  by (induction rs) (auto simp: normal_round_def)

text \<open>How a read with a timeout can end, in terms of the rounds it used.\<close>

definition read_ends :: "nat \<Rightarrow> int \<Rightarrow> read_round list \<Rightarrow> read_return \<Rightarrow> bool" where
  "read_ends maxlen budget used r \<longleftrightarrow> used \<noteq> [] \<and>
     (sel (last used) = Sel_timeout \<and> ret r = 0 \<and> data r = [] \<and> timeout_left r = Some 0 \<or>
      (\<exists>f. sel (last used) = Sel_ready \<and> rd (last used) = Rd_data f \<and>
         data r = take maxlen f \<and> ret r = int (length (data r)) \<and>
         timeout_left r = Some (word_of_int ((budget - elapsed used) div 1000000))))"

lemma read_ends_Cons:
  "read_ends maxlen (budget - (nsecs (after x) - nsecs (before x))) used r \<Longrightarrow>
    read_ends maxlen budget (x # used) r"
  by (auto simp: read_ends_def algebra_simps)

lemma read_loop_ends:
  assumes "read_loop maxlen (Some t) time len rs = Return r"
    and "len = None \<or> len = Some (- 1)" and "normalised time" and "\<forall>x \<in> set rs. normal_round x"
  shows "\<exists>used. rs = used @ rounds_left r \<and> read_ends maxlen (nsecs time) used r"
  using assms
proof (induction rs arbitrary: t time len)
  case (Cons x rs)
  define time' where "time' = timespecsub time (timespecsub (after x) (before x))"
  define t' where "t' = (word_of_int (tv_sec time' * 1000 + tv_nsec time' sdiv 1000000) :: u32)"
  have time': "normalised time'" "nsecs time' = nsecs time - (nsecs (after x) - nsecs (before x))"
    using Cons.prems by (auto simp: time'_def normal_round_def)
  have t': "t' = word_of_int (nsecs time' div 1000000)"
    using msecs_of_nsecs [OF time'(1)] by (simp add: t'_def)
  have rec: ?case if h: "read_loop maxlen (Some t') time' len' rs = Return r" "len' = None \<or> len' = Some (- 1)" for len'
  proof -
    obtain used where "rs = used @ rounds_left r" "read_ends maxlen (nsecs time') used r"
      using Cons.IH [OF h time'(1)] Cons.prems(4) by auto
    then show ?thesis
      using read_ends_Cons [of maxlen "nsecs time" x used r] time'(2) by (intro exI [of _ "x # used"]) auto
  qed
  have step: "(case sel x of
       Sel_eintr \<Rightarrow> (case len of None \<Rightarrow> Undefined
         | Some l \<Rightarrow> if l < 0 then read_loop maxlen (Some t') time' len rs
             else Return \<lparr>ret = l, data = [], timeout_left = Some t', rounds_left = rs\<rparr>)
     | Sel_error \<Rightarrow> Exit (- 1)
     | Sel_timeout \<Rightarrow> Return \<lparr>ret = 0, data = [], timeout_left = Some 0, rounds_left = rs\<rparr>
     | Sel_ready \<Rightarrow> (case rd x of
         Rd_eintr \<Rightarrow> read_loop maxlen (Some t') time' (Some (- 1)) rs
       | Rd_error \<Rightarrow> Exit (- 1)
       | Rd_data f \<Rightarrow> Return \<lparr>ret = int (length (take maxlen f)), data = take maxlen f,
           timeout_left = Some t', rounds_left = rs\<rparr>)) = Return r"
    using Cons.prems(1)
    by (simp only: read_loop.simps Let_def option.case time'_def [symmetric] t'_def [symmetric])
  show ?case
  proof (cases "sel x")
    case Sel_eintr
    with step Cons.prems(2) show ?thesis
      by (intro rec [of len]) (auto split: option.splits)
  next
    case Sel_timeout
    with step show ?thesis by (intro exI [of _ "[x]"]) (auto simp: read_ends_def)
  next
    case Sel_error
    with step show ?thesis by simp
  next
    case Sel_ready
    show ?thesis
    proof (cases "rd x")
      case (Rd_data f)
      with step Sel_ready show ?thesis
        using t' time'(2) by (intro exI [of _ "[x]"]) (auto simp: read_ends_def)
    next
      case Rd_eintr
      with step Sel_ready show ?thesis by (intro rec [of "Some (- 1)"]) auto
    next
      case Rd_error
      with step Sel_ready show ?thesis by simp
    qed
  qed
qed simp

lemma grnvs_read_ends:
  assumes "grnvs_read st maxlen (Some t) rounds = Return r" and "t \<noteq> 0"
    and "\<forall>x \<in> set rounds. normal_round x"
  shows "\<exists>used. rounds = used @ rounds_left r \<and> read_ends maxlen (uint t * 1000000) used r"
  using read_loop_ends [of maxlen t "timespecmset t" None rounds r] assms
  by (auto simp: grnvs_read_def split: if_splits)


text \<open>The length returned is that of the data, and at most \<open>maxlen\<close>.\<close>

lemma read_loop_length:
  "read_loop maxlen tmo time len rs = Return r \<Longrightarrow> len = None \<or> len = Some (- 1) \<Longrightarrow>
    ret r = int (length (data r)) \<and> length (data r) \<le> maxlen"
proof (induction maxlen tmo time len rs rule: read_loop.induct)
  case (2 maxlen tmo time len r' rs)
  then show ?case
    by (auto simp: Let_def split: select_result.splits read_result.splits option.splits)
qed simp

lemma grnvs_read_length:
  "grnvs_read st maxlen tmo rs = Return r \<Longrightarrow> ret r = int (length (data r)) \<and> length (data r) \<le> maxlen"
  by (auto simp: grnvs_read_def dest!: read_loop_length split: if_splits option.splits)

section \<open>Properties\<close>

text \<open>
  C26. What a successful \<open>grnvs_open\<close> has established: the descriptor is the packet socket, the
  interface index and hardware address are the ones of the named interface, the IPv6 address
  is the last one listed for it (only global ones count on layer 3; all zeros if there is
  none), the IPv4 address the last one listed, and the two write sockets are set exactly for
  layer 3.
\<close>

theorem grnvs_open_functional:
  assumes "grnvs_open os ifname layer st = Return (fd, st')"
  shows "fd = os_packet os \<and> 0 \<le> fd \<and> Some (ifindex st') = os_ifindex os ifname \<and>
    Some (mac st') = map_option (take 6) (os_hwaddr os ifname) \<and>
    (\<exists>l. os_ifaddrs os = Some l \<and>
      ip6 st' = last_or (zeros 16) (ip6_candidates ifname layer l) \<and>
      ip st' = last_or (ip st) (ip_candidates ifname l)) \<and>
    (layer = SOCK_DGRAM \<longrightarrow> is_global (ip6 st')) \<and>
    (if layer = SOCK_DGRAM then write_six st' = os_socket6 os \<and> write_four st' = os_socket4 os
     else layer = SOCK_RAW \<and> write_six st' = write_six st \<and> write_four st' = write_four st)"
proof -
  obtain i hw l where o: "layer \<in> {SOCK_DGRAM, SOCK_RAW}" "fd = os_packet os" "0 \<le> fd"
    "os_ifindex os ifname = Some i" "os_hwaddr os ifname = Some hw" "os_ifaddrs os = Some l"
    and st': "st' = \<lparr>ifindex = i,
      write_six = (if layer = SOCK_DGRAM then os_socket6 os else write_six st),
      write_four = (if layer = SOCK_DGRAM then os_socket4 os else write_four st),
      mac = take 6 hw, ip = last_or (ip st) (ip_candidates ifname l),
      ip6 = last_or (zeros 16) (ip6_candidates ifname layer l)\<rparr>"
    using grnvs_open_Return [OF assms] by blast
  have "is_global (ip6 st')" if "layer = SOCK_DGRAM"
    using last_or_in [of "zeros 16" "ip6_candidates ifname layer l"] that st'
    by (auto simp: is_global_def dest: ip6_candidatesD)
  with o st' show ?thesis by auto
qed

definition example_os :: os_open where
  "example_os = \<lparr>os_socket6 = 4, os_socket4 = 5, os_packet = 3, os_ifindex = (\<lambda>n. Some 2),
     os_hwaddr = (\<lambda>n. Some [2, 0, 0, 0, 0, 1]),
     os_ifaddrs = Some [\<lparr>ifa_name = ''eth0'', ifa_addr = Some (AF_INET [10, 0, 0, 1])\<rparr>,
       \<lparr>ifa_name = ''eth0'', ifa_addr = Some (AF_INET6 (0x20 # zeros 15))\<rparr>,
       \<lparr>ifa_name = ''eth0'', ifa_addr = Some (AF_INET6 (0xFE # 0x80 # zeros 14))\<rparr>],
     os_bind = True\<rparr>"

definition example_state :: "int \<Rightarrow> raw_state" where
  "example_state layer = \<lparr>ifindex = 2, write_six = (if layer = SOCK_DGRAM then 4 else - 1),
     write_four = (if layer = SOCK_DGRAM then 5 else - 1), mac = [2, 0, 0, 0, 0, 1], ip = [10, 0, 0, 1],
     ip6 = (if layer = SOCK_DGRAM then 0x20 # zeros 15 else 0xFE # 0x80 # zeros 14)\<rparr>"

lemma example_open:
  "layer \<in> {SOCK_DGRAM, SOCK_RAW} \<Longrightarrow>
    grnvs_open example_os ''eth0'' layer raw_init = Return (3, example_state layer)"
  by (auto simp: grnvs_open_def example_os_def example_state_def raw_init_def open_writers_def
      query_interface_def grnvs_get_addresses_def use_ifaddr_def SOCK_DGRAM_def SOCK_RAW_def is_global_def)

lemma wf_example_os: "wf_os example_os"
  by (auto simp: wf_os_def example_os_def wf_sockaddr_def)

theorem grnvs_open_functional_witness:
  "grnvs_open example_os ''eth0'' SOCK_DGRAM raw_init = Return (3, example_state SOCK_DGRAM) \<and>
    is_global (ip6 (example_state SOCK_DGRAM))"
  using example_open [of SOCK_DGRAM]
    grnvs_open_functional [of example_os "''eth0''" SOCK_DGRAM raw_init 3 "example_state SOCK_DGRAM"]
  by simp

text \<open>
  C27. Invariant of the static variables over every sequence of opens and closes: the addresses
  have their sizes, and a closed socket (\<open>ifindex\<close> negative) has cleared addresses and hands
  out NULL pointers.
\<close>

theorem raw_reachable_cleared:
  assumes "raw_reachable st"
  shows "length (mac st) = 6 \<and> length (ip st) = 4 \<and> length (ip6 st) = 16 \<and>
    (ifindex st < 0 \<longrightarrow> grnvs_get_hwaddr st = None \<and> grnvs_get_ip6addr st = None \<and>
      grnvs_get_ipaddr st = zeros 4 \<and> mac st = zeros 6 \<and> ip6 st = zeros 16)"
  using raw_reachable_inv [OF assms]
  by (simp add: raw_inv_def grnvs_get_hwaddr_def grnvs_get_ip6addr_def grnvs_get_ipaddr_def)

theorem raw_reachable_cleared_witness:
  "raw_reachable (example_state SOCK_RAW) \<and> length (mac (example_state SOCK_RAW)) = 6"
proof -
  have "raw_reachable (example_state SOCK_RAW)"
    using raw_reachable.opened [OF raw_reachable.start wf_example_os] example_open [of SOCK_RAW] by blast
  then show ?thesis using raw_reachable_cleared by blast
qed

lemma word_of_small: "0 \<le> i \<Longrightarrow> i \<le> uint (t :: u32) \<Longrightarrow> uint (word_of_int i :: u32) = i"
  using uint_lt2p [of t] by (simp add: uint_word_of_int take_bit_int_eq_self)

text \<open>
  C22. Time accounting of a read with a timeout of \<open>t\<close> milliseconds, for clocks that run
  forward: a read that returns has consumed some rounds (interrupted ones and the final one).
  Either the final wait timed out, with length 0 and a remaining timeout of 0, or it delivered
  the first \<open>maxlen\<close> bytes of a frame; then, if the rounds took at most \<open>t\<close> milliseconds, the
  remaining timeout is exactly the rest of the budget rounded down to milliseconds.
\<close>

theorem grnvs_read_accounting:
  assumes "grnvs_read st maxlen (Some t) rounds = Return r" and "t \<noteq> 0"
    and "\<forall>x \<in> set rounds. normal_round x"
  shows "\<exists>used. rounds = used @ rounds_left r \<and> used \<noteq> [] \<and> length (data r) \<le> maxlen \<and>
    (sel (last used) = Sel_timeout \<and> ret r = 0 \<and> timeout_left r = Some 0 \<or>
     (\<exists>f t'. rd (last used) = Rd_data f \<and> data r = take maxlen f \<and> ret r = int (length (data r)) \<and>
       timeout_left r = Some t' \<and>
       (elapsed used \<le> uint t * 1000000 \<longrightarrow>
         uint t' = (uint t * 1000000 - elapsed used) div 1000000 \<and> t' \<le> t)))"
proof -
  obtain used where used: "rounds = used @ rounds_left r" "read_ends maxlen (uint t * 1000000) used r"
    using grnvs_read_ends [OF assms] by blast
  let ?left = "(uint t * 1000000 - elapsed used) div 1000000"
  have "0 \<le> elapsed used" using assms(3) used(1) by (intro elapsed_nonneg) auto
  then have "?left \<le> uint t" by linarith
  moreover have "0 \<le> ?left" if "elapsed used \<le> uint t * 1000000" using that by simp
  ultimately have "uint (word_of_int ?left :: u32) = ?left \<and> word_of_int ?left \<le> t"
    if "elapsed used \<le> uint t * 1000000"
    using that word_of_small [of ?left t] by (auto simp: word_le_def)
  with used show ?thesis by (intro exI [of _ used]) (auto simp: read_ends_def)
qed

definition example_round :: "int \<Rightarrow> select_result \<Rightarrow> read_result \<Rightarrow> read_round" where
  "example_round ns s d = \<lparr>before = Timespec 7 0, after = Timespec 7 ns, sel = s, rd = d\<rparr>"

theorem grnvs_read_accounting_witness:
  "grnvs_read (example_state SOCK_RAW) 1514 (Some 10)
      [example_round 3000001 Sel_ready Rd_eintr, example_round 2 Sel_ready (Rd_data [1, 2])] =
    Return \<lparr>ret = 2, data = [1, 2], timeout_left = Some 6, rounds_left = []\<rparr> \<and> (6 :: u32) \<le> 10"
proof -
  let ?rs = "[example_round 3000001 Sel_ready Rd_eintr, example_round 2 Sel_ready (Rd_data [1, 2])]"
  have r: "grnvs_read (example_state SOCK_RAW) 1514 (Some 10) ?rs =
      Return \<lparr>ret = 2, data = [1, 2], timeout_left = Some 6, rounds_left = []\<rparr>"
    by (simp add: grnvs_read_def example_state_def example_round_def timespecmset_def timespecsub_def
        signed_divide_int_def SOCK_DGRAM_def SOCK_RAW_def)
  moreover have "\<forall>x \<in> set ?rs. normal_round x"
    by (simp add: normal_round_def example_round_def normalised_def nsecs_def)
  ultimately show ?thesis
    using grnvs_read_accounting [OF r] by (auto simp: example_round_def nsecs_def)
qed

text \<open>
  Overrun: if the frame arrives when the rounds took longer than the whole budget (the
  process was late to wake up), the negative rest is stored in the unsigned \<open>*timeout\<close>, so
  the caller is left with a timeout of at least \<open>2 ^ 31\<close> milliseconds instead of none.
\<close>

theorem grnvs_read_overrun_wraps:
  assumes "grnvs_read st maxlen (Some t) rounds = Return r" and "t \<noteq> 0"
    and "\<forall>x \<in> set rounds. normal_round x"
    and "rounds = used @ rounds_left r" and "sel (last used) = Sel_ready"
    and "uint t * 1000000 < elapsed used" and "elapsed used \<le> uint t * 1000000 + 2147483648000000"
  shows "\<exists>t'. timeout_left r = Some t' \<and> 2147483648 \<le> uint t'"
proof -
  obtain used' where used': "rounds = used' @ rounds_left r" "read_ends maxlen (uint t * 1000000) used' r"
    using grnvs_read_ends [OF assms(1-3)] by blast
  then have [simp]: "used' = used" using assms(4) by simp
  let ?left = "(uint t * 1000000 - elapsed used) div 1000000"
  have left: "- 2147483648 \<le> ?left" "?left \<le> - 1" using assms(6,7) by linarith+
  have "uint (word_of_int ?left :: u32) = ?left mod 4294967296"
    by (simp add: uint_word_of_int take_bit_eq_mod)
  also have "\<dots> = ?left + 4294967296"
    using left by (intro mod_pos_pos_trivial [of "?left + 4294967296" 4294967296, simplified]) simp_all
  finally have "2147483648 \<le> uint (word_of_int ?left :: u32)" using left by simp
  with used'(2) assms(5) show ?thesis by (auto simp: read_ends_def)
qed

theorem grnvs_read_overrun_wraps_witness:
  "grnvs_read (example_state SOCK_RAW) 1514 (Some 1) [example_round 1000001 Sel_ready (Rd_data [1])] =
    Return \<lparr>ret = 1, data = [1], timeout_left = Some 4294967295, rounds_left = []\<rparr> \<and>
    2147483648 \<le> uint (4294967295 :: u32)"
proof -
  let ?rs = "[example_round 1000001 Sel_ready (Rd_data [1])]"
  have r: "grnvs_read (example_state SOCK_RAW) 1514 (Some 1) ?rs =
      Return \<lparr>ret = 1, data = [1], timeout_left = Some 4294967295, rounds_left = []\<rparr>"
    by (simp add: grnvs_read_def example_state_def example_round_def timespecmset_def timespecsub_def
        signed_divide_int_def SOCK_DGRAM_def SOCK_RAW_def)
  moreover have "\<forall>x \<in> set ?rs. normal_round x"
    by (simp add: normal_round_def example_round_def normalised_def nsecs_def)
  ultimately show ?thesis
    using grnvs_read_overrun_wraps [OF r, of ?rs] by (auto simp: example_round_def nsecs_def)
qed

text \<open>
  Error paths of \<open>grnvs_read\<close>: on a closed socket the process exits, a timeout of 0 returns
  0 at once, and an interrupted first \<open>pselect\<close> makes the loop test read the variable \<open>len\<close>
  before anything was stored in it, so the call has no defined result; the intended retry only
  happens after a first interrupted \<open>read\<close>.
\<close>

theorem grnvs_read_errors:
  "(ifindex st < 0 \<longrightarrow> grnvs_read st maxlen tmo rounds = Exit (- 1)) \<and>
   (0 \<le> ifindex st \<longrightarrow> grnvs_read st maxlen (Some 0) rounds =
      Return \<lparr>ret = 0, data = [], timeout_left = Some 0, rounds_left = rounds\<rparr>) \<and>
   (0 \<le> ifindex st \<longrightarrow> tmo \<noteq> Some 0 \<longrightarrow> sel x = Sel_eintr \<longrightarrow>
      grnvs_read st maxlen tmo (x # rounds) = Undefined) \<and>
   (0 \<le> ifindex st \<longrightarrow> sel x = Sel_ready \<longrightarrow> rd x = Rd_eintr \<longrightarrow> sel y = Sel_eintr \<longrightarrow>
      grnvs_read st maxlen None (x # y # rounds) = read_loop maxlen None (Timespec 0 0) (Some (- 1)) rounds)"
  by (auto simp: grnvs_read_def Let_def split: option.splits)

theorem grnvs_read_errors_witness:
  "grnvs_read raw_init 1514 (Some 10) [] = Exit (- 1) \<and>
   grnvs_read (example_state SOCK_RAW) 1514 (Some 10) [example_round 5 Sel_eintr Rd_error] = Undefined"
  using grnvs_read_errors [of raw_init 1514 "Some 10" "[]" "example_round 5 Sel_eintr Rd_error"]
    grnvs_read_errors [of "example_state SOCK_RAW" 1514 "Some 10" "[]" "example_round 5 Sel_eintr Rd_error"]
  by (simp add: raw_init_def example_state_def example_round_def)

lemma write_loop_answers:
  "dropWhile (\<lambda>w. w = Wr_eintr) answers = Wr_sent n # ws \<Longrightarrow> write_loop tx answers = Return (n, [tx])"
  by (induction answers) (auto split: if_splits)

text \<open>
  C25. Dispatch of \<open>grnvs_write\<close> on an open socket: interrupted writes are repeated until the
  first other answer, and the packet goes out once. On layer 2 it goes to the caller's
  descriptor; on layer 3 a packet whose first nibble is 6 goes to the IPv6 socket, addressed to
  its bytes 24 to 39, one whose first nibble is 4 to the IPv4 socket, and any other is refused
  with \<open>-EINVAL\<close> and not sent.
\<close>

theorem grnvs_write_dispatch:
  assumes "0 \<le> ifindex st" and "40 \<le> length buf" and "len \<le> length buf"
    and "dropWhile (\<lambda>w. w = Wr_eintr) answers = Wr_sent n # ws"
  shows "grnvs_write st fd buf len answers =
    (if write_six st \<le> 0 then
       Return (n, [\<lparr>tx_fd = fd, tx_dst = None, tx_bytes = take len buf\<rparr>])
     else if unat (buf ! 0) div 16 = 6 then
       Return (n, [\<lparr>tx_fd = write_six st, tx_dst = Some (take 16 (drop 24 buf)), tx_bytes = take len buf\<rparr>])
     else if unat (buf ! 0) div 16 = 4 then
       Return (n, [\<lparr>tx_fd = write_four st, tx_dst = None, tx_bytes = take len buf\<rparr>])
     else Return (- 22, []))"
proof -
  have "version_nibble buf = 0x60 \<longleftrightarrow> unat (buf ! 0) div 16 = 6"
    and "version_nibble buf = 0x40 \<longleftrightarrow> unat (buf ! 0) div 16 = 4"
    by (auto simp: version_nibble_def word_unat_eq_iff unat_high_nibble)
  with assms show ?thesis
    by (auto simp: grnvs_write_def route_def write_loop_answers)
qed

theorem grnvs_write_dispatch_witness:
  "grnvs_write (example_state SOCK_DGRAM) 3 (0x60 # zeros 39) 40 [Wr_eintr, Wr_sent 40] =
    Return (40, [\<lparr>tx_fd = 4, tx_dst = Some (zeros 16), tx_bytes = 0x60 # zeros 39\<rparr>])"
  using grnvs_write_dispatch [of "example_state SOCK_DGRAM" "0x60 # zeros 39" 40 "[Wr_eintr, Wr_sent 40]" 40 "[]" 3]
  by (simp add: example_state_def drop_Cons' take_Cons')

text \<open>
  C31. Sockets of an earlier session survive \<open>grnvs_close\<close>: after a layer 3 session was closed
  and the library opened again on layer 2, \<open>grnvs_write\<close> still routes by IP version, so a
  frame that does not start with nibble 4 or 6 is refused although layer 2 was asked for.
\<close>

theorem grnvs_close_keeps_writers:
  assumes "grnvs_open os1 if1 SOCK_DGRAM st = Return (fd1, st1)" and "0 < os_socket6 os1"
    and "grnvs_close st1 r = (r', st2)"
    and "grnvs_open os2 if2 SOCK_RAW st2 = Return (fd2, st3)" and "wf_os os2"
    and "40 \<le> length frame" and "unat (frame ! 0) div 16 \<notin> {4, 6}"
  shows "write_six st3 = os_socket6 os1 \<and> grnvs_write st3 fd2 frame len answers = Return (- 22, [])"
proof -
  have "write_six st1 = os_socket6 os1" "write_six st2 = write_six st1"
    using grnvs_open_Return [OF assms(1)] assms(3) by (auto simp: grnvs_close_def)
  then have w: "write_six st3 = os_socket6 os1"
    using grnvs_open_Return [OF assms(4)] by (auto simp: SOCK_DGRAM_def SOCK_RAW_def)
  have "0 < ifindex st3"
    using grnvs_open_Return [OF assms(4)] assms(5) by (auto simp: wf_os_def)
  moreover have "version_nibble frame \<noteq> 0x60" "version_nibble frame \<noteq> 0x40"
    using assms(7) by (auto simp: version_nibble_def word_unat_eq_iff unat_high_nibble)
  ultimately show ?thesis
    using w assms(2,6) by (simp add: grnvs_write_def route_def)
qed

theorem grnvs_close_keeps_writers_witness:
  "\<exists>st3. grnvs_open example_os ''eth0'' SOCK_RAW (snd (grnvs_close (example_state SOCK_DGRAM) 0)) = Return (3, st3) \<and>
    grnvs_write st3 3 (replicate 60 0xFF) 60 [Wr_sent 60] = Return (- 22, [])"
proof -
  have o1: "grnvs_open example_os ''eth0'' SOCK_DGRAM raw_init = Return (3, example_state SOCK_DGRAM)"
    using example_open [of SOCK_DGRAM] by simp
  obtain st3 where o2: "grnvs_open example_os ''eth0'' SOCK_RAW (snd (grnvs_close (example_state SOCK_DGRAM) 0)) =
      Return (3, st3)"
    by (simp add: grnvs_open_def example_os_def open_writers_def query_interface_def
        grnvs_get_addresses_def SOCK_DGRAM_def SOCK_RAW_def)
  have c: "grnvs_close (example_state SOCK_DGRAM) 0 = (0, snd (grnvs_close (example_state SOCK_DGRAM) 0))"
    by (simp add: grnvs_close_def)
  show ?thesis
    using grnvs_close_keeps_writers [OF o1 _ c o2 wf_example_os, of "replicate 60 0xFF" 60 "[Wr_sent 60]"] o2
    by (simp add: example_os_def)
qed

end
