(* ===== verification/Crc.thy ===== *)
theory Crc
  imports Prelude
begin

text \<open>
  \<open>get_crc32\<close> of \<open>assignment2/libraw/src/crc.c\<close>: the checksum is computed by the kernel behind
  an AF_ALG socket. The answers of the system are the record \<open>os_alg\<close>; \<open>alg_digest\<close> is what
  \<open>recv\<close> returns for an algorithm, a key and the data that was sent.
\<close>

record os_alg =
  alg_socket :: int
  alg_bind :: "string \<Rightarrow> string \<Rightarrow> bool"
  alg_setkey :: "u8 list \<Rightarrow> bool"
  alg_accept :: int
  alg_send :: bool
  alg_digest :: "string \<Rightarrow> u8 list \<Rightarrow> u8 list \<Rightarrow> u8 list option"

text \<open>\<open>uint32_t key = ~0\<close> and a \<open>uint32_t\<close> received into memory, lowest byte first.\<close>

definition key_bytes :: "u8 list" where
  "key_bytes = replicate 4 (NOT 0)"

definition word_of_bytes :: "u8 list \<Rightarrow> u32" where
  "word_of_bytes bs = of_nat (unat (bs ! 0) + 256 * unat (bs ! 1) + 65536 * unat (bs ! 2) +
     16777216 * unat (bs ! 3))"

text \<open>The accepted socket, and the descriptors closed.\<close>

definition get_crc_sock :: "os_alg \<Rightarrow> (int \<times> int list) outcome" where
  "get_crc_sock os =
     (let sk = alg_socket os in
      if sk < 0 then Exit (- 1)
      else if \<not> alg_bind os ''hash'' ''crc32'' then Exit (- 1)
      else if \<not> alg_setkey os key_bytes then Exit (- 1)
      else let ret = alg_accept os in
        if ret < 0 then Exit (- 1) else Return (ret, [sk]))"

text \<open>A digest shorter than four bytes would leave the result partly uninitialised.\<close>

definition get_crc32 :: "os_alg \<Rightarrow> u8 list \<Rightarrow> nat \<Rightarrow> (u32 \<times> int list) outcome" where
  "get_crc32 os frame len =
     bind_outcome (get_crc_sock os) (\<lambda>(sock, closed).
     if length frame < len then Undefined
     else if \<not> alg_send os then Exit (- 1)
     else case alg_digest os ''crc32'' key_bytes (take len frame) of
         None \<Rightarrow> Exit (- 1)
       | Some d \<Rightarrow> if length d < 4 then Undefined else Return (word_of_bytes d, closed @ [sock]))"

section \<open>Properties\<close>

text \<open>
  \<open>get_crc32\<close> returns exactly when every call succeeds; the result is the four bytes the
  kernel delivers for the first \<open>len\<close> bytes under the key of all ones, least significant first,
  and both sockets have been closed. Any failing call ends the process with status \<open>- 1\<close>.
\<close>

theorem get_crc32_result:
  assumes "len \<le> length frame" and "\<And>a k d r. alg_digest os a k d = Some r \<Longrightarrow> length r = 4"
  shows "get_crc32 os frame len =
    (if 0 \<le> alg_socket os \<and> alg_bind os ''hash'' ''crc32'' \<and> alg_setkey os [255, 255, 255, 255] \<and>
        0 \<le> alg_accept os \<and> alg_send os \<and> alg_digest os ''crc32'' [255, 255, 255, 255] (take len frame) \<noteq> None
     then Return (word_of_bytes (the (alg_digest os ''crc32'' [255, 255, 255, 255] (take len frame))),
        [alg_socket os, alg_accept os])
     else Exit (- 1))"
proof -
  have "replicate 4 x = [x, x, x, x]" for x :: u8 by (simp add: eval_nat_numeral)
  then have key: "key_bytes = [255, 255, 255, 255]" by (simp add: key_bytes_def)
  show ?thesis
  proof (cases "alg_digest os ''crc32'' [255, 255, 255, 255] (take len frame)")
    case None
    then show ?thesis using assms(1) by (simp add: get_crc32_def get_crc_sock_def key Let_def)
  next
    case (Some r)
    then show ?thesis
      using assms(1) assms(2) [OF Some] by (simp add: get_crc32_def get_crc_sock_def key Let_def)
  qed
qed

definition example_alg :: os_alg where
  "example_alg = \<lparr>alg_socket = 3, alg_bind = (\<lambda>t n. True), alg_setkey = (\<lambda>k. True), alg_accept = 4, alg_send = True,
     alg_digest = (\<lambda>a k d. Some [1, 2, 0, 0])\<rparr>"

theorem get_crc32_result_witness: "get_crc32 example_alg [7, 8] 2 = Return (513, [3, 4])"
  using get_crc32_result [of 2 "[7, 8]" example_alg]
  by (simp add: example_alg_def word_of_bytes_def)

end
