(* ===== verification/Traffic.thy ===== *)
theory Traffic
  imports Prelude "HOL-Library.Monad_Syntax"
begin

text \<open>
  What assignment 2 needs of its table of counters, as an interface: an operation that
  accounts a frame of a type, one that takes out the entry of the smallest type, and an
  emptiness test, on a state that represents a list of entries (type, frames, bytes). From
  the laws of the interface alone follows what the program reports: \<open>traffic_report\<close>. The
  linked list of \<open>InfoList\<close> is the implementation.
\<close>

type_synonym entry = "u16 \<times> u32 \<times> u32"

section \<open>Entries\<close>

fun bump :: "u16 \<Rightarrow> u32 \<Rightarrow> entry list \<Rightarrow> entry list" where
  "bump t n [] = [(t, 1, n)]"
| "bump t n ((k, f, b) # xs) = (if k = t then (k, f + 1, b + n) # xs else (k, f, b) # bump t n xs)"

fun position :: "u16 \<Rightarrow> entry list \<Rightarrow> nat option" where
  "position t [] = None"
| "position t (x # xs) = (if fst x = t then Some 0 else map_option Suc (position t xs))"

fun remove_key :: "u16 \<Rightarrow> entry list \<Rightarrow> entry list" where
  "remove_key t [] = []"
| "remove_key t (x # xs) = (if fst x = t then xs else x # remove_key t xs)"

fun min_from :: "entry \<Rightarrow> entry list \<Rightarrow> entry" where
  "min_from cur [] = cur"
| "min_from cur (x # xs) = min_from (if fst x < fst cur then x else cur) xs"

abbreviation keys :: "entry list \<Rightarrow> u16 set" where
  "keys xs \<equiv> fst ` set xs"

lemma keys_bump [simp]: "keys (bump t n xs) = insert t (keys xs)"
  by (induction t n xs rule: bump.induct) auto

lemma distinct_bump: "distinct (map fst xs) \<Longrightarrow> distinct (map fst (bump t n xs))"
proof (induction t n xs rule: bump.induct)
  case (2 t n k f b xs)
  have "k \<in> set (map fst (bump t n xs)) \<longleftrightarrow> k = t \<or> k \<in> set (map fst xs)"
    using keys_bump [of t n xs] by auto
  with 2 show ?case by auto
qed simp

lemma length_bump: "length (bump t n xs) = (if t \<in> keys xs then length xs else Suc (length xs))"
  by (induction t n xs rule: bump.induct) auto

lemma position_in_range: "position t xs = Some i \<Longrightarrow> i < length xs \<and> fst (xs ! i) = t"
  by (induction xs arbitrary: i) (auto split: if_splits)

lemma position_None: "position t xs = None \<longleftrightarrow> t \<notin> keys xs"
  by (induction xs) auto

lemma remove_key_position:
  "remove_key t xs = (case position t xs of None \<Rightarrow> xs | Some i \<Rightarrow> take i xs @ drop (Suc i) xs)"
  by (induction xs) (auto split: option.splits)

lemma bump_position:
  "bump t n xs = (case position t xs of None \<Rightarrow> xs @ [(t, 1, n)]
     | Some i \<Rightarrow> xs[i := (t, fst (snd (xs ! i)) + 1, snd (snd (xs ! i)) + n)])"
  by (induction t n xs rule: bump.induct) (auto split: option.splits)

lemma set_remove_key:
  "distinct (map fst xs) \<Longrightarrow> set (remove_key t xs) = {x \<in> set xs. fst x \<noteq> t}"
  by (induction xs) (auto simp: image_iff)

lemma distinct_remove_key: "distinct (map fst xs) \<Longrightarrow> distinct (map fst (remove_key t xs))"
  by (induction xs) (auto simp: set_remove_key)

lemma length_remove_key: "t \<in> keys xs \<Longrightarrow> Suc (length (remove_key t xs)) = length xs"
  by (induction xs) auto

lemma min_from_le: "fst (min_from cur xs) \<le> fst cur \<and> (\<forall>x \<in> set xs. fst (min_from cur xs) \<le> fst x)"
proof (induction xs arbitrary: cur)
  case (Cons x xs)
  show ?case using Cons.IH [of "if fst x < fst cur then x else cur"] by auto
qed simp

lemma min_from_in: "min_from cur xs \<in> insert cur (set xs)"
proof (induction xs arbitrary: cur)
  case (Cons x xs)
  show ?case using Cons.IH [of "if fst x < fst cur then x else cur"] by auto
qed simp

abbreviation min_entry :: "entry list \<Rightarrow> entry" where
  "min_entry xs \<equiv> min_from (hd xs) xs"

lemma min_entry:
  assumes "xs \<noteq> []"
  shows "min_entry xs \<in> set xs" and "x \<in> set xs \<Longrightarrow> fst (min_entry xs) \<le> fst x"
  using min_from_in [of "hd xs" xs] min_from_le [of "hd xs" xs] assms by auto

section \<open>What was accounted\<close>

definition frames_of :: "u16 \<Rightarrow> (u16 \<times> u32) list \<Rightarrow> u32" where
  "frames_of t evs = of_nat (length (filter (\<lambda>e. fst e = t) evs))"

definition bytes_of :: "u16 \<Rightarrow> (u16 \<times> u32) list \<Rightarrow> u32" where
  "bytes_of t evs = sum_list (map snd (filter (\<lambda>e. fst e = t) evs))"

definition bump_all :: "(u16 \<times> u32) list \<Rightarrow> entry list \<Rightarrow> entry list" where
  "bump_all evs xs = fold (\<lambda>(t, n). bump t n) evs xs"

lemma bump_all_simps [simp]:
  "bump_all [] xs = xs"
  "bump_all ((t, n) # evs) xs = bump_all evs (bump t n xs)"
  "bump_all (evs @ [(t, n)]) xs = bump t n (bump_all evs xs)"
  by (simp_all add: bump_all_def)

lemma keys_bump_all [simp]: "keys (bump_all evs xs) = fst ` set evs \<union> keys xs"
proof (induction evs arbitrary: xs)
  case (Cons e evs)
  obtain t n where "e = (t, n)" by (cases e)
  with Cons.IH [of "bump t n xs"] show ?case by simp
qed simp

lemma distinct_bump_all: "distinct (map fst xs) \<Longrightarrow> distinct (map fst (bump_all evs xs))"
  by (induction evs arbitrary: xs) (auto simp: distinct_bump)

lemma bump_in:
  "(k, f, b) \<in> set (bump t n xs) \<Longrightarrow> distinct (map fst xs) \<Longrightarrow>
    (k \<noteq> t \<and> (k, f, b) \<in> set xs) \<or>
    (k = t \<and> (t \<notin> keys xs \<and> f = 1 \<and> b = n \<or> (\<exists>f' b'. (t, f', b') \<in> set xs \<and> f = f' + 1 \<and> b = b' + n)))"
proof (induction t n xs rule: bump.induct)
  case (2 t n k' f' b' xs)
  show ?case
  proof (cases "k' = t")
    case True
    have "k \<noteq> t" if "(k, f, b) \<in> set xs"
      using that 2(3) True by force
    then show ?thesis using 2(2) True by auto
  next
    case False
    show ?thesis
    proof (cases "(k, f, b) = (k', f', b')")
      case True
      with False show ?thesis by simp
    next
      case in_rest: False
      with 2 False show ?thesis by auto
    qed
  qed
qed simp

text \<open>Every entry of the table counts the frames and bytes of its type, modulo \<open>2 ^ 32\<close>.\<close>

lemma bump_all_counts:
  "(k, f, b) \<in> set (bump_all evs []) \<Longrightarrow> f = frames_of k evs \<and> b = bytes_of k evs"
proof (induction evs arbitrary: k f b rule: rev_induct)
  case (snoc e evs)
  obtain t n where e: "e = (t, n)" by (cases e)
  have none: "frames_of t evs = 0 \<and> bytes_of t evs = 0" if "t \<notin> keys (bump_all evs [])"
  proof -
    have "filter (\<lambda>e. fst e = t) evs = []"
      using that by (auto simp: filter_empty_conv)
    then show ?thesis by (simp add: frames_of_def bytes_of_def)
  qed
  have "(k \<noteq> t \<and> (k, f, b) \<in> set (bump_all evs [])) \<or>
      (k = t \<and> (t \<notin> keys (bump_all evs []) \<and> f = 1 \<and> b = n \<or>
        (\<exists>f' b'. (t, f', b') \<in> set (bump_all evs []) \<and> f = f' + 1 \<and> b = b' + n)))"
    using snoc.prems e distinct_bump_all [of "[]" evs] by (intro bump_in) auto
  then show ?case
    using snoc.IH none e by (auto simp: frames_of_def bytes_of_def)
qed simp

section \<open>The interface\<close>

fun account_all :: "(u16 \<Rightarrow> u32 \<Rightarrow> 's \<Rightarrow> 's option) \<Rightarrow> (u16 \<times> u32) list \<Rightarrow> 's \<Rightarrow> 's option" where
  "account_all acc [] s = Some s"
| "account_all acc ((t, n) # evs) s = do { s \<leftarrow> acc t n s; account_all acc evs s }"

text \<open>Take entries out until the table is empty.\<close>

partial_function (option) drain ::
  "('s \<Rightarrow> bool) \<Rightarrow> ('s \<Rightarrow> (entry \<times> 's) option) \<Rightarrow> 's \<Rightarrow> entry list \<Rightarrow> (entry list \<times> 's) option" where
  "drain stop pop s out =
     (if stop s then Some (out, s)
      else do { r \<leftarrow> pop s; drain stop pop (snd r) (out @ [fst r]) })"

locale traffic_table =
  fixes rep :: "'s \<Rightarrow> entry list \<Rightarrow> bool"
    and room :: "'s \<Rightarrow> nat"
    and account :: "u16 \<Rightarrow> u32 \<Rightarrow> 's \<Rightarrow> 's option"
    and pop_min :: "'s \<Rightarrow> (entry \<times> 's) option"
    and is_empty :: "'s \<Rightarrow> bool"
  assumes account_law: "rep s xs \<Longrightarrow> t \<in> keys xs \<or> 0 < room s \<Longrightarrow>
      \<exists>s'. account t n s = Some s' \<and> rep s' (bump t n xs) \<and>
        room s' + length (bump t n xs) = room s + length xs"
    and account_full: "rep s xs \<Longrightarrow> t \<notin> keys xs \<Longrightarrow> room s = 0 \<Longrightarrow> account t n s = None"
    and pop_min_law: "rep s xs \<Longrightarrow> xs \<noteq> [] \<Longrightarrow>
      \<exists>s'. pop_min s = Some (min_entry xs, s') \<and> rep s' (remove_key (fst (min_entry xs)) xs)"
    and is_empty_law: "rep s xs \<Longrightarrow> is_empty s \<longleftrightarrow> xs = []"
begin

lemma account_all_rep:
  assumes "rep s xs" and "distinct (map fst xs)" and "card (fst ` set evs \<union> keys xs) \<le> room s + length xs"
  shows "\<exists>s'. account_all account evs s = Some s' \<and> rep s' (bump_all evs xs)"
  using assms
proof (induction evs arbitrary: s xs)
  case (Cons e evs)
  obtain t n where e: "e = (t, n)" by (cases e)
  have "0 < room s" if "t \<notin> keys xs"
  proof -
    have "length xs = card (keys xs)"
      using Cons.prems(2) distinct_card [of "map fst xs"] by simp
    also have "\<dots> < card (fst ` set (e # evs) \<union> keys xs)"
      using that e by (intro psubset_card_mono) auto
    finally show ?thesis using Cons.prems(3) by simp
  qed
  then obtain s' where s': "account t n s = Some s'" "rep s' (bump t n xs)"
    "room s' + length (bump t n xs) = room s + length xs"
    using account_law [OF Cons.prems(1), of t n] by blast
  have "fst ` set evs \<union> keys (bump t n xs) = fst ` set (e # evs) \<union> keys xs"
    using e by auto
  then obtain s'' where "account_all account evs s' = Some s''" "rep s'' (bump_all evs (bump t n xs))"
    using Cons.IH [OF s'(2) distinct_bump [OF Cons.prems(2)]] Cons.prems(3) s'(3) by auto
  then show ?case using s'(1) e by simp
qed simp

text \<open>With one type more than there is room for, some call of \<open>account\<close> fails.\<close>

lemma account_all_full:
  assumes "rep s xs" and "distinct (map fst xs)" and "room s + length xs < card (fst ` set evs \<union> keys xs)"
  shows "account_all account evs s = None"
  using assms
proof (induction evs arbitrary: s xs)
  case Nil
  then show ?case using distinct_card [of "map fst xs"] by simp
next
  case (Cons e evs)
  obtain t n where e: "e = (t, n)" by (cases e)
  have eq: "fst ` set evs \<union> keys (bump t n xs) = fst ` set (e # evs) \<union> keys xs"
    using e by auto
  show ?case
  proof (cases "t \<in> keys xs \<or> 0 < room s")
    case True
    then obtain s' where s': "account t n s = Some s'" "rep s' (bump t n xs)"
      "room s' + length (bump t n xs) = room s + length xs"
      using account_law [OF Cons.prems(1), of t n] by blast
    have "account_all account evs s' = None"
      using Cons.IH [OF s'(2) distinct_bump [OF Cons.prems(2)]] Cons.prems(3) s'(3) eq by simp
    then show ?thesis using s'(1) e by simp
  next
    case False
    then show ?thesis using account_full [OF Cons.prems(1), of t n] e by simp
  qed
qed

lemma drain_sorted:
  assumes "rep s xs" and "distinct (map fst xs)"
  shows "\<exists>ys s'. drain is_empty pop_min s out = Some (out @ ys, s') \<and> rep s' [] \<and>
    set ys = set xs \<and> sorted (map fst ys) \<and> distinct (map fst ys)"
  using assms
proof (induction "length xs" arbitrary: s xs out)
  case 0
  then show ?case using is_empty_law [of s xs] by (auto simp: drain.simps)
next
  case (Suc k)
  then have xs: "xs \<noteq> []" by auto
  let ?e = "min_entry xs"
  obtain s' where s': "pop_min s = Some (?e, s')" "rep s' (remove_key (fst ?e) xs)"
    using pop_min_law [OF Suc.prems(1) xs] by blast
  have in_xs: "?e \<in> set xs" by (rule min_entry(1) [OF xs])
  have rest: "set (remove_key (fst ?e) xs) = {x \<in> set xs. fst x \<noteq> fst ?e}"
    by (rule set_remove_key [OF Suc.prems(2)])
  obtain ys s'' where ys: "drain is_empty pop_min s' (out @ [?e]) = Some ((out @ [?e]) @ ys, s'')"
    "rep s'' []" "set ys = set (remove_key (fst ?e) xs)" "sorted (map fst ys)" "distinct (map fst ys)"
    using Suc.hyps(1) [of "remove_key (fst ?e) xs" s' "out @ [?e]"] s'(2) in_xs Suc.hyps(2)
      length_remove_key [of "fst ?e" xs] distinct_remove_key [OF Suc.prems(2)] by force
  have "drain is_empty pop_min s out = Some (out @ ?e # ys, s'')"
    using is_empty_law [OF Suc.prems(1)] xs s'(1) ys(1) by (subst drain.simps) simp
  moreover have "set (?e # ys) = set xs"
  proof -
    have "x = ?e" if "x \<in> set xs" "fst x = fst ?e" for x
      using that in_xs Suc.prems(2) by (simp add: distinct_map inj_on_def)
    then have "insert ?e {x \<in> set xs. fst x \<noteq> fst ?e} = set xs" using in_xs by blast
    then show ?thesis using ys(3) rest by simp
  qed
  moreover have "sorted (map fst (?e # ys))"
    using ys(3,4) rest min_entry(2) [OF xs] by auto
  moreover have "distinct (map fst (?e # ys))"
  proof -
    have "x \<in> set ys \<Longrightarrow> fst x \<noteq> fst ?e" for x using ys(3) rest by simp
    then have "fst ?e \<notin> fst ` set ys" by fastforce
    then show ?thesis using ys(5) by simp
  qed
  ultimately show ?case using ys(2) by blast
qed

lemma traffic_report:
  assumes "rep s []" and "card (fst ` set evs) \<le> room s"
  shows "\<exists>s1 s2 ys. account_all account evs s = Some s1 \<and> drain is_empty pop_min s1 [] = Some (ys, s2) \<and>
    rep s2 [] \<and> map fst ys = sorted_list_of_set (fst ` set evs) \<and>
    (\<forall>(t, f, b) \<in> set ys. f = frames_of t evs \<and> b = bytes_of t evs)"
proof -
  obtain s1 where s1: "account_all account evs s = Some s1" "rep s1 (bump_all evs [])"
    using account_all_rep [OF assms(1), of evs] assms(2) by auto
  obtain ys s2 where ys: "drain is_empty pop_min s1 [] = Some (ys, s2)" "rep s2 []"
    "set ys = set (bump_all evs [])" "sorted (map fst ys)" "distinct (map fst ys)"
    using drain_sorted [OF s1(2), of "[]"] distinct_bump_all [of "[]" evs]
    by (metis append_Nil distinct.simps(1) list.simps(8))
  have "set (map fst ys) = fst ` set evs" using ys(3) keys_bump_all [of evs "[]"] by simp
  then have "map fst ys = sorted_list_of_set (fst ` set evs)"
    using ys(4,5) sorted_list_of_set.idem_if_sorted_distinct [of "map fst ys"] by simp
  moreover have "\<forall>(t, f, b) \<in> set ys. f = frames_of t evs \<and> b = bytes_of t evs"
    using ys(3) bump_all_counts [of _ _ _ evs] by auto
  ultimately show ?thesis using s1 ys by blast
qed

end

end
