(* ===== verification/InfoList.thy ===== *)
theory InfoList
  imports Traffic
begin

text \<open>
  The linked list of counters of assignment 2: \<open>struct typeInfo\<close> and the functions on it in
  \<open>assignment2/src/assignment2.c\<close>, on an explicit heap. A pointer is an optional address. The
  loops that follow \<open>next\<close> pointers are partial functions: \<open>None\<close> is a call without a defined
  result, because it follows an invalid pointer or runs round a cycle for ever.

  \<open>chain m p as\<close> says that the list starting at \<open>p\<close> consists of the cells at the addresses
  \<open>as\<close>; \<open>entries m as\<close> is its contents. Every operation is shown to compute the corresponding
  operation on the contents.
\<close>

section \<open>Heap\<close>

type_synonym addr = nat
type_synonym ptr = "addr option"

record typeInfo =
  ethType :: u16
  frameCounter :: u32
  byteCounter :: u32
  next_info :: ptr

text \<open>
  \<open>malloc\<close> hands out a new address, or NULL once \<open>avail\<close> blocks have been handed out and not
  freed.
\<close>

record memory =
  cells :: "addr \<rightharpoonup> typeInfo"
  brk :: addr
  avail :: nat

definition malloc_info :: "typeInfo \<Rightarrow> memory \<Rightarrow> ptr \<times> memory" where
  "malloc_info c m = (if avail m = 0 then (None, m)
     else (Some (brk m), m\<lparr>cells := (cells m)(brk m \<mapsto> c), brk := Suc (brk m), avail := avail m - 1\<rparr>))"

definition load :: "ptr \<Rightarrow> memory \<Rightarrow> typeInfo option" where
  "load p m = Option.bind p (cells m)"

definition store :: "ptr \<Rightarrow> (typeInfo \<Rightarrow> typeInfo) \<Rightarrow> memory \<Rightarrow> memory option" where
  "store p f m = (case p of None \<Rightarrow> None
     | Some a \<Rightarrow> map_option (\<lambda>c. m\<lparr>cells := (cells m)(a \<mapsto> f c)\<rparr>) (cells m a))"

definition free_info :: "ptr \<Rightarrow> memory \<Rightarrow> memory option" where
  "free_info p m = (case p of None \<Rightarrow> Some m
     | Some a \<Rightarrow> if cells m a = None then None
         else Some (m\<lparr>cells := (cells m)(a := None), avail := Suc (avail m)\<rparr>))"

section \<open>The code\<close>

definition newInfo :: "u16 \<Rightarrow> memory \<Rightarrow> ptr \<times> memory" where
  "newInfo type m =
     malloc_info \<lparr>ethType = type, frameCounter = 0, byteCounter = 0, next_info = None\<rparr> m"

partial_function (option) getInfoByType :: "u16 \<Rightarrow> ptr \<Rightarrow> memory \<Rightarrow> ptr option" where
  "getInfoByType t temp m =
     (if temp = None then Some None
      else do {
        c \<leftarrow> load temp m;
        if ethType c \<noteq> t then getInfoByType t (next_info c) m else Some temp
      })"

partial_function (option) freeInfo :: "ptr \<Rightarrow> memory \<Rightarrow> memory option" where
  "freeInfo head m =
     (if head = None then Some m
      else do {
        c \<leftarrow> load head m;
        m \<leftarrow> free_info head m;
        freeInfo (next_info c) m
      })"

partial_function (option) last_info :: "ptr \<Rightarrow> memory \<Rightarrow> ptr option" where
  "last_info temp m = do {
     c \<leftarrow> load temp m;
     if next_info c \<noteq> None then last_info (next_info c) m else Some temp
   }"

definition insertInfo :: "ptr \<Rightarrow> ptr \<Rightarrow> memory \<Rightarrow> (ptr \<times> memory) option" where
  "insertInfo new head m =
     (if head = None then Some (new, m)
      else do {
        temp \<leftarrow> last_info head m;
        m \<leftarrow> store temp (\<lambda>c. c\<lparr>next_info := new\<rparr>) m;
        Some (head, m)
      })"

text \<open>The loop of \<open>removeByType\<close>: stops at the cell before the one to remove, or at the last.\<close>

partial_function (option) before_type :: "u16 \<Rightarrow> ptr \<Rightarrow> memory \<Rightarrow> ptr option" where
  "before_type t temp m = do {
     c \<leftarrow> load temp m;
     if next_info c = None then Some temp
     else do {
       n \<leftarrow> load (next_info c) m;
       if ethType n \<noteq> t then before_type t (next_info c) m else Some temp
     }
   }"

definition removeByType :: "u16 \<Rightarrow> ptr \<Rightarrow> memory \<Rightarrow> (ptr \<times> memory) option" where
  "removeByType t head m =
     (if head = None then Some (head, m)
      else do {
        c \<leftarrow> load head m;
        if ethType c = t then do {
          m \<leftarrow> free_info head m;
          Some (next_info c, m)
        }
        else do {
          temp \<leftarrow> before_type t head m;
          c \<leftarrow> load temp m;
          if next_info c = None then Some (head, m)
          else do {
            n \<leftarrow> load (next_info c) m;
            m \<leftarrow> store temp (\<lambda>c. c\<lparr>next_info := next_info n\<rparr>) m;
            m \<leftarrow> free_info (next_info c) m;
            Some (head, m)
          }
        }
      })"

partial_function (option) min_loop :: "ptr \<Rightarrow> ptr \<Rightarrow> memory \<Rightarrow> ptr option" where
  "min_loop cur temp m =
     (if temp = None then Some cur
      else do {
        c \<leftarrow> load cur m;
        n \<leftarrow> load temp m;
        min_loop (if ethType n < ethType c then temp else cur) (next_info n) m
      })"

definition min_info :: "ptr \<Rightarrow> memory \<Rightarrow> ptr option" where
  "min_info head m = min_loop head head m"

text \<open>The part of the receive loop of \<open>assignment2\<close> that accounts a frame, and of its summary.\<close>

definition account_frame :: "u16 \<Rightarrow> u32 \<Rightarrow> memory \<times> ptr \<Rightarrow> (memory \<times> ptr) option" where
  "account_frame eType ret = (\<lambda>(m, infoList). do {
     temp \<leftarrow> getInfoByType eType infoList m;
     if temp = None then do {
       let (temp, m) = newInfo eType m;
       m \<leftarrow> store temp (\<lambda>c. c\<lparr>frameCounter := 1\<rparr>) m;
       m \<leftarrow> store temp (\<lambda>c. c\<lparr>byteCounter := ret\<rparr>) m;
       (infoList, m) \<leftarrow> insertInfo temp infoList m;
       Some (m, infoList)
     }
     else do {
       m \<leftarrow> store temp (\<lambda>c. c\<lparr>frameCounter := frameCounter c + 1\<rparr>) m;
       m \<leftarrow> store temp (\<lambda>c. c\<lparr>byteCounter := byteCounter c + ret\<rparr>) m;
       Some (m, infoList)
     }
   })"

definition pop_min_info :: "memory \<times> ptr \<Rightarrow> (entry \<times> memory \<times> ptr) option" where
  "pop_min_info = (\<lambda>(m, infoList). do {
     temp \<leftarrow> min_info infoList m;
     c \<leftarrow> load temp m;
     (infoList, m) \<leftarrow> removeByType (ethType c) infoList m;
     Some ((ethType c, frameCounter c, byteCounter c), m, infoList)
   })"

section \<open>Lists on the heap\<close>

fun chain :: "memory \<Rightarrow> ptr \<Rightarrow> addr list \<Rightarrow> bool" where
  "chain m p [] \<longleftrightarrow> p = None"
| "chain m p (a # as) \<longleftrightarrow> p = Some a \<and> (\<exists>c. cells m a = Some c \<and> chain m (next_info c) as)"

definition entry :: "typeInfo \<Rightarrow> entry" where
  "entry c = (ethType c, frameCounter c, byteCounter c)"

definition entries :: "memory \<Rightarrow> addr list \<Rightarrow> (entry) list" where
  "entries m as = map (\<lambda>a. entry (the (cells m a))) as"

lemma entries_simps [simp]:
  "entries m [] = []"
  "entries m (a # as) = entry (the (cells m a)) # entries m as"
  "entries m (xs @ ys) = entries m xs @ entries m ys"
  by (simp_all add: entries_def)

lemma load_simps [simp]: "load None m = None" "load (Some a) m = cells m a"
  by (simp_all add: load_def)

lemma chain_None [simp]: "chain m None as \<longleftrightarrow> as = []"
  by (cases as) auto

lemma chain_Some: "chain m (Some a) as \<longleftrightarrow>
    (\<exists>c bs. as = a # bs \<and> cells m a = Some c \<and> chain m (next_info c) bs)"
  by (cases as) auto

lemma chain_allocated: "chain m p as \<Longrightarrow> a \<in> set as \<Longrightarrow> \<exists>c. cells m a = Some c"
  by (induction as arbitrary: p) auto

text \<open>A chain depends on the \<open>next\<close> fields alone, and not on cells outside it.\<close>

lemma chain_update:
  "cells m a = Some c \<Longrightarrow> next_info c' = next_info c \<Longrightarrow>
    chain (m\<lparr>cells := (cells m)(a \<mapsto> c')\<rparr>) p as = chain m p as"
  by (induction as arbitrary: p) auto

lemma chain_cong:
  "(\<And>a. a \<in> set as \<Longrightarrow> cells m' a = cells m a) \<Longrightarrow> chain m' p as = chain m p as"
  by (induction as arbitrary: p) auto

lemma entries_cong:
  "(\<And>a. a \<in> set as \<Longrightarrow> cells m' a = cells m a) \<Longrightarrow> entries m' as = entries m as"
  by (simp add: entries_def)

lemma chain_split:
  "chain m p (xs @ a # ys) \<Longrightarrow> chain m (Some a) (a # ys)"
  by (induction xs arbitrary: p) auto

lemma chain_unique: "chain m p as \<Longrightarrow> chain m p bs \<Longrightarrow> as = bs"
proof (induction as arbitrary: p bs)
  case (Cons a as)
  then show ?case by (cases bs) auto
qed simp

lemma chain_distinct: "chain m p as \<Longrightarrow> distinct as"
proof (induction as arbitrary: p)
  case (Cons a as)
  then obtain c where c: "cells m a = Some c" "chain m (next_info c) as" by auto
  have "a \<notin> set as"
  proof
    assume "a \<in> set as"
    then obtain xs ys where as: "as = xs @ a # ys" by (auto simp: in_set_conv_decomp)
    then have "chain m (Some a) (a # ys)" using c chain_split by blast
    moreover have "chain m (Some a) (a # as)" using c by simp
    ultimately have "as = ys" using chain_unique by blast
    with as show False by simp
  qed
  with Cons.IH c show ?case by simp
qed simp


section \<open>Every operation computes its list counterpart\<close>

lemma getInfoByType_chain:
  "chain m p as \<Longrightarrow> getInfoByType t p m = Some (map_option ((!) as) (position t (entries m as)))"
proof (induction as arbitrary: p)
  case Nil
  then show ?case by (simp add: getInfoByType.simps)
next
  case (Cons a as)
  then obtain c where c: "p = Some a" "cells m a = Some c" "chain m (next_info c) as" by auto
  then have "getInfoByType t p m =
      (if ethType c \<noteq> t then getInfoByType t (next_info c) m else Some (Some a))"
    by (subst getInfoByType.simps) simp
  with c Cons.IH [OF c(3)] show ?case
    by (auto simp: entry_def option.map_comp comp_def)
qed

lemma freeInfo_chain:
  "chain m p as \<Longrightarrow> \<exists>m'. freeInfo p m = Some m' \<and>
    (\<forall>a. cells m' a = (if a \<in> set as then None else cells m a)) \<and>
    brk m' = brk m \<and> avail m' = avail m + length as"
proof (induction as arbitrary: p m)
  case Nil
  then show ?case by (simp add: freeInfo.simps)
next
  case (Cons a as)
  then obtain c where c: "p = Some a" "cells m a = Some c" "chain m (next_info c) as" by auto
  let ?m = "m\<lparr>cells := (cells m)(a := None), avail := Suc (avail m)\<rparr>"
  have "a \<notin> set as" using chain_distinct [OF Cons.prems] by simp
  then have "chain ?m (next_info c) as"
    by (subst chain_cong [of as _ m]) (auto simp: c(3))
  with Cons.IH [of ?m "next_info c"] obtain m' where
    m': "freeInfo (next_info c) ?m = Some m'"
      "\<forall>b. cells m' b = (if b \<in> set as then None else cells ?m b)"
      "brk m' = brk m" "avail m' = Suc (avail m) + length as" by auto
  have "freeInfo p m = Some m'"
    using c m'(1) by (subst freeInfo.simps) (simp add: free_info_def)
  with m' show ?case by (intro exI [of _ m']) auto
qed

lemma last_info_chain:
  "chain m (Some a) (a # as) \<Longrightarrow> last_info (Some a) m = Some (Some (last (a # as)))"
proof (induction as arbitrary: a)
  case Nil
  then show ?case by (subst last_info.simps) auto
next
  case (Cons b as)
  then obtain c where c: "cells m a = Some c" "next_info c = Some b" "chain m (Some b) (b # as)" by auto
  then have "last_info (Some a) m = last_info (Some b) m"
    by (subst last_info.simps) simp
  with Cons.IH [OF c(3)] show ?case by simp
qed

text \<open>Redirecting a pointer of a chain replaces what follows by what it is redirected to.\<close>

lemma chain_redirect:
  assumes "chain m p (xs @ a # zs)" and "a \<notin> set xs" and "chain m' q ys"
    and "\<And>b. b \<in> set xs \<Longrightarrow> cells m' b = cells m b"
    and "cells m' a = map_option (\<lambda>c. c\<lparr>next_info := q\<rparr>) (cells m a)"
  shows "chain m' p (xs @ a # ys)"
  using assms
proof (induction xs arbitrary: p)
  case (Cons b xs)
  then obtain c where "p = Some b" "cells m b = Some c" "chain m (next_info c) (xs @ a # zs)" by auto
  with Cons show ?case by auto
qed auto

lemma insertInfo_chain:
  assumes "chain m p as" and "chain m (Some n) [n]" and "n \<notin> set as"
  shows "\<exists>p' m'. insertInfo (Some n) p m = Some (p', m') \<and> chain m' p' (as @ [n]) \<and>
    entries m' (as @ [n]) = entries m (as @ [n]) \<and> dom (cells m') = dom (cells m) \<and>
    brk m' = brk m \<and> avail m' = avail m"
proof (cases as)
  case Nil
  with assms show ?thesis by (auto simp: insertInfo_def)
next
  case (Cons a bs)
  define l where "l = last as"
  have p: "p = Some a" and as: "as = butlast as @ [l]" using assms(1) Cons by (auto simp: l_def)
  have l_notin: "l \<notin> set (butlast as)"
    using chain_distinct [OF assms(1)] by (subst (asm) as) simp
  have "chain m p (butlast as @ [l])" using assms(1) as by simp
  then obtain c where c: "cells m l = Some c"
    using chain_allocated [of m p "butlast as @ [l]" l] by auto
  let ?m = "m\<lparr>cells := (cells m)(l \<mapsto> c\<lparr>next_info := Some n\<rparr>)\<rparr>"
  have "n \<noteq> l" using assms(3) as by (metis in_set_conv_decomp)
  have ins: "insertInfo (Some n) p m = Some (p, ?m)"
    using last_info_chain [of m a bs] assms(1) Cons p c
    by (simp add: insertInfo_def store_def l_def)
  have "chain ?m (Some n) [n]"
    using assms(2) \<open>n \<noteq> l\<close> chain_cong [of "[n]" ?m m] by simp
  then have "chain ?m p (butlast as @ l # [n])"
    using l_notin c
    by (intro chain_redirect [OF \<open>chain m p (butlast as @ [l])\<close>]) auto
  then have "chain ?m p (as @ [n])" using as by (metis append.assoc append_Cons append_Nil)
  moreover have "entries ?m (as @ [n]) = entries m (as @ [n])"
    using c by (auto simp: entries_def entry_def)
  ultimately show ?thesis
    using ins c by (auto simp: dom_def)
qed


lemma min_loop_chain:
  "chain m q bs \<Longrightarrow> cells m a = Some c \<Longrightarrow> \<exists>a' c'. min_loop (Some a) q m = Some (Some a') \<and>
    cells m a' = Some c' \<and> a' \<in> insert a (set bs) \<and> entry c' = min_from (entry c) (entries m bs)"
proof (induction bs arbitrary: q a c)
  case Nil
  then show ?case by (subst min_loop.simps) simp
next
  case (Cons b bs)
  then obtain d where d: "q = Some b" "cells m b = Some d" "chain m (next_info d) bs" by auto
  let ?a = "if ethType d < ethType c then b else a"
  have step: "min_loop (Some a) q m = min_loop (Some ?a) (next_info d) m"
    using d Cons.prems(2) by (subst min_loop.simps) simp
  have a: "cells m ?a = Some (if ethType d < ethType c then d else c)"
    using d(2) Cons.prems(2) by simp
  obtain a' c' where "min_loop (Some ?a) (next_info d) m = Some (Some a')" "cells m a' = Some c'"
    "a' \<in> insert ?a (set bs)" "entry c' = min_from (entry (if ethType d < ethType c then d else c)) (entries m bs)"
    using Cons.IH [OF d(3) a] by blast
  then show ?case
    using step d(2) by (intro exI [of _ a'] exI [of _ c']) (auto simp: entry_def split: if_splits)
qed

lemma min_info_chain:
  assumes "chain m p (a # as)"
  shows "\<exists>a' c'. min_info p m = Some (Some a') \<and> cells m a' = Some c' \<and> a' \<in> set (a # as) \<and>
    entry c' = min_from (hd (entries m (a # as))) (entries m (a # as))"
proof -
  obtain c where "p = Some a" "cells m a = Some c" using assms by auto
  with min_loop_chain [OF assms, of a c] show ?thesis by (auto simp: min_info_def)
qed

lemma before_type_chain:
  "chain m (Some a) (a # bs) \<Longrightarrow> before_type t (Some a) m =
    Some (Some (case position t (entries m bs) of None \<Rightarrow> last (a # bs) | Some i \<Rightarrow> (a # bs) ! i))"
proof (induction bs arbitrary: a)
  case Nil
  then show ?case by (subst before_type.simps) auto
next
  case (Cons b bs)
  then obtain c d where c: "cells m a = Some c" "next_info c = Some b"
    and d: "cells m b = Some d" and ch: "chain m (Some b) (b # bs)" by auto
  then have "before_type t (Some a) m =
      (if ethType d \<noteq> t then before_type t (Some b) m else Some (Some a))"
    by (subst before_type.simps) simp
  with Cons.IH [OF ch] d show ?case
    by (auto simp: entry_def split: option.splits)
qed

lemma last_cell_next: "chain m p as \<Longrightarrow> as \<noteq> [] \<Longrightarrow> \<exists>c. cells m (last as) = Some c \<and> next_info c = None"
  by (induction as arbitrary: p) auto

text \<open>Taking the cell \<open>x\<close> out of a chain.\<close>

definition unlink :: "addr \<Rightarrow> addr \<Rightarrow> ptr \<Rightarrow> memory \<Rightarrow> memory" where
  "unlink l x q m = m\<lparr>cells := (cells m)(l := map_option (\<lambda>c. c\<lparr>next_info := q\<rparr>) (cells m l), x := None),
     avail := Suc (avail m)\<rparr>"

lemma chain_unlink:
  assumes "chain m p (xs @ l # x # ys)" and "cells m x = Some c"
  shows "chain (unlink l x (next_info c) m) p (xs @ l # ys)"
proof -
  have "distinct (xs @ l # x # ys)" by (rule chain_distinct [OF assms(1)])
  then have dist: "l \<notin> set xs" "x \<notin> set xs" "l \<noteq> x" "l \<notin> set ys" "x \<notin> set ys" by auto
  have "chain m (Some x) (x # ys)"
    using chain_split [of m p "xs @ [l]" x ys] assms(1) by simp
  then have ys: "chain (unlink l x (next_info c) m) (next_info c) ys"
    using assms(2) dist by (subst chain_cong [of ys _ m]) (auto simp: unlink_def)
  show ?thesis
    using dist by (intro chain_redirect [OF assms(1) _ ys]) (auto simp: unlink_def)
qed


text \<open>The heap after a removal: the cell at the position of the key is gone, or nothing changed.\<close>

definition removed :: "nat option \<Rightarrow> addr list \<Rightarrow> addr list" where
  "removed i as = (case i of None \<Rightarrow> as | Some i \<Rightarrow> take i as @ drop (Suc i) as)"

lemma removeByType_inner:
  assumes "chain m (Some a) (a # bs)" and "cells m a = Some c" and "ethType c \<noteq> t"
    and pos: "position t (entries m bs) = Some i"
  shows "\<exists>m'. removeByType t (Some a) m = Some (Some a, m') \<and>
    chain m' (Some a) (removed (Some (Suc i)) (a # bs)) \<and>
    entries m' (removed (Some (Suc i)) (a # bs)) = entries m (removed (Some (Suc i)) (a # bs)) \<and>
    dom (cells m') = dom (cells m) - {bs ! i} \<and> brk m' = brk m \<and> avail m' = Suc (avail m)"
proof -
  let ?as = "a # bs"
  have i: "i < length bs" using position_in_range [OF pos] by (simp add: entries_def)
  define l x ys where "l = ?as ! i" and "x = bs ! i" and "ys = drop (Suc i) bs"
  have as: "?as = take i ?as @ l # x # ys"
    using i id_take_nth_drop [of i ?as] Cons_nth_drop_Suc [of i bs] by (simp add: l_def x_def ys_def)
  have ch: "chain m (Some a) (take i ?as @ l # x # ys)" using assms(1) as by simp
  then have "chain m (Some l) (l # x # ys)" by (rule chain_split)
  then obtain cl cx where cl: "cells m l = Some cl" "next_info cl = Some x" and cx: "cells m x = Some cx"
    by auto
  have dist: "l \<noteq> x" using chain_distinct [OF ch] by auto
  have "removeByType t (Some a) m = Some (Some a, unlink l x (next_info cx) m)"
    using assms(2,3) before_type_chain [OF assms(1), of t] pos cl cx dist
    by (simp add: removeByType_def store_def free_info_def unlink_def l_def)
  moreover have "removed (Some (Suc i)) ?as = take i ?as @ l # ys"
    using i by (simp add: removed_def ys_def l_def take_Suc_conv_app_nth del: take_Suc_Cons)
  moreover have "chain (unlink l x (next_info cx) m) (Some a) (take i ?as @ l # ys)"
    using chain_unlink [OF ch cx] by simp
  moreover have "entries (unlink l x (next_info cx) m) (take i ?as @ l # ys) = entries m (take i ?as @ l # ys)"
    using chain_distinct [OF ch] cl
    by (auto simp: entries_def unlink_def entry_def)
  moreover have "dom (cells (unlink l x (next_info cx) m)) = dom (cells m) - {x}"
    using cl dist by (auto simp: unlink_def dom_def)
  ultimately show ?thesis by (simp add: unlink_def x_def)
qed

section \<open>The list as an abstract table\<close>

text \<open>
  \<open>info_rep m p xs\<close>: the list at \<open>p\<close> holds the entries \<open>xs\<close>, and the heap holds nothing
  else, so no cell is leaked.
\<close>

definition info_rep :: "memory \<Rightarrow> ptr \<Rightarrow> entry list \<Rightarrow> bool" where
  "info_rep m p xs \<longleftrightarrow> (\<exists>as. chain m p as \<and> entries m as = xs \<and> dom (cells m) = set as \<and>
     (\<forall>a \<in> set as. a < brk m))"

lemma info_repI:
  "chain m p as \<Longrightarrow> entries m as = xs \<Longrightarrow> dom (cells m) = set as \<Longrightarrow> (\<And>a. a \<in> set as \<Longrightarrow> a < brk m)
    \<Longrightarrow> info_rep m p xs"
  by (auto simp: info_rep_def)

lemma info_rep_Nil: "info_rep m None [] \<longleftrightarrow> cells m = Map.empty"
  by (auto simp: info_rep_def)

lemma info_rep_NULL: "info_rep m p xs \<Longrightarrow> p = None \<longleftrightarrow> xs = []"
  by (auto simp: info_rep_def entries_def)

lemma removeByType_first_rep:
  assumes "chain m p (a # as)" and "dom (cells m) = set (a # as)" and "\<forall>b \<in> set (a # as). b < brk m"
    and "cells m a = Some c" and "ethType c = t"
  shows "\<exists>p' m'. removeByType t p m = Some (p', m') \<and> info_rep m' p' (entries m as) \<and> avail m' = Suc (avail m)"
proof -
  let ?m = "m\<lparr>cells := (cells m)(a := None), avail := Suc (avail m)\<rparr>"
  have c: "p = Some a" "chain m (next_info c) as" using assms(1,4) by auto
  have dist: "a \<notin> set as" using chain_distinct [OF assms(1)] by simp
  have "removeByType t p m = Some (next_info c, ?m)"
    using assms(4,5) c by (simp add: removeByType_def free_info_def)
  moreover have "info_rep ?m (next_info c) (entries m as)"
  proof (rule info_repI)
    show "chain ?m (next_info c) as"
      using dist by (subst chain_cong [of as _ m]) (auto simp: c)
    show "entries ?m as = entries m as" using dist by (intro entries_cong) auto
  qed (use assms(2,3) dist in auto)
  ultimately show ?thesis by simp
qed

lemma removeByType_inner_rep:
  assumes "chain m p (a # as)" and "dom (cells m) = set (a # as)" and "\<forall>b \<in> set (a # as). b < brk m"
    and "cells m a = Some c" and "ethType c \<noteq> t" and "position t (entries m as) = Some i"
  shows "\<exists>m'. removeByType t p m = Some (p, m') \<and> info_rep m' p (entries m (a # take i as @ drop (Suc i) as)) \<and>
    avail m' = Suc (avail m)"
proof -
  let ?rest = "a # take i as @ drop (Suc i) as"
  have i: "i < length as" using position_in_range [OF assms(6)] by (simp add: entries_def)
  have rem: "removed (Some (Suc i)) (a # as) = ?rest" by (simp add: removed_def)
  have p: "p = Some a" using assms(1) by auto
  obtain m' where m': "removeByType t p m = Some (p, m')" "chain m' p ?rest" "entries m' ?rest = entries m ?rest"
    "dom (cells m') = dom (cells m) - {as ! i}" "brk m' = brk m" "avail m' = Suc (avail m)"
    using removeByType_inner [of m a as c t i] assms(1,4,5,6) p rem by auto
  have dist: "a \<notin> set as" "distinct as" using chain_distinct [OF assms(1)] by auto
  have "as ! i \<noteq> a" using dist(1) i nth_mem by metis
  then have "insert a (set as - {as ! i}) = set (a # as) - {as ! i}" by auto
  then have "set ?rest = set (a # as) - {as ! i}"
    by (simp only: list.set(2) set_append set_take_drop_Suc [OF dist(2) i])
  then have "info_rep m' p (entries m ?rest)"
    using m' assms(2,3) by (intro info_repI [of _ _ ?rest]) auto
  with m' show ?thesis by blast
qed

lemma removeByType_rep:
  assumes "info_rep m p xs"
  shows "\<exists>p' m'. removeByType t p m = Some (p', m') \<and> info_rep m' p' (remove_key t xs) \<and>
    avail m' + length (remove_key t xs) = avail m + length xs"
proof -
  obtain as where as: "chain m p as" "entries m as = xs" "dom (cells m) = set as" "\<forall>a \<in> set as. a < brk m"
    using assms by (auto simp: info_rep_def)
  show ?thesis
  proof (cases as)
    case Nil
    with as assms show ?thesis by (auto simp: removeByType_def)
  next
    case (Cons a bs)
    note list = as(1,3,4) [unfolded Cons]
    then obtain c where c: "p = Some a" "cells m a = Some c" by auto
    have xs: "xs = entry c # entries m bs" using as(2) Cons c by simp
    consider "ethType c = t" | "ethType c \<noteq> t" "position t (entries m bs) = None"
      | i where "ethType c \<noteq> t" "position t (entries m bs) = Some i" by blast
    then show ?thesis
    proof cases
      case 1
      then show ?thesis using removeByType_first_rep [OF list c(2) 1] xs by (auto simp: entry_def)
    next
      case 2
      then have "removeByType t p m = Some (p, m)"
        using c before_type_chain [of m a bs t] last_cell_next [of m p as] as(1) Cons
        by (auto simp: removeByType_def)
      moreover have "remove_key t xs = xs" using 2 xs by (simp add: entry_def remove_key_position)
      ultimately show ?thesis using assms by simp
    next
      case 3
      have "i < length bs" using position_in_range [OF 3(2)] by (simp add: entries_def)
      then have "Suc (length (remove_key t xs)) = length xs"
        using 3 xs by (simp add: entry_def remove_key_position entries_def)
      moreover have "entries m (a # take i bs @ drop (Suc i) bs) = remove_key t xs"
        using 3 xs c by (simp add: entry_def remove_key_position entries_def take_map drop_map)
      ultimately show ?thesis
        using removeByType_inner_rep [OF list c(2) 3] by auto
    qed
  qed
qed

section \<open>The list implements the table\<close>

lemma account_frame_known:
  assumes "info_rep m p xs" and "t \<in> keys xs"
  shows "\<exists>m'. account_frame t n (m, p) = Some (m', p) \<and> info_rep m' p (bump t n xs) \<and> avail m' = avail m"
proof -
  obtain as where as: "chain m p as" "entries m as = xs" "dom (cells m) = set as" "\<forall>a \<in> set as. a < brk m"
    using assms(1) by (auto simp: info_rep_def)
  obtain i where i: "position t xs = Some i" using assms(2) position_None [of t xs] by auto
  have ir: "i < length as" "fst (xs ! i) = t"
    using position_in_range [OF i] as(2) by (auto simp: entries_def)
  obtain c where c: "cells m (as ! i) = Some c"
    using chain_allocated [OF as(1)] ir(1) by fastforce
  have c_xs: "xs ! i = entry c" using as(2) ir(1) c by (auto simp: entries_def)
  let ?c = "c\<lparr>frameCounter := frameCounter c + 1, byteCounter := byteCounter c + n\<rparr>"
  let ?m = "m\<lparr>cells := (cells m)(as ! i \<mapsto> ?c)\<rparr>"
  have "account_frame t n (m, p) = Some (?m, p)"
    using getInfoByType_chain [OF as(1), of t] as(2) i c by (simp add: account_frame_def store_def)
  moreover have "info_rep ?m p (bump t n xs)"
  proof (rule info_repI)
    have dist: "distinct as" by (rule chain_distinct [OF as(1)])
    show "chain ?m p as" using as(1) chain_update [OF c, of ?c] by simp
    show "entries ?m as = bump t n xs"
    proof (rule nth_equalityI)
      have len: "length xs = length as" using as(2) by (auto simp: entries_def)
      then show "length (entries ?m as) = length (bump t n xs)"
        using i by (simp add: bump_position entries_def)
      fix j assume "j < length (entries ?m as)"
      then have j: "j < length as" by (simp add: entries_def)
      then have "as ! j = as ! i \<longleftrightarrow> j = i" using dist ir(1) nth_eq_iff_index_eq by blast
      then show "entries ?m as ! j = bump t n xs ! j"
        using i j ir c_xs len as(2) by (auto simp: bump_position entries_def entry_def nth_list_update)
    qed
  qed (use as c in auto)
  ultimately show ?thesis by auto
qed

lemma account_frame_new:
  assumes "info_rep m p xs" and "t \<notin> keys xs" and "0 < avail m"
  shows "\<exists>m' p'. account_frame t n (m, p) = Some (m', p') \<and> info_rep m' p' (bump t n xs) \<and>
    Suc (avail m') = avail m"
proof -
  obtain as where as: "chain m p as" "entries m as = xs" "dom (cells m) = set as" "\<forall>a \<in> set as. a < brk m"
    using assms(1) by (auto simp: info_rep_def)
  have fresh: "brk m \<notin> set as" using as(4) by auto
  let ?c = "\<lparr>ethType = t, frameCounter = 1, byteCounter = n, next_info = None\<rparr>"
  let ?m = "m\<lparr>brk := Suc (brk m), avail := avail m - 1, cells := (cells m)(brk m \<mapsto> ?c)\<rparr>"
  have "position t xs = None" using assms(2) position_None by blast
  then have get: "getInfoByType t p m = Some None"
    using getInfoByType_chain [OF as(1), of t] as(2) by simp
  have "chain ?m p as" using fresh as(1) by (subst chain_cong [of as _ m]) auto
  moreover have "chain ?m (Some (brk m)) [brk m]" by simp
  ultimately obtain p' m' where ins: "insertInfo (Some (brk m)) p ?m = Some (p', m')"
    "chain m' p' (as @ [brk m])" "entries m' (as @ [brk m]) = entries ?m (as @ [brk m])"
    "dom (cells m') = dom (cells ?m)" "brk m' = Suc (brk m)" "avail m' = avail m - 1"
    using insertInfo_chain [of ?m p as "brk m"] fresh by auto
  have "account_frame t n (m, p) = Some (m', p')"
    using get ins(1) assms(3)
    by (simp add: account_frame_def newInfo_def malloc_info_def store_def)
  moreover have "entries ?m as = xs"
    using fresh as(2) by (subst entries_cong [of as _ m]) auto
  then have "entries ?m (as @ [brk m]) = bump t n xs"
    using \<open>position t xs = None\<close> by (simp add: bump_position entry_def)
  ultimately show ?thesis
    using ins as(3,4) assms(3) info_repI [OF ins(2), of "bump t n xs"]
    by (auto simp: less_Suc_eq)
qed

text \<open>Without memory for a new entry, the code writes through a NULL pointer.\<close>

lemma account_frame_full:
  assumes "info_rep m p xs" and "t \<notin> keys xs" and "avail m = 0"
  shows "account_frame t n (m, p) = None"
proof -
  obtain as where as: "chain m p as" "entries m as = xs"
    using assms(1) by (auto simp: info_rep_def)
  have "position t xs = None" using assms(2) position_None by blast
  then have "getInfoByType t p m = Some None"
    using getInfoByType_chain [OF as(1), of t] as(2) by simp
  then show ?thesis
    using assms(3) by (simp add: account_frame_def newInfo_def malloc_info_def store_def)
qed

lemma pop_min_info_rep:
  assumes "info_rep m p xs" and "xs \<noteq> []"
  shows "\<exists>m' p'. pop_min_info (m, p) = Some (min_entry xs, m', p') \<and>
    info_rep m' p' (remove_key (fst (min_entry xs)) xs) \<and> avail m' = Suc (avail m)"
proof -
  obtain as where as: "chain m p as" "entries m as = xs" using assms(1) by (auto simp: info_rep_def)
  then obtain a bs where "as = a # bs" using assms(2) by (cases as) auto
  then obtain a' c' where c': "min_info p m = Some (Some a')" "cells m a' = Some c'" "entry c' = min_entry xs"
    using min_info_chain [of m p a bs] as by auto
  obtain p' m' where rem: "removeByType (ethType c') p m = Some (p', m')"
    "info_rep m' p' (remove_key (ethType c') xs)"
    "avail m' + length (remove_key (ethType c') xs) = avail m + length xs"
    using removeByType_rep [OF assms(1), of "ethType c'"] by blast
  have fst_c': "fst (min_entry xs) = ethType c'" using c'(3) by (metis entry_def fst_conv)
  have "ethType c' \<in> keys xs"
    using min_entry(1) [OF assms(2)] fst_c' by (metis imageI)
  then have "Suc (length (remove_key (ethType c') xs)) = length xs" by (rule length_remove_key)
  then show ?thesis
    using c' rem fst_c' by (auto simp: pop_min_info_def entry_def)
qed

text \<open>
  The list of \<open>assignment2.c\<close> is a table: what the interface promises holds of it, with the
  blocks \<open>malloc\<close> can still hand out as its room.
\<close>

interpretation infos: traffic_table "\<lambda>s xs. info_rep (fst s) (snd s) xs" "\<lambda>s. avail (fst s)"
  account_frame pop_min_info "\<lambda>s. snd s = None"
proof unfold_locales
  fix s :: "memory \<times> ptr" and xs t n
  obtain m p where s: "s = (m, p)" by (cases s)
  assume rep: "info_rep (fst s) (snd s) xs" and "t \<in> keys xs \<or> 0 < avail (fst s)"
  then show "\<exists>s'. account_frame t n s = Some s' \<and> info_rep (fst s') (snd s') (bump t n xs) \<and>
      avail (fst s') + length (bump t n xs) = avail (fst s) + length xs"
    using account_frame_known [of m p xs t n] account_frame_new [of m p xs t n]
    by (cases "t \<in> keys xs") (auto simp: s length_bump)
next
  fix s :: "memory \<times> ptr" and xs t n
  assume "info_rep (fst s) (snd s) xs" and "t \<notin> keys xs" and "avail (fst s) = 0"
  then show "account_frame t n s = None"
    using account_frame_full [of "fst s" "snd s" xs t n] by simp
next
  fix s :: "memory \<times> ptr" and xs :: "entry list"
  assume "info_rep (fst s) (snd s) xs" and "xs \<noteq> []"
  then show "\<exists>s'. pop_min_info s = Some (min_entry xs, s') \<and>
      info_rep (fst s') (snd s') (remove_key (fst (min_entry xs)) xs)"
    using pop_min_info_rep [of "fst s" "snd s" xs] by auto
next
  fix s :: "memory \<times> ptr" and xs
  assume "info_rep (fst s) (snd s) xs"
  then show "(snd s = None) = (xs = [])" by (rule info_rep_NULL)
qed

section \<open>Properties\<close>

text \<open>
  C10. The list functions on the heap compute the list functions on its contents, and neither leak
  nor free twice. On a list with contents \<open>xs\<close> that owns the whole heap: the lookup returns NULL
  exactly for types that do not occur, and otherwise the first cell of the type; the minimum is
  the first cell with the smallest type; a removal takes out the first entry of the type, frees
  exactly its block, and is the identity for other types; \<open>freeInfo\<close> frees every block.
\<close>

theorem info_list_operations:
  assumes "info_rep m p xs"
  shows "(\<exists>q. getInfoByType t p m = Some q \<and> (q = None \<longleftrightarrow> t \<notin> keys xs) \<and>
      (\<forall>i. position t xs = Some i \<longrightarrow> map_option entry (load q m) = Some (xs ! i))) \<and>
    (xs \<noteq> [] \<longrightarrow> (\<exists>q. min_info p m = Some q \<and> map_option entry (load q m) = Some (min_entry xs))) \<and>
    (\<exists>p' m'. removeByType t p m = Some (p', m') \<and> info_rep m' p' (remove_key t xs) \<and>
      avail m' = avail m + (if t \<in> keys xs then 1 else 0)) \<and>
    (\<exists>m'. freeInfo p m = Some m' \<and> info_rep m' None [] \<and> avail m' = avail m + length xs)"
proof (intro conjI impI)
  obtain as where as: "chain m p as" "entries m as = xs" "dom (cells m) = set as"
    using assms by (auto simp: info_rep_def)
  have entry_at: "map_option entry (cells m (as ! i)) = Some (xs ! i)" if "i < length xs" for i
    using that as(2) chain_allocated [OF as(1), of "as ! i"] by (auto simp: entries_def)
  show "\<exists>q. getInfoByType t p m = Some q \<and> (q = None \<longleftrightarrow> t \<notin> keys xs) \<and>
      (\<forall>i. position t xs = Some i \<longrightarrow> map_option entry (load q m) = Some (xs ! i))"
    using getInfoByType_chain [OF as(1), of t] as(2) position_None [of t xs] entry_at
    by (auto dest: position_in_range)
  show "\<exists>q. min_info p m = Some q \<and> map_option entry (load q m) = Some (min_entry xs)" if ne: "xs \<noteq> []"
  proof -
    obtain a bs where "as = a # bs" using as(2) ne by (cases as) auto
    with min_info_chain [of m p a bs] as(1,2) show ?thesis by fastforce
  qed
  show "\<exists>p' m'. removeByType t p m = Some (p', m') \<and> info_rep m' p' (remove_key t xs) \<and>
      avail m' = avail m + (if t \<in> keys xs then 1 else 0)"
  proof -
    obtain p' m' where r: "removeByType t p m = Some (p', m')" "info_rep m' p' (remove_key t xs)"
      "avail m' + length (remove_key t xs) = avail m + length xs"
      using removeByType_rep [OF assms, of t] by blast
    moreover have "remove_key t xs = xs" if "t \<notin> keys xs"
      using that position_None [of t xs] by (simp add: remove_key_position)
    ultimately show ?thesis using length_remove_key [of t xs] by force
  qed
  obtain m' where m': "freeInfo p m = Some m'" "\<forall>a. cells m' a = (if a \<in> set as then None else cells m a)"
    "avail m' = avail m + length as"
    using freeInfo_chain [OF as(1)] by blast
  have "cells m' = Map.empty"
    using m'(2) as(3) by (auto simp: fun_eq_iff dom_def)
  then show "\<exists>m'. freeInfo p m = Some m' \<and> info_rep m' None [] \<and> avail m' = avail m + length xs"
    using m' as(2) by (auto simp: info_rep_Nil entries_def)
qed

definition example_heap :: memory where
  "example_heap = \<lparr>cells = [0 \<mapsto> \<lparr>ethType = 7, frameCounter = 1, byteCounter = 60, next_info = Some 1\<rparr>,
      1 \<mapsto> \<lparr>ethType = 5, frameCounter = 2, byteCounter = 99, next_info = None\<rparr>], brk = 2, avail = 3\<rparr>"

theorem info_list_operations_witness:
  "\<exists>p' m'. removeByType 5 (Some 0) example_heap = Some (p', m') \<and> info_rep m' p' [(7, 1, 60)] \<and> avail m' = 4"
proof -
  have "info_rep example_heap (Some 0) [(7, 1, 60), (5, 2, 99)]"
    by (intro info_repI [of _ _ "[0, 1]"]) (auto simp: example_heap_def entry_def)
  from info_list_operations [OF this, of 5] show ?thesis
    by (auto simp: example_heap_def)
qed

end
