(* ===== verification/EthStats.thy ===== *)
theory EthStats
  imports Argp Raw InfoList
begin

text \<open>
  Assignment 2, the program \<open>ethstats\<close>: \<open>assignment2/src/arguments.c\<close> and
  \<open>assignment2/src/assignment2.c\<close>, on top of the sockets of \<open>Raw\<close> and the list of
  \<open>InfoList\<close>. The program's variables are the record \<open>stats\<close>. What is printed is a list of
  lines and, for the last line, the number of bytes its rate is computed from; the rate itself is in
  \<open>EthRate\<close>.
\<close>

section \<open>The command line\<close>

record ethstats_args =
  interface :: string
  frames :: int

definition parse_opt_ethstats :: "ethstats_args parse_opt" where
  "parse_opt_ethstats key arg arg_num args = (case key of
     KEY_ARG \<Rightarrow>
       (if arg_num = 0 then
          (let (n, endptr) = strtol arg; args = args\<lparr>frames := to_int32 n\<rparr>
           in if endptr \<noteq> [] then (EINVAL, args) else (NO_ERROR, args))
        else (ARGP_ERR_UNKNOWN, args))
   | KEY_OPT c \<Rightarrow>
       (if c = CHR ''i'' then (NO_ERROR, args\<lparr>interface := arg\<rparr>) else (ARGP_ERR_UNKNOWN, args))
   | KEY_OTHER \<Rightarrow> (ARGP_ERR_UNKNOWN, args))"

definition options_ethstats :: "argp_option list" where
  "options_ethstats = [\<lparr>ao_name = ''interface'', ao_key = CHR ''i'', ao_arg = ''interface'', ao_doc = None\<rparr>]"

definition parse_args_ethstats :: "string list \<Rightarrow> ethstats_args parse_result" where
  "parse_args_ethstats argv =
     argp parse_opt_ethstats options_ethstats argv \<lparr>interface = ''eth0'', frames = 10\<rparr>"

abbreviation int32_frames :: "ethstats_args \<Rightarrow> bool" where
  "int32_frames a \<equiv> - 2147483648 \<le> frames a \<and> frames a \<le> 2147483647"

interpretation ethstats_parser: option_parser parse_opt_ethstats int32_frames
proof
  fix a k s n e a'
  assume "int32_frames a" "parse_opt_ethstats k s n a = (e, a')"
  then show "int32_frames a'"
    by (auto simp: parse_opt_ethstats_def Let_def to_int32_range
        split: argp_key.splits prod.splits if_splits)
qed (simp add: parse_opt_ethstats_def)

section \<open>The fields of a frame\<close>

definition ETH_ALEN :: nat where
  "ETH_ALEN = 6"

definition isMulticast :: "u8 \<Rightarrow> int" where
  "isMulticast mac_first = (if mac_first AND 1 \<noteq> 0 then 1 else 0)"

definition getMac :: "u8 list \<Rightarrow> nat \<Rightarrow> u8 list" where
  "getMac src offset = take ETH_ALEN (drop offset src)"

definition macsEqual :: "u8 list \<Rightarrow> u8 list \<Rightarrow> int" where
  "macsEqual x y = (case find (\<lambda>i. x ! i \<noteq> y ! i) [0..<ETH_ALEN] of Some _ \<Rightarrow> 0 | None \<Rightarrow> 1)"

definition getType :: "u8 list \<Rightarrow> 64 word" where
  "getType buf =
     (let type = take 2 (drop (2 * ETH_ALEN) buf); res = (ucast (type ! 0) :: 64 word);
          res = push_bit 8 res
      in res + ucast (type ! 1))"

section \<open>The receive loop\<close>

record stats =
  recbuffer :: "u8 list"
  timeout :: u32
  table :: "memory \<times> ptr"
  myFrames :: u32
  multiCastFrames :: u32
  totalByte :: u32

text \<open>\<open>grnvs_read\<close> writes the frame over the front of the buffer and leaves the rest alone.\<close>

definition fill :: "u8 list \<Rightarrow> u8 list \<Rightarrow> u8 list" where
  "fill d buf = d @ drop (length d) buf"

text \<open>The body of the loop after a read that returned \<open>ret\<close>, not 0.\<close>

definition count_frame :: "u8 list \<Rightarrow> u32 \<Rightarrow> stats \<Rightarrow> stats option" where
  "count_frame mymac n s = (
     let eType = ucast (getType (recbuffer s));
         dst = getMac (recbuffer s) 0
     in do {
       t \<leftarrow> account_frame eType n (table s);
       let s = s\<lparr>table := t\<rparr>;
       let s = (if macsEqual mymac dst \<noteq> 0 then s\<lparr>myFrames := myFrames s + 1\<rparr> else s);
       let s = (if isMulticast (dst ! 0) \<noteq> 0 then s\<lparr>multiCastFrames := multiCastFrames s + 1\<rparr> else s);
       Some (s\<lparr>totalByte := totalByte s + n\<rparr>)
     })"

definition read_into :: "read_return \<Rightarrow> stats \<Rightarrow> stats" where
  "read_into r s = s\<lparr>recbuffer := fill (data r) (recbuffer s), timeout := the (timeout_left r)\<rparr>"

fun receive_loop :: "raw_state \<Rightarrow> u8 list \<Rightarrow> nat \<Rightarrow> read_round list \<Rightarrow> stats \<Rightarrow> (stats \<times> read_round list) outcome" where
  "receive_loop raw mymac 0 rs s = Return (s, rs)"
| "receive_loop raw mymac (Suc n) rs s =
     bind_outcome (grnvs_read raw 1514 (Some (timeout s)) rs) (\<lambda>r.
       let s = read_into r s
       in if ret r = 0 then Return (s, rounds_left r)
          else case count_frame mymac (word_of_int (ret r)) s of
              None \<Rightarrow> Undefined
            | Some s \<Rightarrow> receive_loop raw mymac n (rounds_left r) s)"

section \<open>The summary and the program\<close>

datatype line = Info u16 u32 u32 | ForMe u32 | Multicast u32 

text \<open>What \<open>printf\<close> makes of the lines; \<open>%d\<close> reads a \<open>uint32_t\<close> as an \<open>int\<close>.\<close>

fun show_line :: "line \<Rightarrow> string" where
  "show_line (Info t f b) = ''0x'' @ hex_pad 4 (unat t) @ '': '' @ dec_int (sint f) @ '' frames, '' @
     dec_int (sint b) @ '' bytes'' @ [CHR 0x0A]"
| "show_line (ForMe n) = dec_int (sint n) @ '' of them were for me'' @ [CHR 0x0A]"
| "show_line (Multicast n) = dec_int (sint n) @ '' of them were multicast'' @ [CHR 0x0A]"

definition info_line :: "entry \<Rightarrow> line" where
  "info_line e = Info (fst e) (fst (snd e)) (snd (snd e))"

definition summary :: "stats \<Rightarrow> (line list \<times> u32 \<times> memory \<times> ptr) option" where
  "summary s = do {
     (es, t) \<leftarrow> drain (\<lambda>t. snd t = None) pop_min_info (table s) [];
     Some (map info_line es @ [ForMe (myFrames s), Multicast (multiCastFrames s)], totalByte s, t)
   }"

text \<open>
  \<open>stack\<close> is what the uninitialised array holds at the call, \<open>m\<close> the heap.
\<close>

definition stats_init :: "u8 list \<Rightarrow> memory \<Rightarrow> stats" where
  "stats_init stack m = \<lparr>recbuffer = stack, timeout = 10000, table = (m, None),
     myFrames = 0, multiCastFrames = 0, totalByte = 0\<rparr>"

definition assignment2 ::
  "raw_state \<Rightarrow> int \<Rightarrow> u8 list \<Rightarrow> memory \<Rightarrow> read_round list \<Rightarrow> (line list \<times> u32 \<times> memory \<times> ptr) outcome" where
  "assignment2 raw n stack m rs = (case grnvs_get_hwaddr raw of
     None \<Rightarrow> Undefined
   | Some mymac \<Rightarrow> bind_outcome (receive_loop raw mymac (nat n) rs (stats_init stack m)) (\<lambda>(s, _).
       case summary s of None \<Rightarrow> Undefined | Some out \<Rightarrow> Return out))"

text \<open>\<open>main\<close>: the lines printed after the ready marker and the exit status.\<close>

definition main_ethstats ::
  "string list \<Rightarrow> os_open \<Rightarrow> u8 list \<Rightarrow> memory \<Rightarrow> read_round list \<Rightarrow> int \<Rightarrow> (line list \<times> u32 \<times> int) outcome" where
  "main_ethstats argv os stack m rs closed = (case parse_args_ethstats argv of
     Help_exit \<Rightarrow> Exit 0
   | Usage_exit \<Rightarrow> Exit 64
   | Parse_failed e \<Rightarrow> Exit (- 1)
   | Parsed args \<Rightarrow> bind_outcome (grnvs_open os (interface args) SOCK_RAW raw_init) (\<lambda>(sock, raw).
       bind_outcome (assignment2 raw (frames args) stack m rs) (\<lambda>(out, total, _).
         let (_, raw) = grnvs_close raw closed in Return (out, total, 0))))"

section \<open>The fields as the standard describes them\<close>

definition ether_type :: "u8 list \<Rightarrow> u16" where
  "ether_type buf = of_nat (256 * unat (buf ! 12) + unat (buf ! 13))"

lemma getType_ether_type:
  assumes "14 \<le> length buf"
  shows "ucast (getType buf) = ether_type buf"
proof -
  have "take 2 (drop 12 buf) ! 0 = buf ! 12" "take 2 (drop 12 buf) ! 1 = buf ! 13"
    using assms by auto
  then have "getType buf = push_bit 8 (ucast (buf ! 12)) + ucast (buf ! 13)"
    by (simp add: getType_def ETH_ALEN_def Let_def)
  also have "\<dots> = (of_nat (256 * unat (buf ! 12) + unat (buf ! 13)) :: 64 word)"
    by (simp add: push_bit_eq_mult mult.commute)
  finally have "getType buf = of_nat (256 * unat (buf ! 12) + unat (buf ! 13))" .
  moreover have "256 * unat (buf ! 12) + unat (buf ! 13) < 65536"
    using unat_u8_less [of "buf ! 12"] unat_u8_less [of "buf ! 13"] by linarith
  ultimately show ?thesis
    unfolding ether_type_def
    by (intro word_unat_eq_iff [THEN iffD2])
      (simp only: unsigned_ucast_eq unsigned_of_nat take_bit_nat_eq_self_iff take_bit_eq_mod, simp)
qed

lemma macsEqual_iff:
  assumes "length x = 6" and "length y = 6"
  shows "macsEqual x y \<noteq> 0 \<longleftrightarrow> x = y"
proof -
  have "find (\<lambda>i. x ! i \<noteq> y ! i) [0..<6] = None \<longleftrightarrow> (\<forall>i < 6. x ! i = y ! i)"
    by (auto simp: find_None_iff)
  also have "\<dots> \<longleftrightarrow> x = y" using assms by (auto simp: list_eq_iff_nth_eq)
  finally show ?thesis by (auto simp: macsEqual_def ETH_ALEN_def split: option.splits)
qed

lemma isMulticast_iff: "isMulticast b \<noteq> 0 \<longleftrightarrow> odd (unat b)"
proof -
  have "unat (b AND 1) = unat b mod 2" by (simp only: unsigned_and_eq unsigned_1) (simp only: and_one_eq)
  moreover have "b AND 1 \<noteq> 0 \<longleftrightarrow> unat (b AND 1) \<noteq> 0" by (simp add: unat_eq_0)
  ultimately show ?thesis by (simp add: isMulticast_def odd_iff_mod_2_eq_one)
qed

section \<open>What was received\<close>

text \<open>The frames the reads deliver, at most \<open>n\<close>, up to the first read that returns 0.\<close>

fun received :: "raw_state \<Rightarrow> nat \<Rightarrow> u32 \<Rightarrow> read_round list \<Rightarrow> u8 list list outcome" where
  "received raw 0 t rs = Return []"
| "received raw (Suc n) t rs =
     bind_outcome (grnvs_read raw 1514 (Some t) rs) (\<lambda>r.
       if ret r = 0 then Return []
       else bind_outcome (received raw n (the (timeout_left r)) (rounds_left r)) (\<lambda>fs. Return (data r # fs)))"

text \<open>The contents of the buffer after each of the frames.\<close>

fun buffers :: "u8 list \<Rightarrow> u8 list list \<Rightarrow> u8 list list" where
  "buffers buf [] = []"
| "buffers buf (f # fs) = fill f buf # buffers (fill f buf) fs"

definition accounted :: "u8 list \<Rightarrow> u8 list list \<Rightarrow> (u16 \<times> u32) list" where
  "accounted buf fs = zip (map ether_type (buffers buf fs)) (map (\<lambda>f. of_nat (length f)) fs)"

lemma accounted_simps [simp]:
  "accounted buf [] = []"
  "accounted buf (f # fs) = (ether_type (fill f buf), of_nat (length f)) # accounted (fill f buf) fs"
  by (simp_all add: accounted_def)

lemma length_fill [simp]: "length d \<le> length buf \<Longrightarrow> length (fill d buf) = length buf"
  by (simp add: fill_def)

lemma received_lengths:
  "received raw n t rs = Return fs \<Longrightarrow> length fs \<le> n \<and> (\<forall>f \<in> set fs. 0 < length f \<and> length f \<le> 1514)"
proof (induction n arbitrary: t rs fs)
  case (Suc n)
  then obtain r where r: "grnvs_read raw 1514 (Some t) rs = Return r" by auto
  show ?case
  proof (cases "ret r = 0")
    case True
    with Suc.prems r show ?thesis by simp
  next
    case False
    then obtain gs where gs: "received raw n (the (timeout_left r)) (rounds_left r) = Return gs" "fs = data r # gs"
      using Suc.prems r by auto
    with Suc.IH [OF gs(1)] grnvs_read_length [OF r] False show ?thesis by simp
  qed
qed simp

text \<open>The loop counts what is received, in the buffers the frames end up in.\<close>

lemma count_frame_eq:
  assumes "length (recbuffer s) = 1514" and "length mymac = 6"
  shows "count_frame mymac n s =
    map_option (\<lambda>t. s\<lparr>table := t,
      myFrames := myFrames s + of_bool (take 6 (recbuffer s) = mymac),
      multiCastFrames := multiCastFrames s + of_bool (odd (unat (recbuffer s ! 0))),
      totalByte := totalByte s + n\<rparr>) (account_frame (ether_type (recbuffer s)) n (table s))"
proof -
  have "ucast (getType (recbuffer s)) = ether_type (recbuffer s)"
    using assms(1) by (intro getType_ether_type) simp
  moreover have "getMac (recbuffer s) 0 = take 6 (recbuffer s)" "take 6 (recbuffer s) ! 0 = recbuffer s ! 0"
    by (simp_all add: getMac_def ETH_ALEN_def)
  moreover have "macsEqual mymac (take 6 (recbuffer s)) \<noteq> 0 \<longleftrightarrow> take 6 (recbuffer s) = mymac"
    using macsEqual_iff [OF assms(2), of "take 6 (recbuffer s)"] assms(1) by auto
  ultimately show ?thesis
    using isMulticast_iff [of "recbuffer s ! 0"]
    by (cases "account_frame (ether_type (recbuffer s)) n (table s)") (simp_all add: count_frame_def Let_def)
qed

definition mine :: "u8 list \<Rightarrow> u8 list list \<Rightarrow> nat" where
  "mine mymac bufs = length (filter (\<lambda>b. take 6 b = mymac) bufs)"

definition multicasts :: "u8 list list \<Rightarrow> nat" where
  "multicasts bufs = length (filter (\<lambda>b. odd (unat (b ! 0))) bufs)"

text \<open>The statistics after a frame has been read into the buffer and counted, \<open>t\<close> the list then.\<close>

definition counted :: "u8 list \<Rightarrow> read_return \<Rightarrow> memory \<times> ptr \<Rightarrow> stats \<Rightarrow> stats" where
  "counted mymac r t s = (let b = fill (data r) (recbuffer s) in s\<lparr>recbuffer := b, timeout := the (timeout_left r), table := t,
      myFrames := myFrames s + of_bool (take 6 b = mymac),
      multiCastFrames := multiCastFrames s + of_bool (odd (unat (b ! 0))),
      totalByte := totalByte s + of_nat (length (data r))\<rparr>)"

text \<open>The counters of \<open>s'\<close> are those of \<open>s\<close> and the frames \<open>fs\<close>.\<close>

definition counts :: "u8 list \<Rightarrow> u8 list \<Rightarrow> u8 list list \<Rightarrow> stats \<Rightarrow> stats \<Rightarrow> bool" where
  "counts mymac stack fs s s' \<longleftrightarrow>
     myFrames s' = myFrames s + of_nat (mine mymac (buffers stack fs)) \<and>
     multiCastFrames s' = multiCastFrames s + of_nat (multicasts (buffers stack fs)) \<and>
     totalByte s' = totalByte s + of_nat (sum_list (map length fs))"

lemma receive_loop_step:
  assumes "grnvs_read raw 1514 (Some (timeout s)) rs = Return r" and "ret r \<noteq> 0"
    and "length (recbuffer s) = 1514" and "length mymac = 6"
  shows "receive_loop raw mymac (Suc n) rs s =
    (case account_frame (ether_type (fill (data r) (recbuffer s))) (of_nat (length (data r))) (table s) of
       None \<Rightarrow> Undefined
     | Some t \<Rightarrow> receive_loop raw mymac n (rounds_left r) (counted mymac r t s))"
proof -
  have len: "ret r = int (length (data r))" "length (data r) \<le> 1514"
    using grnvs_read_length [OF assms(1)] by auto
  have buf: "length (recbuffer (read_into r s)) = 1514" "recbuffer (read_into r s) = fill (data r) (recbuffer s)"
    using assms(3) len(2) by (simp_all add: read_into_def)
  show ?thesis
    using assms(1,2) len(1) count_frame_eq [OF buf(1) assms(4)]
    by (simp add: Let_def counted_def buf(2) read_into_def split: option.split)
qed

text \<open>What one run of the loop body and the rest of the loop add to the counters is what both add together.\<close>

lemma counts_counted:
  assumes "counts mymac (fill (data r) (recbuffer s)) gs (counted mymac r t s) s'"
  shows "counts mymac (recbuffer s) (data r # gs) s s'"
  using assms by (auto simp: counts_def counted_def Let_def mine_def multicasts_def)

lemma receive_loop_counts:
  assumes "received raw n (timeout s) rs = Return fs"
    and "length (recbuffer s) = 1514" and "length mymac = 6"
  shows "case account_all account_frame (accounted (recbuffer s) fs) (table s) of
      None \<Rightarrow> receive_loop raw mymac n rs s = Undefined
    | Some t \<Rightarrow> \<exists>s' rs'. receive_loop raw mymac n rs s = Return (s', rs') \<and> table s' = t \<and>
        counts mymac (recbuffer s) fs s s'"
  using assms(1,2)
proof (induction n arbitrary: s rs fs)
  case 0
  then show ?case by (simp add: counts_def mine_def multicasts_def)
next
  case (Suc n)
  then obtain r where r: "grnvs_read raw 1514 (Some (timeout s)) rs = Return r" by auto
  show ?case
  proof (cases "ret r = 0")
    case True
    with Suc.prems r show ?thesis by (simp add: read_into_def Let_def counts_def mine_def multicasts_def)
  next
    case False
    obtain gs where gs: "received raw n (the (timeout_left r)) (rounds_left r) = Return gs" "fs = data r # gs"
      using Suc.prems(1) r False by auto
    have "length (data r) \<le> 1514" using grnvs_read_length [OF r] by auto
    then have counted: "recbuffer (counted mymac r t s) = fill (data r) (recbuffer s)"
      "length (fill (data r) (recbuffer s)) = 1514"
      "timeout (counted mymac r t s) = the (timeout_left r)" "table (counted mymac r t s) = t" for t
      using Suc.prems(2) by (simp_all add: counted_def Let_def)
    show ?thesis
    proof (cases "account_frame (ether_type (fill (data r) (recbuffer s))) (of_nat (length (data r))) (table s)")
      case None
      then show ?thesis using receive_loop_step [OF r False Suc.prems(2) assms(3)] gs(2) by simp
    next
      case (Some t)
      then have "receive_loop raw mymac (Suc n) rs s =
          receive_loop raw mymac n (rounds_left r) (counted mymac r t s)"
        using receive_loop_step [OF r False Suc.prems(2) assms(3)] by simp
      then show ?thesis
        using Suc.IH [of "counted mymac r t s" "rounds_left r" gs] gs Some
        by (auto simp: counted simp del: receive_loop.simps intro: counts_counted split: option.splits)
    qed
  qed
qed

section \<open>The report\<close>

definition report :: "(u16 \<times> u32) list \<Rightarrow> u8 list \<Rightarrow> u8 list list \<Rightarrow> line list" where
  "report evs mymac bufs =
     map (\<lambda>t. Info t (frames_of t evs) (bytes_of t evs)) (sorted_list_of_set (fst ` set evs)) @
     [ForMe (of_nat (mine mymac bufs)), Multicast (of_nat (multicasts bufs))]"

lemma info_lines:
  assumes "map fst ys = ts" and "\<forall>(t, f, b) \<in> set ys. f = frames_of t evs \<and> b = bytes_of t evs"
  shows "map info_line ys = map (\<lambda>t. Info t (frames_of t evs) (bytes_of t evs)) ts"
  using assms(2) unfolding assms(1) [symmetric]
  by (auto simp: info_line_def split: prod.splits)

lemma assignment2_reports:
  assumes "grnvs_get_hwaddr raw = Some mymac" and "length mymac = 6" and "length stack = 1514"
    and "received raw (nat n) 10000 rs = Return fs" and "cells m = Map.empty"
    and "card (fst ` set (accounted stack fs)) \<le> avail m"
  shows "\<exists>m'. assignment2 raw n stack m rs =
      Return (report (accounted stack fs) mymac (buffers stack fs), of_nat (sum_list (map length fs)), m', None) \<and>
    cells m' = Map.empty"
proof -
  let ?evs = "accounted stack fs"
  have "info_rep (fst (m, None)) (snd (m, None)) []" using assms(5) by (simp add: info_rep_Nil)
  from infos.traffic_report [OF this, of ?evs] assms(6) obtain t1 t2 ys where
    t: "account_all account_frame ?evs (m, None) = Some t1"
      "drain (\<lambda>t. snd t = None) pop_min_info t1 [] = Some (ys, t2)" "info_rep (fst t2) (snd t2) []"
    and ys: "map fst ys = sorted_list_of_set (fst ` set ?evs)"
      "\<forall>(t, f, b) \<in> set ys. f = frames_of t ?evs \<and> b = bytes_of t ?evs"
    by (auto simp del: split_paired_Ex split_paired_All)
  obtain s' rs' where s': "receive_loop raw mymac (nat n) rs (stats_init stack m) = Return (s', rs')"
    "table s' = t1" "myFrames s' = of_nat (mine mymac (buffers stack fs))"
    "multiCastFrames s' = of_nat (multicasts (buffers stack fs))"
    "totalByte s' = of_nat (sum_list (map length fs))"
    using receive_loop_counts [of raw "nat n" "stats_init stack m" rs fs mymac] assms t(1)
    by (auto simp: stats_init_def counts_def)
  have "snd t2 = None" using info_rep_NULL [OF t(3)] by simp
  then have t2: "t2 = (fst t2, None)" "cells (fst t2) = Map.empty"
    using t(3) info_rep_Nil [of "fst t2"] by (auto simp: prod_eq_iff)
  have "summary s' = Some (report ?evs mymac (buffers stack fs), totalByte s', t2)"
    using t(2) s' info_lines [OF ys] by (simp add: summary_def report_def)
  then have "assignment2 raw n stack m rs =
      Return (report ?evs mymac (buffers stack fs), of_nat (sum_list (map length fs)), t2)"
    using assms(1) s' by (simp add: assignment2_def)
  with t2 show ?thesis by metis
qed

lemma buffers_full_frames:
  assumes "\<forall>f \<in> set fs. 14 \<le> length f"
  shows "map ether_type (buffers buf fs) = map ether_type fs" and
    "mine mymac (buffers buf fs) = mine mymac fs" and "multicasts (buffers buf fs) = multicasts fs"
  using assms
  by (induction fs arbitrary: buf)
    (auto simp: mine_def multicasts_def fill_def ether_type_def nth_append)

section \<open>Properties\<close>

definition frame_events :: "u8 list list \<Rightarrow> (u16 \<times> u32) list" where
  "frame_events fs = map (\<lambda>f. (ether_type f, of_nat (length f))) fs"

lemma accounted_full_frames:
  "\<forall>f \<in> set fs. 14 \<le> length f \<Longrightarrow> accounted buf fs = frame_events fs"
  by (simp add: accounted_def frame_events_def buffers_full_frames zip_map_map zip_same_conv_map)

lemma card_events: "card (fst ` set evs) \<le> length evs"
  using card_image_le [of "set evs" fst] card_length [of evs] by (simp add: le_trans)

text \<open>
  The report of \<open>ethstats\<close> is exact. Whatever the reads deliver (up to NUM frames, each with
  a full Ethernet header, until a read times out), the program prints one line for each type
  seen, in increasing order of the type, with the number of its frames and bytes, then the
  number of frames addressed to the interface and the number with a multicast address, and
  computes the rate from the total number of bytes (all modulo \<open>2 ^ 32\<close>). Afterwards every
  block of the list has been freed. The only resource needed is one block for each type.
\<close>

theorem assignment2_exact:
  assumes "grnvs_get_hwaddr raw = Some mymac" and "length mymac = 6" and "length stack = 1514"
    and "received raw (nat n) 10000 rs = Return fs" and "\<forall>f \<in> set fs. 14 \<le> length f"
    and "cells m = Map.empty" and "card (ether_type ` set fs) \<le> avail m"
  shows "\<exists>m'. cells m' = Map.empty \<and> assignment2 raw n stack m rs = Return (
      map (\<lambda>t. Info t (of_nat (length (filter (\<lambda>f. ether_type f = t) fs)))
          (of_nat (sum_list (map length (filter (\<lambda>f. ether_type f = t) fs)))))
        (sorted_list_of_set (ether_type ` set fs)) @
      [ForMe (of_nat (length (filter (\<lambda>f. take 6 f = mymac) fs))),
       Multicast (of_nat (length (filter (\<lambda>f. odd (unat (f ! 0))) fs)))],
      of_nat (sum_list (map length fs)), m', None)"
proof -
  let ?evs = "frame_events fs"
  have evs: "fst ` set ?evs = ether_type ` set fs" by (force simp: frame_events_def)
  have "frames_of t ?evs = of_nat (length (filter (\<lambda>f. ether_type f = t) fs))" for t
    by (simp add: frames_of_def frame_events_def filter_map comp_def)
  moreover have "bytes_of t ?evs = of_nat (sum_list (map length (filter (\<lambda>f. ether_type f = t) fs)))" for t
    by (induction fs) (auto simp: bytes_of_def frame_events_def)
  moreover have "mine mymac (buffers stack fs) = length (filter (\<lambda>f. take 6 f = mymac) fs)"
    "multicasts (buffers stack fs) = length (filter (\<lambda>f. odd (unat (f ! 0))) fs)"
    unfolding buffers_full_frames [OF assms(5)] by (simp_all add: mine_def multicasts_def)
  ultimately show ?thesis
    using assignment2_reports [OF assms(1-4,6)] assms(7) evs
    by (auto simp: accounted_full_frames [OF assms(5)] report_def)
qed

definition example_frame :: "u8 \<Rightarrow> u8 list" where
  "example_frame t = [2, 0, 0, 0, 0, 1] @ zeros 6 @ [8, t]"

definition example_rounds :: "u8 list list \<Rightarrow> read_round list" where
  "example_rounds fs = map (\<lambda>f. example_round 2000000 Sel_ready (Rd_data f)) fs"

definition example_memory :: "nat \<Rightarrow> memory" where
  "example_memory k = \<lparr>cells = Map.empty, brk = 0, avail = k\<rparr>"

lemma example_read:
  assumes "length f \<le> 1514" and "t \<in> {10000, 9998}"
  shows "grnvs_read (example_state SOCK_RAW) 1514 (Some t) (example_rounds (f # fs)) =
    Return \<lparr>ret = int (length f), data = f, timeout_left = Some (t - 2), rounds_left = example_rounds fs\<rparr>"
  using assms
  by (auto simp: example_rounds_def grnvs_read_def example_state_def example_round_def
      timespecmset_def timespecsub_def signed_divide_int_def SOCK_DGRAM_def SOCK_RAW_def)

lemma example_received:
  assumes "f \<noteq> []" and "g \<noteq> []" and "length f \<le> 1514" and "length g \<le> 1514"
  shows "received (example_state SOCK_RAW) (Suc (Suc 0)) 10000 (example_rounds [f, g]) = Return [f, g]"
  using assms by (simp add: example_read)

lemma example_hwaddr: "grnvs_get_hwaddr (example_state SOCK_RAW) = Some [2, 0, 0, 0, 0, 1]"
  by (simp add: grnvs_get_hwaddr_def example_state_def)

theorem assignment2_exact_witness:
  "\<exists>m'. assignment2 (example_state SOCK_RAW) 2 (zeros 1514) (example_memory 2)
      (example_rounds [example_frame 6, example_frame 0]) =
    Return ([Info 0x800 1 14, Info 0x806 1 14, ForMe 2, Multicast 0], 28, m', None)"
proof -
  let ?fs = "[example_frame 6, example_frame 0]"
  have types: "ether_type (example_frame 6) = 0x806" "ether_type (example_frame 0) = 0x800"
    by (simp_all add: ether_type_def example_frame_def nth_append)
  have "received (example_state SOCK_RAW) (nat 2) 10000 (example_rounds ?fs) = Return ?fs"
    unfolding nat_numeral numeral_2_eq_2 by (rule example_received) (simp_all add: example_frame_def)
  from assignment2_exact [OF example_hwaddr _ _ this, of "zeros 1514" "example_memory 2"]
  show ?thesis
    by (auto simp: types example_memory_def)
      (auto simp: example_frame_def)
qed

text \<open>
  Nothing checks the result of \<open>newInfo\<close>: if the frames have more types than \<open>malloc\<close> has
  blocks, the program writes through a NULL pointer; there is no partial report.
\<close>

theorem assignment2_malloc_failure:
  assumes "grnvs_get_hwaddr raw = Some mymac" and "length mymac = 6" and "length stack = 1514"
    and "received raw (nat n) 10000 rs = Return fs" and "\<forall>f \<in> set fs. 14 \<le> length f"
    and "cells m = Map.empty" and "avail m < card (ether_type ` set fs)"
  shows "assignment2 raw n stack m rs = Undefined"
proof -
  have rep: "info_rep (fst (m, None)) (snd (m, None)) []" using assms(6) by (simp add: info_rep_Nil)
  have "fst ` set (frame_events fs) = ether_type ` set fs" by (force simp: frame_events_def)
  then have "account_all account_frame (accounted stack fs) (m, None) = None"
    using infos.account_all_full [OF rep, of "frame_events fs"] assms(7)
    by (simp add: accounted_full_frames [OF assms(5)])
  then show ?thesis
    using receive_loop_counts [of raw "nat n" "stats_init stack m" rs fs mymac] assms(1-4)
    by (simp add: stats_init_def assignment2_def)
qed

theorem assignment2_malloc_failure_witness:
  "assignment2 (example_state SOCK_RAW) 2 (zeros 1514) (example_memory 1)
    (example_rounds [example_frame 6, example_frame 0]) = Undefined"
proof -
  let ?fs = "[example_frame 6, example_frame 0]"
  have "ether_type (example_frame 6) = 0x806" "ether_type (example_frame 0) = 0x800"
    by (simp_all add: ether_type_def example_frame_def nth_append)
  then have "card (ether_type ` set ?fs) = 2" by simp
  moreover have "received (example_state SOCK_RAW) (nat 2) 10000 (example_rounds ?fs) = Return ?fs"
    unfolding nat_numeral numeral_2_eq_2 by (rule example_received) (simp_all add: example_frame_def)
  ultimately show ?thesis
    using assignment2_malloc_failure [OF example_hwaddr, of "zeros 1514" 2 "example_rounds ?fs" ?fs "example_memory 1"]
    by (simp add: example_memory_def) (simp add: example_frame_def)
qed

text \<open>
  A frame without a full header is classified by what an earlier frame left in the buffer:
  a frame of at most 12 bytes that follows a full frame is counted under the type of that
  frame, and one of less than 6 bytes that starts like the interface's address even counts as
  addressed to it when the earlier frame was.
\<close>

theorem assignment2_short_frame:
  assumes "grnvs_get_hwaddr raw = Some mymac" and "length mymac = 6" and "length stack = 1514"
    and "received raw (nat n) 10000 rs = Return [f, g]" and "14 \<le> length f" and "length g \<le> 12"
    and "cells m = Map.empty" and "0 < avail m"
  shows "\<exists>mc m'. assignment2 raw n stack m rs = Return (
      [Info (ether_type f) 2 (of_nat (length f + length g)),
       ForMe (of_bool (take 6 f = mymac) + of_bool (take 6 (g @ drop (length g) f) = mymac)), mc],
      of_nat (length f + length g), m', None)"
proof -
  have len: "g \<noteq> []" "length f \<le> 1514"
    using received_lengths [OF assms(4)] by auto
  have drop: "drop (length g) (f @ xs) = drop (length g) f @ xs" for xs
    using assms(5,6) by simp
  have "12 - length g < length f - length g" "13 - length g < length f - length g"
    using assms(5,6) by simp_all
  then have types: "ether_type (fill f stack) = ether_type f"
    "ether_type (fill g (fill f stack)) = ether_type f"
    using assms(5,6) by (simp_all add: ether_type_def fill_def nth_append)
  have macs: "take 6 (fill f stack) = take 6 f"
    "take 6 (fill g (fill f stack)) = take 6 (g @ drop (length g) f)"
    using assms(5,6) by (simp_all add: fill_def drop)
  have "accounted stack [f, g] = [(ether_type f, of_nat (length f)), (ether_type f, of_nat (length g))]"
    by (simp add: types)
  then show ?thesis
    using assignment2_reports [OF assms(1-4,7)] assms(8) macs
    by (auto simp: report_def frames_of_def bytes_of_def mine_def)
qed

theorem assignment2_short_frame_witness:
  "\<exists>mc m'. assignment2 (example_state SOCK_RAW) 2 (zeros 1514) (example_memory 1)
      (example_rounds [example_frame 6, [2]]) =
    Return ([Info 0x806 2 15, ForMe 2, mc], 15, m', None)"
proof -
  have "received (example_state SOCK_RAW) (nat 2) 10000 (example_rounds [example_frame 6, [2]]) =
      Return [example_frame 6, [2]]"
    unfolding nat_numeral numeral_2_eq_2 by (rule example_received) (simp_all add: example_frame_def)
  moreover have "ether_type (example_frame 6) = 0x806"
    by (simp add: ether_type_def example_frame_def nth_append)
  ultimately show ?thesis
    using assignment2_short_frame [OF example_hwaddr, of "zeros 1514" 2 _ "example_frame 6" "[2]" "example_memory 1"]
    by (simp add: example_memory_def) (simp add: example_frame_def)
qed

text \<open>
  The settings of a command line: each way to write \<open>-i\<close> is an event that stores the interface.
\<close>

fun store_ethstats :: "argp_event \<Rightarrow> ethstats_args \<Rightarrow> ethstats_args" where
  "store_ethstats (Opt c v) a = a\<lparr>interface := v\<rparr>"
| "store_ethstats _ a = a"

lemma is_key_ethstats [simp]: "is_key options_ethstats c \<longleftrightarrow> c = CHR ''i''"
  by (simp add: is_key_def options_ethstats_def)

lemma parse_args_ethstats_items:
  assumes "\<forall>x \<in> set xs. item_ok options_ethstats x"
  shows "parse_args_ethstats (prog # command_words xs @ ws) =
      argp_parse parse_opt_ethstats (fst (getopt options_ethstats ws) @ map Arg (given_words xs @ snd (getopt options_ethstats ws))) 0
        (fold store_ethstats (given_options options_ethstats xs) \<lparr>interface = ''eth0'', frames = 10\<rparr>)"
proof -
  have "\<exists>c v. item_event options_ethstats x = Opt c v \<and>
      (\<forall>n a. parse_opt_ethstats (KEY_OPT c) v n a = (NO_ERROR, store_ethstats (Opt c v) a))"
    if "x \<in> set xs" "\<not> is_word x" for x
    using that assms item_option [of options_ethstats x] by (auto simp: parse_opt_ethstats_def)
  from ethstats_parser.argp_settings [OF assms this] show ?thesis by (simp add: parse_args_ethstats_def)
qed

lemma store_ethstats_frames [simp]: "frames (fold store_ethstats es a) = frames a"
proof (induction es arbitrary: a)
  case (Cons e es)
  then show ?case by (cases e) simp_all
qed simp

lemma parse_args_ethstats_int32: "parse_args_ethstats argv = Parsed args \<Longrightarrow> int32_frames args"
  unfolding parse_args_ethstats_def by (erule ethstats_parser.argp_inv [rotated]) simp

text \<open>
  The command line of \<open>ethstats\<close>, with \<open>-i\<close> written in any way and as often as one likes, before and
  after the other words: the last one counts, \<open>eth0\<close> without any. The number of frames is the low 32
  bits of the number given, read as a signed \<open>int\<close> (so a request of \<open>2 ^ 32\<close> frames reads none
  and one of \<open>2 ^ 31\<close> becomes negative), and 10 without a number; the empty string counts as 0, text
  after the number is an error, a second number a usage error. A negative number is only read
  behind \<open>--\<close>. The field stays in the range of an \<open>int\<close> for every command line.
\<close>

theorem ethstats_command_line:
  assumes "\<forall>x \<in> set xs. item_ok options_ethstats x"
    and "a = fold store_ethstats (given_options options_ethstats xs) \<lparr>interface = ''eth0'', frames = 10\<rparr>"
  shows "(given_words xs = [] \<longrightarrow> parse_args_ethstats (prog # command_words xs) = Parsed a) \<and>
   (given_words xs = [w] \<longrightarrow> parse_args_ethstats (prog # command_words xs) =
      (if snd (strtol w) = [] then Parsed (a\<lparr>frames := to_int32 (fst (strtol w))\<rparr>) else Parse_failed EINVAL)) \<and>
   (given_words xs = [v, w] \<longrightarrow> parse_args_ethstats (prog # command_words xs) =
      (if snd (strtol v) = [] then Usage_exit else Parse_failed EINVAL)) \<and>
   (given_words xs = [] \<and> in_long i \<longrightarrow>
      parse_args_ethstats (prog # command_words xs @ [''--'', dec_int i]) = Parsed (a\<lparr>frames := to_int32 i\<rparr>)) \<and>
   (parse_args_ethstats argv = Parsed args \<longrightarrow> int32_frames args)"
  using parse_args_ethstats_items [OF assms(1), of prog "[]"] parse_args_ethstats_int32 [of argv args]
    parse_args_ethstats_items [OF assms(1), of prog "[''--'', dec_int i]"]
  by (auto simp: assms(2) parse_opt_ethstats_def strtol_dec_int split: prod.splits)

theorem ethstats_command_line_witness:
  "parse_args_ethstats [''ethstats'', ''--int=lo'', ''4294967297'', ''-iwlan0''] = Parsed \<lparr>interface = ''wlan0'', frames = 1\<rparr>"
proof -
  let ?xs = "[Long_equals ''int'' ''lo'', Word ''4294967297'', Short_joined CHR ''i'' ''wlan0'']"
  have match: "long_match options_ethstats ''int'' = Some (Own CHR ''i'')"
    by (simp add: long_match_def long_options_def library_options_def options_ethstats_def)
  have "dec_int 4294967297 = ''4294967297''" by (simp add: c_eval)
  then have number: "strtol ''4294967297'' = (4294967297, [])"
    using strtol_dec_int [of 4294967297] by (simp add: in_long_def)
  have "\<forall>x \<in> set ?xs. item_ok options_ethstats x" by (simp add: match)
  moreover have "given_words ?xs = [''4294967297'']" by (simp add: given_words_def is_word_def)
  moreover have "command_words ?xs = [''--int=lo'', ''4294967297'', ''-iwlan0'']" by (simp add: command_words_def)
  moreover have "given_options options_ethstats ?xs = [Opt CHR ''i'' ''lo'', Opt CHR ''i'' ''wlan0'']"
    by (simp add: given_options_def is_word_def match)
  moreover have "to_int32 4294967297 = 1"
    by (simp add: to_int32_def signed_take_bit_eq_take_bit_minus take_bit_eq_mod bit_iff_odd)
  ultimately show ?thesis
    using ethstats_command_line [of ?xs _ "''ethstats''" "''4294967297''"] number by simp
qed

section \<open>The program\<close>

text \<open>The lines for the frames \<open>fs\<close>.\<close>

definition report_lines :: "u8 list \<Rightarrow> u8 list list \<Rightarrow> line list" where
  "report_lines mymac fs =
     map (\<lambda>t. Info t (of_nat (length (filter (\<lambda>f. ether_type f = t) fs)))
         (of_nat (sum_list (map length (filter (\<lambda>f. ether_type f = t) fs)))))
       (sorted_list_of_set (ether_type ` set fs)) @
     [ForMe (of_nat (length (filter (\<lambda>f. take 6 f = mymac) fs))),
      Multicast (of_nat (length (filter (\<lambda>f. odd (unat (f ! 0))) fs)))]"

lemma raw_init_inv: "raw_inv raw_init"
  using raw_reachable_inv [OF raw_reachable.start] by simp

text \<open>
  C8. The program from its command line to its exit. Options and words are read, the socket is
  opened on the interface of the last \<open>-i\<close>, as many frames are received as the word says (or fewer, until a
  read times out), and the lines printed are exactly those of the frames: for each type seen, in
  increasing order, the number of its frames and bytes, then the frames for the hardware address of that
  interface and the multicast frames, and the rate is computed from all bytes (all modulo \<open>2 ^ 32\<close>). The exit
  status is 0. The frames are assumed to have a full Ethernet header; the only resource needed is a
  block of memory for each type.
\<close>

theorem main_ethstats_report:
  assumes "\<forall>x \<in> set xs. item_ok options_ethstats x" and "given_words xs = [dec_int n]" and "0 \<le> n" and "n < 2 ^ 31"
    and "ifname = interface (fold store_ethstats (given_options options_ethstats xs) \<lparr>interface = ''eth0'', frames = 10\<rparr>)"
    and "wf_os os" and "grnvs_open os ifname SOCK_RAW raw_init = Return (sock, raw)"
    and "received raw (nat n) 10000 rs = Return fs" and "\<forall>f \<in> set fs. 14 \<le> length f" and "length stack = 1514"
    and "cells m = Map.empty" and "card (ether_type ` set fs) \<le> avail m"
  shows "main_ethstats (prog # command_words xs) os stack m rs closed =
      Return (report_lines (mac raw) fs, of_nat (sum_list (map length fs)), 0)"
proof -
  have "raw_inv raw" "0 < ifindex raw" using grnvs_open_inv [OF raw_init_inv assms(6,7)] by simp_all
  then have mac: "grnvs_get_hwaddr raw = Some (mac raw)" "length (mac raw) = 6"
    by (simp_all add: grnvs_get_hwaddr_def raw_inv_def)
  have n: "in_long n" "to_int32 n = n"
    using assms(3,4) by (simp_all add: in_long_def to_int32_id)
  then have args: "parse_args_ethstats (prog # command_words xs) =
      Parsed ((fold store_ethstats (given_options options_ethstats xs) \<lparr>interface = ''eth0'', frames = 10\<rparr>)\<lparr>frames := n\<rparr>)"
    using parse_args_ethstats_items [OF assms(1), of prog "[]"] strtol_dec_int [of n]
    by (simp add: assms(2) parse_opt_ethstats_def)
  obtain m' where "assignment2 raw n stack m rs =
      Return (report_lines (mac raw) fs, of_nat (sum_list (map length fs)), m', None)"
    using assignment2_exact [OF mac assms(10,8,9,11,12)] by (auto simp: report_lines_def)
  then show ?thesis
    using args assms(5,7) by (simp add: main_ethstats_def grnvs_close_def)
qed

theorem main_ethstats_report_witness:
  "main_ethstats [''ethstats'', ''2'', ''-ieth0''] example_os (zeros 1514) (example_memory 2)
      (example_rounds [example_frame 6, example_frame 0]) 0 =
    Return ([Info 0x800 1 14, Info 0x806 1 14, ForMe 2, Multicast 0], 28, 0)"
proof -
  let ?fs = "[example_frame 6, example_frame 0]" and ?xs = "[Word ''2'', Short_joined CHR ''i'' ''eth0'']"
  have types: "ether_type (example_frame 6) = 0x806" "ether_type (example_frame 0) = 0x800"
    by (simp_all add: ether_type_def example_frame_def nth_append)
  have received: "received (example_state SOCK_RAW) (nat 2) 10000 (example_rounds ?fs) = Return ?fs"
    unfolding nat_numeral numeral_2_eq_2 by (rule example_received) (simp_all add: example_frame_def)
  have two: "dec_int 2 = ''2''" by (simp add: c_eval)
  have full: "\<forall>f \<in> set ?fs. 14 \<le> length f" by (simp add: example_frame_def)
  have lines: "report_lines [2, 0, 0, 0, 0, 1] ?fs = [Info 0x800 1 14, Info 0x806 1 14, ForMe 2, Multicast 0]"
    by (simp add: report_lines_def types) (simp add: example_frame_def)
  have mac: "mac (example_state SOCK_RAW) = [2, 0, 0, 0, 0, 1]" by (simp add: example_state_def)
  have bytes: "sum_list (map length ?fs) = 28" by (simp add: example_frame_def)
  have "main_ethstats (''ethstats'' # command_words ?xs) example_os (zeros 1514) (example_memory 2) (example_rounds ?fs) 0 =
      Return (report_lines (mac (example_state SOCK_RAW)) ?fs, of_nat (sum_list (map length ?fs)), 0)"
  proof (rule main_ethstats_report [where n = 2 and ifname = "''eth0''" and fs = ?fs])
    show "grnvs_open example_os ''eth0'' SOCK_RAW raw_init = Return (3, example_state SOCK_RAW)"
      by (rule example_open) simp
    show "card (ether_type ` set ?fs) \<le> avail (example_memory 2)" by (simp add: types example_memory_def)
    show "received (example_state SOCK_RAW) (nat 2) 10000 (example_rounds ?fs) = Return ?fs" by (rule received)
  qed (use full in \<open>simp_all add: two wf_example_os example_memory_def\<close>)
  then show ?thesis unfolding mac bytes lines by simp
qed

end
