(* ===== verification/EthRate.thy ===== *)
theory EthRate
  imports EthStats Complex_Main
begin

text \<open>
  The rate \<open>ethstats\<close> prints in its last line: the floating point variable \<open>totalTime\<close> of
  \<open>assignment2/src/assignment2.c\<close>, summed up over the reads, and the four quotients. A finite
  \<open>double\<close> is a real number, and every operation rounds its exact result with \<open>rnd\<close>; \<open>standard\<close> is
  what IEEE 754 promises of a rounding, with \<open>u = 2\<^sup>-\<^sup>5\<^sup>3\<close> for \<open>double\<close>. The numbers of this
  program stay far from the ends of the range of \<open>double\<close>.
\<close>

section \<open>The code\<close>

datatype fp = Finite real | Inf_fp | NaN

fun fp_map :: "(real \<Rightarrow> real) \<Rightarrow> fp \<Rightarrow> fp" where
  "fp_map f (Finite x) = Finite (f x)"
| "fp_map f y = y"

text \<open>Division of a number that is not negative.\<close>

definition fp_div :: "(real \<Rightarrow> real) \<Rightarrow> real \<Rightarrow> real \<Rightarrow> fp" where
  "fp_div rnd x y = (if y \<noteq> 0 then Finite (rnd (x / y)) else if x = 0 then NaN else Inf_fp)"

text \<open>\<open>(double)t.tv_sec + 1.0e-9 * t.tv_nsec\<close>\<close>

definition seconds :: "(real \<Rightarrow> real) \<Rightarrow> timespec \<Rightarrow> real" where
  "seconds rnd t = rnd (rnd (of_int (tv_sec t)) + rnd (rnd (1 / 1000000000) * rnd (of_int (tv_nsec t))))"

definition add_time :: "(real \<Rightarrow> real) \<Rightarrow> timespec \<Rightarrow> timespec \<Rightarrow> real \<Rightarrow> real" where
  "add_time rnd begin_t end_t totalTime = rnd (totalTime + rnd (seconds rnd end_t - seconds rnd begin_t))"

text \<open>
  The loop once more, as far as \<open>totalTime\<close> goes: \<open>clock i\<close> is what the two calls of
  \<open>clock_gettime\<close> around read \<open>i\<close> store. A read that times out counts as well.
\<close>

fun time_loop ::
  "(real \<Rightarrow> real) \<Rightarrow> (nat \<Rightarrow> timespec \<times> timespec) \<Rightarrow> raw_state \<Rightarrow> nat \<Rightarrow> nat \<Rightarrow> u32 \<Rightarrow> read_round list \<Rightarrow> real \<Rightarrow> real outcome" where
  "time_loop rnd clock raw i 0 t rs totalTime = Return totalTime"
| "time_loop rnd clock raw i (Suc n) t rs totalTime =
     bind_outcome (grnvs_read raw 1514 (Some t) rs) (\<lambda>r.
       let totalTime = add_time rnd (fst (clock i)) (snd (clock i)) totalTime
       in if ret r = 0 then Return totalTime
          else time_loop rnd clock raw (Suc i) n (the (timeout_left r)) (rounds_left r) totalTime)"

text \<open>The four arguments of the last \<open>fprintf\<close>: Mbit/s, MiB/s, kB/s and Kibit/s.\<close>

definition rates :: "(real \<Rightarrow> real) \<Rightarrow> u32 \<Rightarrow> real \<Rightarrow> fp list" where
  "rates rnd bytes totalTime = (let q = fp_div rnd (rnd (of_nat (unat bytes))) totalTime in
     [fp_map (\<lambda>x. rnd (rnd (x * 8) / 10 ^ 6)) q,
      fp_map (\<lambda>x. rnd (x / 2 ^ 20)) q,
      fp_map (\<lambda>x. rnd (x / 1000)) q,
      fp_map (\<lambda>x. rnd (rnd (x * 8) / 2 ^ 10)) q])"

definition assignment2_rates ::
  "(real \<Rightarrow> real) \<Rightarrow> (nat \<Rightarrow> timespec \<times> timespec) \<Rightarrow> raw_state \<Rightarrow> int \<Rightarrow> u8 list \<Rightarrow> memory \<Rightarrow> read_round list \<Rightarrow>
    (line list \<times> fp list \<times> memory \<times> ptr) outcome" where
  "assignment2_rates rnd clock raw n stack m rs =
     bind_outcome (assignment2 raw n stack m rs) (\<lambda>(out, bytes, heap).
     bind_outcome (time_loop rnd clock raw 0 (nat n) 10000 rs 0) (\<lambda>totalTime.
     Return (out, rates rnd bytes totalTime, heap)))"

section \<open>Rounding\<close>

definition standard :: "real \<Rightarrow> (real \<Rightarrow> real) \<Rightarrow> bool" where
  "standard u rnd \<longleftrightarrow> (\<forall>x. \<bar>rnd x - x\<bar> \<le> u * \<bar>x\<bar>)"

text \<open>\<open>x\<close> is \<open>y\<close> up to \<open>k\<close> roundings.\<close>

definition close_to :: "real \<Rightarrow> nat \<Rightarrow> real \<Rightarrow> real \<Rightarrow> bool" where
  "close_to u k y x \<longleftrightarrow> (1 - u) ^ k * y \<le> x \<and> x \<le> (1 + u) ^ k * y"

lemma close_to_exact: "close_to u 0 y y"
  by (simp add: close_to_def)

lemma close_to_times: "close_to u k y x \<Longrightarrow> 0 \<le> c \<Longrightarrow> close_to u k (y * c) (x * c)"
  by (auto simp: close_to_def mult.assoc [symmetric] intro: mult_right_mono)

lemma close_to_divide: "close_to u k y x \<Longrightarrow> 0 < c \<Longrightarrow> close_to u k (y / c) (x / c)"
  using close_to_times [of u k y x "1 / c"] by simp

lemma close_to_rnd:
  assumes "standard u rnd" and "0 \<le> u" and "u < 1" and "0 \<le> y" and "close_to u k y x"
  shows "close_to u (Suc k) y (rnd x)"
proof -
  have "0 \<le> x" using assms(2-5) by (auto simp: close_to_def intro: order_trans [rotated] mult_nonneg_nonneg)
  then have rnd: "(1 - u) * x \<le> rnd x" "rnd x \<le> (1 + u) * x"
    using spec [OF assms(1) [unfolded standard_def], of x] by (simp_all add: abs_le_iff algebra_simps)
  have "(1 - u) * ((1 - u) ^ k * y) \<le> (1 - u) * x" "(1 + u) * x \<le> (1 + u) * ((1 + u) ^ k * y)"
    using assms(2,3,5) by (auto simp: close_to_def intro: mult_left_mono)
  then show ?thesis using rnd by (auto simp: close_to_def mult.assoc intro: order_trans)
qed

section \<open>Accuracy\<close>

lemma close_to_weaken:
  assumes "close_to u k y x" and "0 \<le> u" and "u < 1" and "0 \<le> y"
  shows "close_to u (Suc k) y x"
proof -
  have "0 \<le> u * ((1 - u) ^ k * y)" "0 \<le> u * ((1 + u) ^ k * y)"
    using assms(2-4) by (auto intro!: mult_nonneg_nonneg)
  then have "(1 - u) * ((1 - u) ^ k * y) \<le> (1 - u) ^ k * y" "(1 + u) ^ k * y \<le> (1 + u) * ((1 + u) ^ k * y)"
    by (simp_all add: algebra_simps)
  then show ?thesis using assms(1) by (simp add: close_to_def mult.assoc)
qed

lemma rates_close:
  assumes "standard u rnd" and "0 \<le> u" and "u < 1" and "0 < t"
  shows "\<exists>vs. rates rnd b t = map Finite vs \<and>
    list_all2 (\<lambda>v k. close_to u 4 (of_nat (unat b) / t * k) v) vs [8 / 10 ^ 6, 1 / 2 ^ 20, 1 / 1000, 8 / 2 ^ 10]"
proof -
  let ?b = "of_nat (unat b) :: real"
  let ?q = "rnd (rnd ?b / t)"
  note rnd = close_to_rnd [OF assms(1-3)]
  have nonneg: "0 \<le> ?b / t * k" if "0 \<le> k" for k
    by (intro mult_nonneg_nonneg divide_nonneg_pos of_nat_0_le_iff assms(4) that)
  have "close_to u 1 ?b (rnd ?b)"
    using rnd [OF of_nat_0_le_iff close_to_exact] unfolding One_nat_def .
  then have q: "close_to u 2 (?b / t) ?q"
    unfolding numeral_2_eq_2 One_nat_def by (intro rnd close_to_divide assms(4) divide_nonneg_pos of_nat_0_le_iff close_to_exact)
  then have q8: "close_to u 3 (?b / t * 8) (rnd (?q * 8))"
    using rnd [OF nonneg close_to_times [OF q], of 8] by (simp add: numeral_3_eq_3)
  have eight: "close_to u 4 (?b / t * (8 / c)) (rnd (rnd (?q * 8) / c))" if "0 < c" for c
    using rnd [OF _ close_to_divide [OF q8 that]] nonneg [of "8 / c"] that by (simp add: eval_nat_numeral)
  have one: "close_to u 4 (?b / t * (1 / c)) (rnd (?q / c))" if "0 < c" for c
    using close_to_weaken [OF rnd [OF _ close_to_divide [OF q that]] assms(2,3)] nonneg [of "1 / c"] that
    by (simp add: eval_nat_numeral)
  have "rates rnd b t = map Finite [rnd (rnd (?q * 8) / 10 ^ 6), rnd (?q / 2 ^ 20), rnd (?q / 1000), rnd (rnd (?q * 8) / 2 ^ 10)]"
    using assms(4) by (simp add: rates_def fp_div_def Let_def)
  moreover have "list_all2 (\<lambda>v k. close_to u 4 (?b / t * k) v)
      [rnd (rnd (?q * 8) / 10 ^ 6), rnd (?q / 2 ^ 20), rnd (?q / 1000), rnd (rnd (?q * 8) / 2 ^ 10)]
      [8 / 10 ^ 6, 1 / 2 ^ 20, 1 / 1000, 8 / 2 ^ 10]"
    unfolding list_all2_Cons by (intro conjI eight one list_all2_Nil [THEN iffD2]) simp_all
  ultimately show ?thesis by blast
qed

text \<open>The time without rounding: all reads that were made, one that timed out included.\<close>

definition reads_made :: "nat \<Rightarrow> u8 list list \<Rightarrow> nat" where
  "reads_made n fs = (if length fs < n then Suc (length fs) else n)"

definition spent :: "(nat \<Rightarrow> timespec \<times> timespec) \<Rightarrow> nat \<Rightarrow> real" where
  "spent clock i = of_int (nsecs (snd (clock i)) - nsecs (fst (clock i))) / 1000000000"

lemma add_time_exact: "add_time (\<lambda>x. x) (fst (clock i)) (snd (clock i)) s = s + spent clock i"
  by (simp add: add_time_def seconds_def spent_def nsecs_def field_simps)

lemma time_loop_exact:
  assumes "received raw n t rs = Return fs"
  shows "time_loop (\<lambda>x. x) clock raw i n t rs s =
    Return (s + (\<Sum>j = i..<i + reads_made n fs. spent clock j))"
  using assms
proof (induction n arbitrary: i t rs fs s)
  case 0
  then show ?case by (simp add: reads_made_def)
next
  case (Suc n)
  then obtain r where r: "grnvs_read raw 1514 (Some t) rs = Return r" by auto
  show ?case
  proof (cases "ret r = 0")
    case True
    then have "fs = []" using Suc.prems r by simp
    with True show ?thesis by (simp add: r reads_made_def add_time_exact)
  next
    case False
    then obtain gs where gs: "received raw n (the (timeout_left r)) (rounds_left r) = Return gs" "fs = data r # gs"
      using Suc.prems r by auto
    have "reads_made (Suc n) fs = Suc (reads_made n gs)" by (simp add: gs(2) reads_made_def)
    with Suc.IH [OF gs(1)] False show ?thesis
      by (simp add: r add_time_exact sum.atLeast_Suc_lessThan)
  qed
qed

lemma time_loop_returns:
  "received raw n t rs = Return fs \<Longrightarrow> \<exists>x. time_loop rnd clock raw i n t rs s = Return x"
proof (induction n arbitrary: i t rs fs s)
  case (Suc n)
  then obtain r where r: "grnvs_read raw 1514 (Some t) rs = Return r" by auto
  with Suc.prems have "ret r = 0 \<or> (\<exists>gs. received raw n (the (timeout_left r)) (rounds_left r) = Return gs)"
    by (auto split: if_splits)
  with Suc.IH r show ?case by (auto simp: Let_def)
qed simp

lemma standard_zero: "standard u rnd \<Longrightarrow> rnd 0 = 0"
  by (auto simp: standard_def dest: spec [of _ 0])

lemma rates_no_time: "standard u rnd \<Longrightarrow> rates rnd 0 0 = [NaN, NaN, NaN, NaN]"
  by (simp add: rates_def fp_div_def standard_zero)

section \<open>Properties\<close>

text \<open>
  C19. The rates in the last line of \<open>ethstats\<close>. With any rounding that keeps the IEEE promise for a
  relative error \<open>u\<close>, each of the four numbers is the number of bytes received divided by the variable
  \<open>totalTime\<close>, in its unit, up to four roundings. Without rounding \<open>totalTime\<close> would be the sum of
  what the clocks say of each read, one that timed out included. If no frames are asked for (a number below 1 on the
  command line), the program divides 0 by 0 and prints four times not-a-number.
\<close>

theorem assignment2_rates_accurate:
  assumes "standard u rnd" and "0 \<le> u" and "u < 1"
    and "grnvs_get_hwaddr raw = Some mymac" and "length mymac = 6" and "length stack = 1514"
    and "received raw (nat n) 10000 rs = Return fs" and "cells m = Map.empty"
    and "card (fst ` set (accounted stack fs)) \<le> avail m" and "sum_list (map length fs) < 2 ^ 32"
  shows "\<exists>out t vs heap. assignment2_rates rnd clock raw n stack m rs = Return (out, vs, heap) \<and>
    time_loop rnd clock raw 0 (nat n) 10000 rs 0 = Return t \<and>
    (0 < t \<longrightarrow> (\<exists>xs. vs = map Finite xs \<and>
      list_all2 (\<lambda>x k. close_to u 4 (of_nat (sum_list (map length fs)) / t * k) x) xs
        [8 / 10 ^ 6, 1 / 2 ^ 20, 1 / 1000, 8 / 2 ^ 10])) \<and>
    (n \<le> 0 \<longrightarrow> vs = [NaN, NaN, NaN, NaN]) \<and>
    time_loop (\<lambda>x. x) clock raw 0 (nat n) 10000 rs 0 = Return (\<Sum>i = 0..<reads_made (nat n) fs. spent clock i)"
proof -
  let ?bytes = "of_nat (sum_list (map length fs)) :: u32"
  obtain out m' where out: "assignment2 raw n stack m rs = Return (out, ?bytes, m', None)"
    using assignment2_reports [OF assms(4-9)] by blast
  obtain t where t: "time_loop rnd clock raw 0 (nat n) 10000 rs 0 = Return t"
    using time_loop_returns [OF assms(7)] by blast
  have run: "assignment2_rates rnd clock raw n stack m rs = Return (out, rates rnd ?bytes t, m', None)"
    by (simp add: assignment2_rates_def out t)
  have bytes: "unat ?bytes = sum_list (map length fs)"
    using assms(10) by (simp only: unsigned_of_nat) (simp add: take_bit_eq_mod)
  have "rates rnd ?bytes t = [NaN, NaN, NaN, NaN]" if "n \<le> 0"
    using that assms(7) t rates_no_time [OF assms(1)] by auto
  moreover have "time_loop (\<lambda>x. x) clock raw 0 (nat n) 10000 rs 0 = Return (\<Sum>i = 0..<reads_made (nat n) fs. spent clock i)"
    using time_loop_exact [OF assms(7), of clock 0 0] by simp
  ultimately show ?thesis
    using run t rates_close [OF assms(1-3), of t ?bytes] unfolding bytes by blast
qed

definition example_clock :: "nat \<Rightarrow> timespec \<times> timespec" where
  "example_clock i = (Timespec 7 (int i * 250000000), Timespec 7 (int i * 250000000 + 250000000))"

theorem assignment2_rates_accurate_witness:
  "\<exists>out x heap. assignment2_rates (\<lambda>x. x) example_clock (example_state SOCK_RAW) 2 (zeros 1514) (example_memory 2)
      (example_rounds [example_frame 6, example_frame 0]) = Return (out, map Finite x, heap) \<and> x ! 2 = 28 / 500"
proof -
  let ?fs = "[example_frame 6, example_frame 0]" and ?rs = "example_rounds [example_frame 6, example_frame 0]"
  have received: "received (example_state SOCK_RAW) (nat 2) 10000 ?rs = Return ?fs"
    unfolding nat_numeral numeral_2_eq_2 by (rule example_received) (simp_all add: example_frame_def)
  have events: "accounted (zeros 1514) ?fs = frame_events ?fs"
    by (rule accounted_full_frames) (simp add: example_frame_def)
  have types: "card (fst ` set (accounted (zeros 1514) ?fs)) \<le> avail (example_memory 2)"
    using card_events [of "frame_events ?fs"] unfolding events by (simp add: frame_events_def example_memory_def)
  have bytes: "sum_list (map length ?fs) = 28" by (simp add: example_frame_def)
  have clock: "(\<Sum>i = 0..<reads_made (nat 2) ?fs. spent example_clock i) = 1 / 2"
    by (simp add: reads_made_def spent_def nsecs_def example_clock_def numeral_2_eq_2)
  have exact: "standard 0 (\<lambda>x. x)" by (simp add: standard_def)
  have setting: "cells (example_memory 2) = Map.empty" "length ([2, 0, 0, 0, 0, 1] :: u8 list) = 6" "length (zeros 1514) = 1514"
    and few: "sum_list (map length ?fs) < 2 ^ 32"
    unfolding bytes by (simp_all add: example_memory_def)
  note rates = assignment2_rates_accurate [OF exact order.refl zero_less_one example_hwaddr setting(2,3) received setting(1)
    types few, of example_clock, unfolded bytes clock]
  obtain out t vs heap where
    run: "assignment2_rates (\<lambda>x. x) example_clock (example_state SOCK_RAW) 2 (zeros 1514) (example_memory 2) ?rs = Return (out, vs, heap)"
    and time: "time_loop (\<lambda>x. x) example_clock (example_state SOCK_RAW) 0 (nat 2) 10000 ?rs 0 = Return t"
      "time_loop (\<lambda>x. x) example_clock (example_state SOCK_RAW) 0 (nat 2) 10000 ?rs 0 = Return (1 / 2)"
    and close: "0 < t \<Longrightarrow> \<exists>xs. vs = map Finite xs \<and>
      list_all2 (\<lambda>x k. close_to 0 4 (of_nat 28 / t * k) x) xs [8 / 10 ^ 6, 1 / 2 ^ 20, 1 / 1000, 8 / 2 ^ 10]"
    using rates by blast
  have t: "t = 1 / 2" using time by simp
  then have "0 < t" by simp
  from close [OF this] obtain xs where xs: "vs = map Finite xs"
    "list_all2 (\<lambda>x k. close_to 0 4 (of_nat 28 / t * k) x) xs [8 / 10 ^ 6, 1 / 2 ^ 20, 1 / 1000, 8 / 2 ^ 10]"
    by blast
  from xs(2) have "close_to 0 4 (of_nat 28 / t * ([8 / 10 ^ 6, 1 / 2 ^ 20, 1 / 1000, 8 / 2 ^ 10] ! 2)) (xs ! 2)"
    by (rule list_all2_nthD2) simp
  then have "xs ! 2 = 28 / 500" by (simp add: close_to_def t)
  with run xs(1) show ?thesis by blast
qed

end
