(* ===== verification/CMem.thy ===== *)
theory CMem
  imports CString "HOL-Library.Monad_Syntax"
begin

text \<open>
  The machine the client of assignment 4 runs on: its character arrays, the pointers into them,
  its sockets, and the string functions of the C library it calls. A program is a function from
  the state to what becomes of it. \<open>None\<close> is a program that never returns (an endless loop, or
  a read that waits for ever); \<open>Undef\<close> is a run that has left what C defines, in particular
  any access outside an array.
\<close>

section \<open>State\<close>

text \<open>
  The arrays: \<open>recvbuf\<close>, \<open>sendbuf\<close>, \<open>token\<close>, \<open>text\<close> of \<open>assignment4\<close>, and the
  local ones of \<open>recvMessage\<close>, \<open>readNet\<close> and \<open>checkMessage\<close>.
\<close>

datatype block = Recvbuf | Sendbuf | Token | Text | Netbuf | Fragbuf | Errmsg

text \<open>A pointer to a constant string or command line argument, into an array, or to nothing.\<close>

datatype cptr = Lit string | At block nat | Bad

text \<open>
  What a socket delivers: bytes (a read takes as many as it asks for and leaves the rest), a
  failing read (on the data socket, a timeout), or the end of the stream.
\<close>

datatype arrival = Chunk string | Fail | Closed

text \<open>
  What the system answers to a \<open>write\<close>: it takes at most so many bytes, it takes none and the call
  fails, or the peer has closed the connection and the signal \<open>SIGPIPE\<close> ends the process. When
  the list of a socket is used up, every write is complete.
\<close>

datatype write_answer = Took nat | Refused | Broken

text \<open>The options the client sets on a socket; the timeouts are in seconds.\<close>

datatype sockopt = RCVTIMEO int | SNDTIMEO int | REUSEADDR int

text \<open>
  C leaves a copy between overlapping parts of an array undefined. What a C library makes of such a copy to a
  lower address is a parameter, \<open>reach\<close>: up to that many bytes it moves the text, beyond them nothing is
  said. 0 is the C standard alone; a library that copies byte for byte in ascending order moves any number.
  \<open>sent\<close> logs the calls of \<open>write\<close>, with the bytes that are handed over, \<open>sockopts\<close> the options
  that were set.
\<close>

record client =
  mem :: "block \<Rightarrow> string"
  incoming :: "nat \<Rightarrow> arrival list"
  outgoing :: "nat \<Rightarrow> write_answer list"
  sent :: "(nat \<times> string) list"
  printed :: string
  closed_fds :: "nat list"
  sockopts :: "(nat \<times> sockopt) list"
  reach :: nat

text \<open>\<open>Killed\<close> is the end by a signal.\<close>

datatype 'a run = Value 'a client | Exited int client | Killed client | Undef

type_synonym 'a prog = "client \<Rightarrow> 'a run option"

abbreviation NUL :: char where
  "NUL \<equiv> CHR 0x00"

section \<open>Sequencing\<close>

definition done_with :: "'a \<Rightarrow> 'a prog" where
  "done_with x s = Some (Value x s)"

definition undefined_run :: "'a prog" where
  "undefined_run s = Some Undef"

definition exit_with :: "int \<Rightarrow> 'a prog" where
  "exit_with c s = Some (Exited c s)"

definition and_then :: "'a prog \<Rightarrow> ('a \<Rightarrow> 'b prog) \<Rightarrow> 'b prog" where
  "and_then m f s = Option.bind (m s) (\<lambda>r. case r of
     Value x s' \<Rightarrow> f x s' | Exited c s' \<Rightarrow> Some (Exited c s') | Killed s' \<Rightarrow> Some (Killed s') | Undef \<Rightarrow> Some Undef)"

named_theorems run_eval \<open>equations that run a program symbolically\<close>

lemma done_with_run [run_eval]: "done_with x s = Some (Value x s)"
  by (simp add: done_with_def)

lemma undefined_run_run [run_eval]: "undefined_run s = Some Undef"
  by (simp add: undefined_run_def)

lemma exit_with_run [run_eval]: "exit_with c s = Some (Exited c s)"
  by (simp add: exit_with_def)

lemma and_then_mono [partial_function_mono]:
  assumes "mono_option (\<lambda>f. m f s)" and "\<And>x s. mono_option (\<lambda>f. g x f s)"
  shows "mono_option (\<lambda>f. and_then (m f) (\<lambda>x. g x f) s)"
  unfolding and_then_def
proof (rule bind_mono [OF assms(1)])
  fix r
  show "mono_option (\<lambda>f. case r of Value x s' \<Rightarrow> g x f s' | Exited c s' \<Rightarrow> Some (Exited c s') | Killed s' \<Rightarrow> Some (Killed s') | Undef \<Rightarrow> Some Undef)"
    using assms(2) by (cases r) (simp_all add: option.const_mono)
qed

lemma if_run_mono [partial_function_mono]:
  assumes "mono_option (\<lambda>f. m f s)" and "mono_option (\<lambda>f. n f s)"
  shows "mono_option (\<lambda>f. (if b then m f else n f) s)"
  using assms by (cases b) simp_all

lemma and_then_run:
  "m s = Some (Value x s') \<Longrightarrow> and_then m f s = f x s'"
  "m s = Some (Exited c s') \<Longrightarrow> and_then m f s = Some (Exited c s')"
  "m s = Some Undef \<Longrightarrow> and_then m f s = Some Undef"
  "m s = Some (Killed s') \<Longrightarrow> and_then m f s = Some (Killed s')"
  "m s = None \<Longrightarrow> and_then m f s = None"
  by (simp_all add: and_then_def)

section \<open>Memory\<close>

definition BUFSIZE :: nat where
  "BUFSIZE = 4096"

definition ptr_add :: "cptr \<Rightarrow> nat \<Rightarrow> cptr" where
  "ptr_add p n = (case p of
     Lit t \<Rightarrow> if n \<le> length t then Lit (drop n t) else Bad
   | At b i \<Rightarrow> At b (i + n)
   | Bad \<Rightarrow> Bad)"

text \<open>\<open>char b[BUFSIZE] = {0}\<close>\<close>

definition zero_array :: "block \<Rightarrow> unit prog" where
  "zero_array b s = Some (Value () (s\<lparr>mem := (mem s)(b := replicate BUFSIZE NUL)\<rparr>))"

definition put :: "cptr \<Rightarrow> string \<Rightarrow> unit prog" where
  "put p cs s = (case p of
     At b i \<Rightarrow> if i + length cs \<le> length (mem s b)
       then Some (Value () (s\<lparr>mem := (mem s)(b := take i (mem s b) @ cs @ drop (i + length cs) (mem s b))\<rparr>))
       else Some Undef
   | _ \<Rightarrow> Some Undef)"

text \<open>The memory from a pointer to the end of its array; a literal ends with its NUL.\<close>

definition view :: "cptr \<Rightarrow> client \<Rightarrow> string" where
  "view p s = (case p of Lit t \<Rightarrow> t @ [NUL] | At b i \<Rightarrow> drop i (mem s b) | Bad \<Rightarrow> [])"

definition get_char :: "cptr \<Rightarrow> char prog" where
  "get_char p s = (case view p s of [] \<Rightarrow> Some Undef | c # _ \<Rightarrow> Some (Value c s))"

definition get_string :: "cptr \<Rightarrow> string prog" where
  "get_string p s = (if NUL \<in> set (view p s) then Some (Value (takeWhile (\<lambda>c. c \<noteq> NUL) (view p s)) s)
     else Some Undef)"

definition get_bytes :: "cptr \<Rightarrow> nat \<Rightarrow> string prog" where
  "get_bytes p n s = (if n \<le> length (view p s) then Some (Value (take n (view p s)) s) else Some Undef)"

section \<open>String functions\<close>

definition memset0 :: "cptr \<Rightarrow> nat \<Rightarrow> unit prog" where
  "memset0 p n = put p (replicate n NUL)"

definition strlen :: "cptr \<Rightarrow> nat prog" where
  "strlen p = and_then (get_string p) (\<lambda>t. done_with (length t))"

text \<open>The index of the first occurrence of a character; \<open>None\<close> is NULL.\<close>

definition strchr :: "cptr \<Rightarrow> char \<Rightarrow> nat option prog" where
  "strchr p c = and_then (get_string p) (\<lambda>t.
     done_with (if c \<in> set t then Some (length (takeWhile (\<lambda>d. d \<noteq> c) t)) else None))"

text \<open>
  When a copy of \<open>n\<close> bytes to \<open>d\<close>, of which \<open>k\<close> are read from \<open>p\<close>, has a result: the two do not overlap,
  or it goes to a lower address and the library can do it.
\<close>

definition may_copy :: "cptr \<Rightarrow> nat \<Rightarrow> cptr \<Rightarrow> nat \<Rightarrow> client \<Rightarrow> bool" where
  "may_copy d n p k s = (case d of
     At b i \<Rightarrow> (case p of
       At c j \<Rightarrow> b \<noteq> c \<or> i + n \<le> j \<or> j + k \<le> i \<or> (i \<le> j \<and> n \<le> reach s)
     | _ \<Rightarrow> True)
   | _ \<Rightarrow> True)"

definition strcpy :: "cptr \<Rightarrow> cptr \<Rightarrow> unit prog" where
  "strcpy d p = and_then (get_string p) (\<lambda>t s.
     if may_copy d (length t + 1) p (length t + 1) s then put d (t @ [NUL]) s else Some Undef)"

definition strcat :: "cptr \<Rightarrow> cptr \<Rightarrow> unit prog" where
  "strcat d p = and_then (strlen d) (\<lambda>n. strcpy (ptr_add d n) p)"

text \<open>
  \<open>strncpy\<close> stops at a NUL, or after \<open>n\<close> bytes, and fills up with NULs. The number of bytes is
  compared before anything is built, because it may be close to \<open>2 ^ 64\<close>.
\<close>

definition room_at :: "cptr \<Rightarrow> client \<Rightarrow> nat" where
  "room_at p s = (case p of At b i \<Rightarrow> length (mem s b) - i | _ \<Rightarrow> 0)"

definition strncpy :: "cptr \<Rightarrow> cptr \<Rightarrow> nat \<Rightarrow> unit prog" where
  "strncpy d p n s = (
     let t = takeWhile (\<lambda>c. c \<noteq> NUL) (view p s)
     in if room_at d s < n \<or> \<not> may_copy d n p (min n (length t + 1)) s then Some Undef
        else if n \<le> length t then put d (take n t) s
        else if NUL \<in> set (view p s) then put d (t @ replicate (n - length t) NUL) s
        else Some Undef)"

definition printf :: "string \<Rightarrow> unit prog" where
  "printf t s = Some (Value () (s\<lparr>printed := printed s @ t\<rparr>))"

section \<open>Sockets\<close>

text \<open>
  A \<open>write\<close> of the bytes \<open>cs\<close> is logged, and answered by the system. A read of 0 bytes
  returns 0; at the end of the stream every read does.
\<close>

definition write_call :: "nat \<Rightarrow> string \<Rightarrow> int prog" where
  "write_call fd cs s = (let s1 = s\<lparr>sent := sent s @ [(fd, cs)]\<rparr> in case outgoing s fd of
     [] \<Rightarrow> Some (Value (int (length cs)) s1)
   | a # as \<Rightarrow> (let s2 = s1\<lparr>outgoing := (outgoing s)(fd := as)\<rparr> in case a of
       Took k \<Rightarrow> Some (Value (int (min k (length cs))) s2)
     | Refused \<Rightarrow> Some (Value (- 1) s2)
     | Broken \<Rightarrow> Some (Killed s2)))"

definition write_fd :: "nat \<Rightarrow> cptr \<Rightarrow> nat \<Rightarrow> int prog" where
  "write_fd fd p n = and_then (get_bytes p n) (write_call fd)"

text \<open>No peer closes its end, so no write ends the process.\<close>

definition unbroken :: "client \<Rightarrow> bool" where
  "unbroken s \<longleftrightarrow> (\<forall>fd. Broken \<notin> set (outgoing s fd))"

lemma unbroken_simps [simp]:
  "unbroken (s\<lparr>mem := m\<rparr>) = unbroken s" "unbroken (s\<lparr>incoming := a\<rparr>) = unbroken s"
  "unbroken (s\<lparr>sent := l\<rparr>) = unbroken s" "unbroken (s\<lparr>printed := t\<rparr>) = unbroken s"
  "unbroken (s\<lparr>closed_fds := c\<rparr>) = unbroken s" "unbroken (s\<lparr>sockopts := opts\<rparr>) = unbroken s"
  "unbroken (s\<lparr>outgoing := out\<rparr>) = (\<forall>fd. Broken \<notin> set (out fd))"
  by (simp_all add: unbroken_def)

lemma write_call_complete [simp]:
  "outgoing s fd = [] \<Longrightarrow> write_call fd cs s = Some (Value (int (length cs)) (s\<lparr>sent := sent s @ [(fd, cs)]\<rparr>))"
  by (simp add: write_call_def)

lemma write_call_returns:
  assumes "unbroken s"
  obtains v out where "write_call fd cs s = Some (Value v (s\<lparr>outgoing := out, sent := sent s @ [(fd, cs)]\<rparr>))"
    and "unbroken (s\<lparr>outgoing := out\<rparr>)"
proof (cases "outgoing s fd")
  case Nil
  then have "write_call fd cs s = Some (Value (int (length cs)) (s\<lparr>outgoing := outgoing s, sent := sent s @ [(fd, cs)]\<rparr>))"
    by simp
  then show thesis using assms that [of "int (length cs)" "outgoing s"] by (simp add: unbroken_def)
next
  case (Cons a as)
  let ?out = "(outgoing s)(fd := as)"
  have "Broken \<notin> set (a # as)" using assms unfolding unbroken_def Cons [symmetric] by blast
  then have ok: "\<forall>fd. Broken \<notin> set (?out fd)" "a \<noteq> Broken" using assms by (simp_all add: unbroken_def) blast
  then show thesis
    using that [of "int (min k (length cs))" ?out for k] that [of "- 1" ?out] Cons
    by (cases a) (auto simp: write_call_def Let_def)
qed

definition deliver :: "nat \<Rightarrow> arrival list \<Rightarrow> client \<Rightarrow> client" where
  "deliver fd as s = s\<lparr>incoming := (incoming s)(fd := as)\<rparr>"

lemma deliver_simps [simp]:
  "mem (deliver fd as s) = mem s" "reach (deliver fd as s) = reach s" "outgoing (deliver fd as s) = outgoing s" "sent (deliver fd as s) = sent s" "printed (deliver fd as s) = printed s"
  "incoming (deliver fd as s) = (incoming s)(fd := as)"
  by (simp_all add: deliver_def)

lemma unbroken_deliver [simp]: "unbroken (deliver fd as s) = unbroken s"
  by (simp add: deliver_def)

definition read_fd :: "nat \<Rightarrow> cptr \<Rightarrow> nat \<Rightarrow> int prog" where
  "read_fd fd p n s = (if n = 0 then Some (Value 0 s)
     else case incoming s fd of
       [] \<Rightarrow> None
     | Closed # as \<Rightarrow> Some (Value 0 s)
     | Fail # as \<Rightarrow> Some (Value (- 1) (deliver fd as s))
     | Chunk c # as \<Rightarrow> and_then (put p (take n c)) (\<lambda>_. done_with (int (length (take n c))))
         (deliver fd (if drop n c = [] then as else Chunk (drop n c) # as) s))"

section \<open>Strings in memory\<close>

definition str_at :: "cptr \<Rightarrow> string \<Rightarrow> client \<Rightarrow> bool" where
  "str_at p t s \<longleftrightarrow> NUL \<notin> set t \<and> (\<exists>rest. view p s = t @ NUL # rest)"

abbreviation with_block :: "block \<Rightarrow> string \<Rightarrow> client \<Rightarrow> client" where
  "with_block b l s \<equiv> s\<lparr>mem := (mem s)(b := l)\<rparr>"

lemma str_atI: "NUL \<notin> set t \<Longrightarrow> view p s = t @ NUL # rest \<Longrightarrow> str_at p t s"
  by (auto simp: str_at_def)

lemma str_at_Lit [simp]: "NUL \<notin> set t \<Longrightarrow> str_at (Lit t) t s"
  by (simp add: str_at_def view_def)

lemma view_simps [simp]:
  "view (At b i) s = drop i (mem s b)" "view Bad s = []" "view (Lit t) s = t @ [NUL]"
  by (simp_all add: view_def)

lemma view_sockopts [simp]: "view p (s\<lparr>sockopts := opts\<rparr>) = view p s"
  by (cases p) simp_all

lemma str_at_sockopts [simp]: "str_at p t (s\<lparr>sockopts := opts\<rparr>) = str_at p t s"
  by (simp add: str_at_def)

lemma ptr_add_simps [simp]:
  "ptr_add (At b i) n = At b (i + n)" "ptr_add Bad n = Bad"
  by (simp_all add: ptr_add_def)

definition in_block :: "block \<Rightarrow> cptr \<Rightarrow> bool" where
  "in_block b p = (case p of At c i \<Rightarrow> c = b | _ \<Rightarrow> False)"

lemma in_block_simps [simp]:
  "in_block b (At c i) \<longleftrightarrow> c = b" "\<not> in_block b (Lit t)" "\<not> in_block b Bad"
  by (simp_all add: in_block_def)

lemma view_with_block [simp]: "\<not> in_block b p \<Longrightarrow> view p (with_block b l s) = view p s"
  by (cases p) auto

lemma str_at_with_block: "\<not> in_block b p \<Longrightarrow> str_at p t (with_block b l s) = str_at p t s"
  by (simp add: str_at_def)

lemma takeWhile_str: "NUL \<notin> set t \<Longrightarrow> takeWhile (\<lambda>c. c \<noteq> NUL) (t @ NUL # rest) = t"
  by (induction t) auto

lemma str_at_unique: "str_at p t s \<Longrightarrow> str_at p u s \<Longrightarrow> t = u"
  by (metis str_at_def takeWhile_str)

lemma get_string_run: "str_at p t s \<Longrightarrow> get_string p s = Some (Value t s)"
  by (auto simp: str_at_def get_string_def takeWhile_str)

lemma get_char_run: "str_at p t s \<Longrightarrow> get_char p s = Some (Value (hd (t @ [NUL])) s)"
  by (cases t) (auto simp: str_at_def get_char_def)

lemma strlen_run: "str_at p t s \<Longrightarrow> strlen p s = Some (Value (length t) s)"
  by (simp add: strlen_def and_then_run get_string_run done_with_run)

lemma strchr_run: "str_at p t s \<Longrightarrow> strchr p c s =
    Some (Value (if c \<in> set t then Some (length (takeWhile (\<lambda>d. d \<noteq> c) t)) else None) s)"
  by (simp add: strchr_def and_then_run get_string_run done_with_run)

lemma put_run: "i + length cs \<le> length (mem s b) \<Longrightarrow> put (At b i) cs s =
    Some (Value () (with_block b (take i (mem s b) @ cs @ drop (i + length cs) (mem s b)) s))"
  by (simp add: put_def)

lemma put_overflow: "length (mem s b) < i + length cs \<Longrightarrow> put (At b i) cs s = Some Undef"
  by (simp add: put_def)

lemma may_copy_other [simp]: "\<not> in_block b p \<Longrightarrow> may_copy (At b i) n p k s"
  by (cases p) (simp_all add: may_copy_def)

lemma may_copy_mem [simp]: "may_copy d n p k (s\<lparr>mem := m\<rparr>) = may_copy d n p k s"
  by (simp add: may_copy_def split: cptr.split)

lemma may_copy_front: "n \<le> reach s \<Longrightarrow> may_copy (At b 0) n p k s"
  by (simp add: may_copy_def split: cptr.split)

lemma strcpy_eq: "str_at p t s \<Longrightarrow> strcpy (At b i) p s =
    (if may_copy (At b i) (length t + 1) p (length t + 1) s \<and> i + length t < length (mem s b)
     then Some (Value () (with_block b (take i (mem s b) @ t @ NUL # drop (i + length t + 1) (mem s b)) s))
     else Some Undef)"
  by (simp add: strcpy_def and_then_run get_string_run put_run put_overflow)

lemma strcpy_run: "str_at p t s \<Longrightarrow> i + length t < length (mem s b) \<Longrightarrow> \<not> in_block b p \<Longrightarrow> strcpy (At b i) p s =
    Some (Value () (with_block b (take i (mem s b) @ t @ NUL # drop (i + length t + 1) (mem s b)) s))"
  by (simp add: strcpy_eq)

lemma strcpy_overflow: "str_at p t s \<Longrightarrow> length (mem s b) \<le> i + length t \<Longrightarrow> strcpy (At b i) p s = Some Undef"
  by (simp add: strcpy_eq)

lemma strcat_strcpy: "str_at (At b i) u s \<Longrightarrow> strcat (At b i) p s = strcpy (At b (i + length u)) p s"
  by (simp add: strcat_def and_then_run strlen_run)

lemma str_at_prefix: "str_at (At b i) u s \<Longrightarrow> take (i + length u) (mem s b) = take i (mem s b) @ u"
  by (auto simp: str_at_def take_add)

lemma strcat_run:
  assumes "str_at (At b i) u s" and "str_at p t s" and "i + length u + length t < length (mem s b)" and "\<not> in_block b p"
  shows "strcat (At b i) p s = Some (Value ()
    (with_block b (take i (mem s b) @ u @ t @ NUL # drop (i + length u + length t + 1) (mem s b)) s))"
  using strcpy_run [OF assms(2,3,4)] str_at_prefix [OF assms(1)] by (simp add: strcat_strcpy [OF assms(1)])

lemma strcat_overflow:
  "str_at (At b i) u s \<Longrightarrow> str_at p t s \<Longrightarrow> length (mem s b) \<le> i + length u + length t \<Longrightarrow>
    strcat (At b i) p s = Some Undef"
  by (simp add: strcat_strcpy strcpy_overflow)

text \<open>An array that holds a string and zeros after it.\<close>

definition padded :: "string \<Rightarrow> string" where
  "padded t = t @ replicate (BUFSIZE - length t) NUL"

lemma length_padded [simp]: "length t \<le> BUFSIZE \<Longrightarrow> length (padded t) = BUFSIZE"
  by (simp add: padded_def)

lemma padded_Nil: "padded [] = replicate BUFSIZE NUL"
  by (simp add: padded_def)

lemma padded_str: "NUL \<notin> set t \<Longrightarrow> length t < BUFSIZE \<Longrightarrow> mem s b = padded t \<Longrightarrow> str_at (At b 0) t s"
  by (intro str_atI [of _ _ _ "replicate (BUFSIZE - length t - 1) NUL"])
    (simp_all add: padded_def replicate_Suc [symmetric] Suc_diff_Suc del: replicate_Suc)

lemma padded_append:
  "length t + length u < BUFSIZE \<Longrightarrow> t @ u @ NUL # drop (length t + length u + 1) (padded t) = padded (t @ u)"
  using replicate_Suc [of "BUFSIZE - length t - length u - 1" NUL]
  by (simp add: padded_def Suc_diff_Suc del: replicate_Suc)

lemma strcat_padded:
  assumes "mem s b = padded t" and "NUL \<notin> set t" and "str_at p u s" and "length t + length u < BUFSIZE"
    and "\<not> in_block b p"
  shows "strcat (At b 0) p s = Some (Value () (with_block b (padded (t @ u)) s))"
  using strcat_run [OF padded_str [OF assms(2) _ assms(1)] assms(3)] assms padded_append [of t u]
  by simp

lemma strcat_padded_overflow:
  "mem s b = padded t \<Longrightarrow> NUL \<notin> set t \<Longrightarrow> length t < BUFSIZE \<Longrightarrow> str_at p u s \<Longrightarrow>
    BUFSIZE \<le> length t + length u \<Longrightarrow> strcat (At b 0) p s = Some Undef"
  using strcat_overflow [of b 0 t s p u] padded_str [of t s b] by simp

lemma strcpy_zeroed:
  assumes "mem s b = padded []" and "str_at p u s" and "length u < BUFSIZE" and "\<not> in_block b p"
  shows "strcpy (At b 0) p s = Some (Value () (with_block b (padded u) s))"
  using strcpy_run [OF assms(2), of 0 b] assms(1,3,4) padded_append [of "[]" u] by simp

end
