(* ===== verification/Netstring.thy ===== *)
theory Netstring
  imports CMem
begin

text \<open>
  Netstrings as the client of assignment 4 sends and receives them:
  \<open>countDigits\<close>, \<open>writeNet\<close>, \<open>readNet\<close>, \<open>sendMessage\<close>, \<open>recvMessage\<close>,
  \<open>checkMessage\<close>, \<open>updateNets\<close> of \<open>assignment4/src/assignment4.c\<close>.
\<close>

section \<open>The code\<close>

type_synonym u64 = "64 word"

fun steps :: "unit prog list \<Rightarrow> unit prog" where
  "steps [] = done_with ()"
| "steps (m # ms) = and_then m (\<lambda>_. steps ms)"

fun digit_loop :: "nat \<Rightarrow> u16 \<Rightarrow> u16" where
  "digit_loop c digits = (if c div 10 \<noteq> 0 then digit_loop (c div 10) (digits + 1) else digits)"

declare digit_loop.simps [simp del]

definition countDigits :: "nat \<Rightarrow> u16" where
  "countDigits c = digit_loop c 1"

definition writeNet :: "cptr \<Rightarrow> nat \<Rightarrow> cptr \<Rightarrow> nat prog" where
  "writeNet dest bufSize src =
     and_then (memset0 dest bufSize) (\<lambda>_.
     and_then (strlen src) (\<lambda>len.
     and_then
       (if len < bufSize - unat (countDigits len)
        then steps [put dest (dec len @ '':'' @ [NUL]), strcat dest src, strcat dest (Lit '','')]
        else put dest (''0:'' @ [NUL])) (\<lambda>_.
     done_with (len + unat (countDigits len) + 1))))"

definition sendMessage :: "nat \<Rightarrow> cptr \<Rightarrow> cptr \<Rightarrow> int prog" where
  "sendMessage fd m buf = and_then (writeNet buf BUFSIZE m) (\<lambda>n. write_fd fd buf (n + 1))"

definition checkMessage :: "nat \<Rightarrow> cptr \<Rightarrow> cptr \<Rightarrow> int prog" where
  "checkMessage fd expected actual =
     and_then (get_char actual) (\<lambda>c.
     if c = CHR ''E'' then
       and_then (get_string (ptr_add actual 2)) (\<lambda>t.
       and_then (printf (''Error: '' @ t)) (\<lambda>_. done_with 0))
     else
       and_then (get_string expected) (\<lambda>e.
       and_then (get_string actual) (\<lambda>a.
       if e \<noteq> a then
         and_then (steps [zero_array Errmsg,
           strcpy (At Errmsg 0) (Lit ''E ''),
           strcat (At Errmsg 0) (Lit (''expected: '' @ [CHR 0x22])),
           strcat (At Errmsg 0) expected,
           strcat (At Errmsg 0) (Lit ([CHR 0x22] @ '' but received: '' @ [CHR 0x22])),
           strcat (At Errmsg 0) actual,
           strcat (At Errmsg 0) (Lit [CHR 0x22])]) (\<lambda>_.
         and_then (sendMessage fd (At Errmsg 0) actual) (\<lambda>_.
         and_then (get_string (At Errmsg 2)) (\<lambda>t.
         and_then (printf (''Error: '' @ t)) (\<lambda>_.
         exit_with (- 1)))))
       else done_with 0)))"

text \<open>The loop of \<open>readNet\<close> that reads more of a netstring that came in pieces.\<close>

partial_function (option) read_more :: "nat \<Rightarrow> cptr \<Rightarrow> u64 \<Rightarrow> client \<Rightarrow> unit run option" where
  "read_more fd src strLength s =
     and_then (strlen src) (\<lambda>n.
     if n < unat strLength then
       and_then (strlen (At Fragbuf 0)) (\<lambda>k.
       and_then (read_fd fd (At Fragbuf 0) (unat (strLength - of_nat k))) (\<lambda>r.
       if r < 0 then done_with ()
       else and_then (strcat src (At Fragbuf 0)) (\<lambda>_ s. read_more fd src strLength s)))
     else done_with ()) s"

text \<open>The two format tests of \<open>readNet\<close>, on the positions of the first colon and comma.\<close>

definition bad_prefix :: "nat option \<Rightarrow> nat option \<Rightarrow> bool" where
  "bad_prefix colon comma = (case colon of None \<Rightarrow> True
     | Some i \<Rightarrow> (case comma of None \<Rightarrow> False | Some j \<Rightarrow> j < i))"

definition bad_format :: "nat option \<Rightarrow> nat option \<Rightarrow> bool" where
  "bad_format colon comma = (case colon of None \<Rightarrow> True
     | Some i \<Rightarrow> (case comma of None \<Rightarrow> True | Some j \<Rightarrow> j < i))"

text \<open>The last part of \<open>readNet\<close>, on the netstring that is taken to be complete.\<close>

definition copy_net :: "cptr \<Rightarrow> nat \<Rightarrow> cptr \<Rightarrow> nat \<Rightarrow> nat \<Rightarrow> nat \<Rightarrow> u64 \<Rightarrow> cptr prog" where
  "copy_net dest bufSize src fd curMessageLength digits strLength =
     and_then (strchr src CHR '':'') (\<lambda>colon.
     and_then (strchr src CHR '','') (\<lambda>comma.
     and_then
       (if bad_format colon comma
        then checkMessage fd (Lit ''String in netstring format'') src else done_with 0) (\<lambda>_.
     if bufSize < unat (strLength + of_nat curMessageLength) then done_with Bad
     else
       and_then (strncpy dest (ptr_add src (digits + 1)) (unat strLength)) (\<lambda>_.
       and_then (put (ptr_add dest (unat strLength)) [NUL]) (\<lambda>_.
       done_with (ptr_add src (digits + unat strLength + 2)))))))"

definition take_net :: "cptr \<Rightarrow> nat \<Rightarrow> cptr \<Rightarrow> nat \<Rightarrow> nat \<Rightarrow> nat \<Rightarrow> u64 \<Rightarrow> cptr prog" where
  "take_net dest bufSize src fd curMessageLength digits strLength =
     and_then (zero_array Fragbuf) (\<lambda>_.
     and_then (read_more fd src strLength) (\<lambda>_.
     copy_net dest bufSize src fd curMessageLength digits strLength))"

definition readNet :: "cptr \<Rightarrow> nat \<Rightarrow> cptr \<Rightarrow> nat \<Rightarrow> nat \<Rightarrow> cptr prog" where
  "readNet dest bufSize src fd curMessageLength =
     and_then (strchr src CHR '':'') (\<lambda>colon.
     and_then (strchr src CHR '','') (\<lambda>comma.
     and_then
       (if bad_prefix colon comma
        then checkMessage fd (Lit ''String in netstring format'') src else done_with 0) (\<lambda>_.
     and_then (get_char src) (\<lambda>c.
     and_then
       (if c = CHR ''0'' then checkMessage fd (Lit ''no leading 0'') src else done_with 0) (\<lambda>_.
     and_then (strchr src CHR '':'') (\<lambda>colon. case colon of
       None \<Rightarrow> undefined_run
     | Some digits \<Rightarrow>
         and_then (get_bytes src digits) (\<lambda>num.
         take_net dest bufSize src fd curMessageLength digits (word_of_int (atol num)))))))))"

text \<open>The loop of \<open>recvMessage\<close> over the netstrings of one read; \<open>next\<close> is \<open>buf\<close> at its test.\<close>

partial_function (option) recv_loop :: "nat \<Rightarrow> cptr \<Rightarrow> nat \<Rightarrow> nat \<Rightarrow> client \<Rightarrow> int run option" where
  "recv_loop fd respDst message_length nets s =
     and_then (get_char (At Netbuf 0)) (\<lambda>c.
     if c \<noteq> NUL then
       and_then (readNet (At Netbuf 0) BUFSIZE (At Netbuf 0) fd message_length) (\<lambda>rest.
       and_then (strcpy (ptr_add respDst message_length) (At Netbuf 0)) (\<lambda>_.
       and_then (strlen (At Netbuf 0)) (\<lambda>k.
       and_then (strcpy (ptr_add respDst (message_length + k + 1)) (At Netbuf 0)) (\<lambda>_.
       and_then (strcpy (At Netbuf 0) rest) (\<lambda>_ s.
       recv_loop fd respDst (message_length + k + 1) (Suc nets) s)))))
     else done_with (int nets)) s"

definition recvMessage :: "nat \<Rightarrow> cptr \<Rightarrow> int prog" where
  "recvMessage fd respDst =
     and_then (memset0 respDst BUFSIZE) (\<lambda>_.
     and_then (zero_array Netbuf) (\<lambda>_.
     and_then (read_fd fd (At Netbuf 0) BUFSIZE) (\<lambda>ret.
     if ret < 0 then done_with (- 1) else recv_loop fd respDst 0 0)))"

definition updateNets :: "int \<Rightarrow> cptr \<Rightarrow> cptr \<Rightarrow> cptr prog" where
  "updateNets num cur buf =
     (if num = 0 then done_with buf
      else and_then (strlen cur) (\<lambda>n. done_with (ptr_add cur (n + 1))))"

section \<open>Digits\<close>

lemma length_dec_le: "n < 10 ^ Suc k \<Longrightarrow> length (dec n) \<le> Suc k"
proof (induction k arbitrary: n)
  case (Suc k)
  then have "n div 10 < 10 ^ Suc k" by (simp add: less_mult_imp_div_less)
  with Suc.IH [of "n div 10"] show ?case by (simp add: dec.simps [of n])
qed (simp add: dec.simps)

lemma length_dec_ge: "10 ^ k \<le> n \<Longrightarrow> Suc k \<le> length (dec n)"
proof (induction k arbitrary: n)
  case (Suc k)
  then have "10 ^ k \<le> n div 10" by (simp add: less_eq_div_iff_mult_less_eq mult.commute)
  with Suc.IH [of "n div 10"] Suc.prems show ?case
    by (cases "n < 10") (auto simp: dec.simps [of n] intro: order_trans [of _ "10 * 10 ^ k"])
qed (simp add: Suc_leI)

lemma digit_loop_dec: "digit_loop c d = d + of_nat (length (dec c) - 1)"
proof (induction c d rule: digit_loop.induct)
  case (1 c d)
  show ?case
  proof (cases "c div 10 = 0")
    case True
    then show ?thesis by (simp add: digit_loop.simps [of c] dec.simps [of c] div_eq_0_iff)
  next
    case False
    then have "digit_loop c d = digit_loop (c div 10) (d + 1)" by (simp add: digit_loop.simps)
    moreover have "length (dec c) - 1 = length (dec (c div 10))"
      using False by (simp add: dec.simps [of c] div_eq_0_iff)
    moreover have "0 < length (dec (c div 10))" by simp
    then obtain k where "length (dec (c div 10)) = Suc k" using gr0_implies_Suc by blast
    ultimately show ?thesis using 1 False by simp
  qed
qed

lemma countDigits_dec:
  assumes "length (dec c) < 65536"
  shows "unat (countDigits c) = length (dec c)"
proof -
  have "0 < length (dec c)" by simp
  then obtain k where k: "length (dec c) = Suc k" using gr0_implies_Suc by blast
  have "countDigits c = of_nat (length (dec c))"
    by (simp add: countDigits_def digit_loop_dec k)
  then show ?thesis using assms by (simp only: unsigned_of_nat) (simp add: take_bit_eq_mod)
qed

lemma countDigits_small: "c < 10 ^ 5 \<Longrightarrow> unat (countDigits c) = length (dec c)"
  using length_dec_le [of c 4] by (intro countDigits_dec) simp

text \<open>The buffer bound of \<open>writeNet\<close>, with the digits of the length or of the buffer size.\<close>

lemma net_bound: "c < BUFSIZE - unat (countDigits c) \<longleftrightarrow> c < 4092"
proof (cases "c < 10 ^ 5")
  case c: True
  have "length (dec c) \<le> 4" if "c < 4096" using that length_dec_le [of c 3] by simp
  moreover have "4 \<le> length (dec c)" if "1000 \<le> c" using that length_dec_ge [of 3 c] by simp
  ultimately show ?thesis
    using c by (cases "c < 1000"; cases "c < 4096") (auto simp: countDigits_small BUFSIZE_def)
qed (simp add: BUFSIZE_def)

section \<open>Sending\<close>

definition net :: "string \<Rightarrow> string" where
  "net t = dec (length t) @ '':'' @ t @ '',''"

lemma NUL_not_dec: "NUL \<notin> set (dec n)"
  using dec_digits [of NUL n] by (auto simp: is_digit_def)

lemma NUL_not_net [simp]: "NUL \<notin> set (net t) \<longleftrightarrow> NUL \<notin> set t"
  by (auto simp: net_def NUL_not_dec)

lemma length_net: "length (net t) = length (dec (length t)) + length t + 2"
  by (simp add: net_def)

lemma length_dec_bounds:
  "n < BUFSIZE \<Longrightarrow> 1 \<le> length (dec n) \<and> length (dec n) \<le> 4"
  "1000 \<le> n \<Longrightarrow> 4 \<le> length (dec n)"
  using length_dec_le [of n 3] length_dec_ge [of 0 n] length_dec_ge [of 3 n] dec_not_Nil [of n]
  by (auto simp: BUFSIZE_def Suc_le_eq)

lemma writeNet_prefix:
  assumes "mem s b = replicate BUFSIZE NUL" and "n < BUFSIZE"
  shows "put (At b 0) (dec n @ '':'' @ [NUL]) s = Some (Value () (with_block b (padded (dec n @ '':'')) s))"
proof -
  have "length (dec n) \<le> 4" using length_dec_bounds assms(2) by blast
  then have "dec n @ '':'' @ NUL # drop (length (dec n) + 2) (replicate BUFSIZE NUL) = padded (dec n @ '':'')"
    using padded_append [of "[]" "dec n @ '':''"] by (simp add: padded_Nil BUFSIZE_def)
  then show ?thesis
    using put_run [of 0 "dec n @ '':'' @ [NUL]" s b] assms(1) \<open>length (dec n) \<le> 4\<close> by (simp add: BUFSIZE_def)
qed

lemma memset0_run: "length (mem s b) = BUFSIZE \<Longrightarrow>
    memset0 (At b 0) BUFSIZE s = Some (Value () (with_block b (replicate BUFSIZE NUL) s))"
  by (simp add: memset0_def put_run)

lemma writeNet_fits:
  assumes "length (mem s b) = BUFSIZE" and "str_at m t s" and "\<not> in_block b m" and "length t < 4090"
  shows "writeNet (At b 0) BUFSIZE m s = Some (Value (length (net t) - 1) (with_block b (padded (net t)) s))"
proof -
  let ?n = "length t"
  let ?pre = "dec ?n @ '':''"
  let ?s0 = "with_block b (replicate BUFSIZE NUL) s"
  let ?s1 = "with_block b (padded ?pre) s"
  let ?s2 = "with_block b (padded (?pre @ t)) s"
  have digits: "length (dec ?n) \<le> 4" using length_dec_bounds(1) [of ?n] assms(4) by (simp add: BUFSIZE_def)
  have NUL: "NUL \<notin> set t" "NUL \<notin> set ?pre" using assms(2) by (auto simp: str_at_def NUL_not_dec)
  have "strlen m ?s0 = Some (Value ?n ?s0)"
    using assms(2,3) by (intro strlen_run) (simp add: str_at_with_block)
  moreover have "put (At b 0) (?pre @ [NUL]) ?s0 = Some (Value () ?s1)"
    using writeNet_prefix [of ?s0 b ?n] assms(4) by (simp add: BUFSIZE_def)
  moreover have "strcat (At b 0) m ?s1 = Some (Value () ?s2)"
    using strcat_padded [of ?s1 b ?pre m t] NUL digits assms(2-4)
    by (simp add: str_at_with_block BUFSIZE_def)
  moreover have "strcat (At b 0) (Lit '','') ?s2 = Some (Value () (with_block b (padded (net t)) s))"
    using strcat_padded [of ?s2 b "?pre @ t" "Lit '',''" "'',''"] NUL digits assms(4)
    by (simp add: BUFSIZE_def net_def)
  moreover have "?n < BUFSIZE - unat (countDigits ?n)" using net_bound [of ?n] assms(4) by simp
  moreover have "?n + unat (countDigits ?n) + 1 = length (net t) - 1"
    using assms(4) by (simp add: countDigits_small length_net)
  ultimately show ?thesis
    using memset0_run [OF assms(1)]
    by (simp add: writeNet_def and_then_run done_with_run)
qed

lemma sendMessage_fits:
  assumes "length (mem s b) = BUFSIZE" and "str_at m t s" and "\<not> in_block b m" and "length t < 4090"
  shows "sendMessage fd m (At b 0) s = write_call fd (net t) (with_block b (padded (net t)) s)"
proof -
  have "length (dec (length t)) \<le> 4" using length_dec_bounds(1) [of "length t"] assms(4) by (simp add: BUFSIZE_def)
  then have "length (net t) \<le> BUFSIZE" "0 < length (net t)"
    using assms(4) by (simp_all add: length_net BUFSIZE_def)
  then show ?thesis
    using writeNet_fits [OF assms]
    by (simp add: sendMessage_def and_then_run write_fd_def get_bytes_def padded_def)
qed

text \<open>Longer strings: the two largest that pass the test overflow the buffer by the comma and the
  NUL, and for the ones that fail it the \<open>write\<close> goes past the end of the buffer.\<close>

text \<open>A message of 4090 or 4091 bytes gets past the test of its length; its comma does not fit.\<close>

lemma writeNet_tail_overflows:
  assumes "str_at m t s" and "\<not> in_block b m" and "4090 \<le> length t" and "length t < 4092"
  shows "steps [put (At b 0) ((dec (length t) @ '':'') @ [NUL]), strcat (At b 0) m, strcat (At b 0) (Lit '','')]
    (with_block b (replicate BUFSIZE NUL) s) = Some Undef"
proof -
  let ?n = "length t"
  let ?pre = "dec ?n @ '':''"
  let ?s0 = "with_block b (replicate BUFSIZE NUL) s"
  let ?s1 = "with_block b (padded ?pre) s"
  let ?s2 = "with_block b (padded (?pre @ t)) s"
  have NUL: "NUL \<notin> set t" "NUL \<notin> set ?pre" using assms(1) by (auto simp: str_at_def NUL_not_dec)
  have four: "length (dec ?n) = 4"
    using length_dec_bounds [of ?n] assms(3,4) by (simp add: BUFSIZE_def)
  have pre: "put (At b 0) (?pre @ [NUL]) ?s0 = Some (Value () ?s1)"
    using writeNet_prefix [of ?s0 b ?n] assms(4) by (simp add: BUFSIZE_def)
  show ?thesis
  proof (cases "?n = 4090")
    case n: True
    have "strcat (At b 0) m ?s1 = Some (Value () ?s2)"
      using strcat_padded [of ?s1 b ?pre m t] NUL four n assms(1,2) by (simp add: str_at_with_block BUFSIZE_def)
    moreover have "strcat (At b 0) (Lit '','') ?s2 = Some Undef"
      using strcat_padded_overflow [of ?s2 b "?pre @ t" "Lit '',''" "'',''"] NUL four n
      by (simp add: BUFSIZE_def)
    ultimately show ?thesis using pre by (simp add: and_then_run)
  next
    case False
    then have "strcat (At b 0) m ?s1 = Some Undef"
      using strcat_padded_overflow [of ?s1 b ?pre m t] NUL four assms(1-3)
      by (simp add: str_at_with_block BUFSIZE_def)
    then show ?thesis using pre by (simp add: and_then_run)
  qed
qed

lemma sendMessage_too_long:
  assumes "length (mem s b) = BUFSIZE" and "str_at m t s" and "\<not> in_block b m"
    and "4090 \<le> length t"
  shows "sendMessage fd m (At b 0) s = Some Undef"
proof -
  let ?n = "length t"
  let ?s0 = "with_block b (replicate BUFSIZE NUL) s"
  have digits: "4 \<le> length (dec ?n)" using length_dec_bounds(2) [of ?n] assms(4) by simp
  have len: "strlen m ?s0 = Some (Value ?n ?s0)"
    using assms(2,3) by (intro strlen_run) (simp add: str_at_with_block)
  show ?thesis
  proof (cases "?n < 4092")
    case True
    note writeNet_tail_overflows [OF assms(2-4) True]
    then show ?thesis
      using True net_bound [of ?n] memset0_run [OF assms(1)] len
      by (simp add: sendMessage_def writeNet_def and_then_run)
  next
    case False
    obtain s1 where "put (At b 0) (''0:'' @ [NUL]) ?s0 = Some (Value () s1)" "length (mem s1 b) = BUFSIZE"
      using put_run [of 0 "''0:'' @ [NUL]" ?s0 b] by (auto simp: BUFSIZE_def)
    moreover have "BUFSIZE < ?n + unat (countDigits ?n) + 1 + 1"
      using False digits by (cases "?n < 10 ^ 5") (simp_all add: countDigits_small BUFSIZE_def)
    ultimately show ?thesis
      using False net_bound [of ?n] memset0_run [OF assms(1)] len
      by (simp add: sendMessage_def writeNet_def and_then_run done_with_run write_fd_def get_bytes_def)
  qed
qed

section \<open>Receiving\<close>

lemma takeWhile_before: "c \<notin> set xs \<Longrightarrow> takeWhile (\<lambda>d. d \<noteq> c) (xs @ c # ys) = xs"
  by (induction xs) auto

lemma colon_not_dec: "CHR '':'' \<notin> set (dec n)" and comma_not_dec: "CHR '','' \<notin> set (dec n)"
  using dec_digits [of "CHR '':''" n] dec_digits [of "CHR '','' " n] by (auto simp: is_digit_def)

lemma strchr_colon_net:
  "str_at p (dec n @ CHR '':'' # ys) s \<Longrightarrow> strchr p CHR '':'' s = Some (Value (Some (length (dec n))) s)"
  using strchr_run [of p "dec n @ CHR '':'' # ys" s "CHR '':''"] by (simp add: takeWhile_before colon_not_dec)

lemma comma_after_dec:
  "takeWhile (\<lambda>d. d \<noteq> CHR '','') (dec n @ CHR '':'' # ys) =
    dec n @ CHR '':'' # takeWhile (\<lambda>d. d \<noteq> CHR '','') ys"
  using comma_not_dec [of n] by (subst takeWhile_append2) auto

text \<open>
  The common part of all calls of \<open>readNet\<close> on a string that starts with a positive decimal
  number and a colon: the checks pass and the number is read.
\<close>

lemma readNet_header:
  assumes "str_at p (dec n @ CHR '':'' # ys) s" and "0 < n" and "int n \<le> long_max"
  shows "readNet dest bufSize p fd cur s = take_net dest bufSize p fd cur (length (dec n)) (of_nat n) s"
proof -
  let ?t = "dec n @ CHR '':'' # ys"
  obtain comma where comma: "strchr p CHR '','' s = Some (Value comma s)"
    "\<not> bad_prefix (Some (length (dec n))) comma"
    using strchr_run [OF assms(1), of "CHR '',''"] by (auto simp: bad_prefix_def comma_after_dec)
  obtain rest where view: "view p s = ?t @ NUL # rest" using assms(1) by (auto simp: str_at_def)
  have bytes: "get_bytes p (length (dec n)) s = Some (Value (dec n) s)"
    by (simp add: get_bytes_def view)
  obtain c cs where dec: "dec n = c # cs" using dec_not_Nil [of n] by (cases "dec n") auto
  have char: "get_char p s = Some (Value c s)" "c \<noteq> CHR ''0''"
    using get_char_run [OF assms(1)] dec dec_first_nonzero [OF assms(2)] by simp_all
  have num: "word_of_int (atol (dec n)) = (of_nat n :: u64)"
    using strtol_dec [of n "[]"] assms(3) by (simp add: atol_def)
  show ?thesis
    using strchr_colon_net [OF assms(1)] comma bytes char num
    by (simp add: readNet_def and_then_run done_with_run)
qed

lemma read_more_done:
  "str_at p t s \<Longrightarrow> unat L \<le> length t \<Longrightarrow> read_more fd p L s = Some (Value () s)"
  by (subst read_more.simps) (simp add: and_then_run strlen_run done_with_run)

lemma unat_u64_of_nat: "n < 2 ^ 64 \<Longrightarrow> unat (of_nat n :: u64) = n"
  by (simp add: unat_of_nat take_bit_nat_eq_self_iff)

text \<open>
  The end of \<open>readNet\<close> in the buffer of \<open>recvMessage\<close> (source and destination are the same),
  when at least as many bytes follow the colon as the length says. All it asks of them is that
  one is a comma.
\<close>

definition strip_net :: "nat \<Rightarrow> string \<Rightarrow> client \<Rightarrow> client" where
  "strip_net n body s = with_block Netbuf (take n body @ NUL # drop (Suc n) (mem s Netbuf)) s"

lemma strip_net_reach [simp]: "reach (strip_net n body s) = reach s"
  by (simp add: strip_net_def)

lemma copy_net_strncpy:
  assumes mem: "mem s Netbuf = dec k @ CHR '':'' # body @ NUL # junk" and len: "length (mem s Netbuf) = BUFSIZE"
    and body: "NUL \<notin> set body" "CHR '','' \<in> set body" "n \<le> length body" and fits: "n + cur \<le> BUFSIZE"
  shows "copy_net (At Netbuf 0) BUFSIZE (At Netbuf 0) fd cur (length (dec k)) (of_nat n) s =
    and_then (strncpy (At Netbuf 0) (At Netbuf (length (dec k) + 1)) n) (\<lambda>_.
    and_then (put (At Netbuf n) [NUL]) (\<lambda>_. done_with (At Netbuf (length (dec k) + n + 2)))) s"
    and "strncpy (At Netbuf 0) (At Netbuf (length (dec k) + 1)) n s =
      (if n \<le> length (dec k) + 1 \<or> n \<le> reach s
       then Some (Value () (with_block Netbuf (take n body @ drop n (mem s Netbuf)) s)) else Some Undef)"
proof -
  let ?t = "dec k @ CHR '':'' # body"
  have str: "str_at (At Netbuf 0) ?t s"
    using mem body(1) NUL_not_dec by (intro str_atI [of _ _ _ junk]) auto
  have n: "n < BUFSIZE" "n + cur < 2 ^ 64" "length (dec k) + 1 + n < BUFSIZE"
    using len mem body(3) fits by (auto simp: BUFSIZE_def)
  then have unat: "unat (of_nat n :: u64) = n" "unat (of_nat n + of_nat cur :: u64) = n + cur"
    using unat_u64_of_nat [of n] unat_u64_of_nat [of "n + cur"] by simp_all
  obtain comma where comma: "strchr (At Netbuf 0) CHR '','' s = Some (Value comma s)"
    "\<not> bad_format (Some (length (dec k))) comma"
    using strchr_run [OF str, of "CHR '',''"] body(2) by (auto simp: bad_format_def comma_after_dec)
  show "copy_net (At Netbuf 0) BUFSIZE (At Netbuf 0) fd cur (length (dec k)) (of_nat n) s =
    and_then (strncpy (At Netbuf 0) (At Netbuf (length (dec k) + 1)) n) (\<lambda>_.
    and_then (put (At Netbuf n) [NUL]) (\<lambda>_. done_with (At Netbuf (length (dec k) + n + 2)))) s"
    using strchr_colon_net [OF str] comma unat fits
    by (simp add: copy_net_def and_then_run done_with_run)
  have view: "view (At Netbuf (length (dec k) + 1)) s = body @ NUL # junk" using mem by simp
  have "room_at (At Netbuf 0) s = BUFSIZE" using len by (simp add: room_at_def)
  moreover have "may_copy (At Netbuf 0) n (At Netbuf (length (dec k) + 1)) (min n (length body + 1)) s \<longleftrightarrow>
      n \<le> length (dec k) + 1 \<or> n \<le> reach s"
    using body(3) by (auto simp: may_copy_def)
  ultimately show "strncpy (At Netbuf 0) (At Netbuf (length (dec k) + 1)) n s =
      (if n \<le> length (dec k) + 1 \<or> n \<le> reach s
       then Some (Value () (with_block Netbuf (take n body @ drop n (mem s Netbuf)) s)) else Some Undef)"
    unfolding strncpy_def view takeWhile_str [OF body(1)] Let_def
    using n body(3) len put_run [of 0 "take n body" s Netbuf] by auto
qed

lemma copy_net_run:
  assumes mem: "mem s Netbuf = dec k @ CHR '':'' # body @ NUL # junk" and len: "length (mem s Netbuf) = BUFSIZE"
    and body: "NUL \<notin> set body" "CHR '','' \<in> set body" "n \<le> length body" and fits: "n + cur \<le> BUFSIZE"
    and reach: "n \<le> max (reach s) (length (dec k) + 1)"
  shows "copy_net (At Netbuf 0) BUFSIZE (At Netbuf 0) fd cur (length (dec k)) (of_nat n) s =
    Some (Value (At Netbuf (length (dec k) + n + 2)) (strip_net n body s))"
proof -
  have n: "n < BUFSIZE" using len mem body(3) by auto
  have "put (At Netbuf n) [NUL] (with_block Netbuf (take n body @ drop n (mem s Netbuf)) s) =
      Some (Value () (strip_net n body s))"
    using n body(3) len by (subst put_run) (simp_all add: strip_net_def)
  then show ?thesis
    using copy_net_strncpy(1) [OF mem len body fits, of fd] copy_net_strncpy(2) [OF mem len body fits] reach
    by (simp add: and_then_run done_with_run le_max_iff_disj disj_commute)
qed

text \<open>Beyond that the copy, whose source and destination overlap, leaves what C defines.\<close>

lemma copy_net_overlap:
  assumes mem: "mem s Netbuf = dec k @ CHR '':'' # body @ NUL # junk" and len: "length (mem s Netbuf) = BUFSIZE"
    and body: "NUL \<notin> set body" "CHR '','' \<in> set body" "n \<le> length body" and fits: "n + cur \<le> BUFSIZE"
    and overlap: "max (reach s) (length (dec k) + 1) < n"
  shows "copy_net (At Netbuf 0) BUFSIZE (At Netbuf 0) fd cur (length (dec k)) (of_nat n) s = Some Undef"
  using copy_net_strncpy(1) [OF mem len body fits, of fd] copy_net_strncpy(2) [OF mem len body fits] overlap
  by (simp add: and_then_run)

lemma take_net_copy:
  assumes mem: "mem s Netbuf = dec k @ CHR '':'' # body @ NUL # junk" and "length (mem s Netbuf) = BUFSIZE"
    and body: "NUL \<notin> set body" "n \<le> length body"
  shows "take_net (At Netbuf 0) BUFSIZE (At Netbuf 0) fd cur (length (dec k)) (of_nat n) s =
    copy_net (At Netbuf 0) BUFSIZE (At Netbuf 0) fd cur (length (dec k)) (of_nat n)
      (with_block Fragbuf (replicate BUFSIZE NUL) s)"
proof -
  let ?s0 = "with_block Fragbuf (replicate BUFSIZE NUL) s"
  have "str_at (At Netbuf 0) (dec k @ CHR '':'' # body) ?s0"
    using mem body(1) NUL_not_dec by (intro str_atI [of _ _ _ junk]) auto
  moreover have "unat (of_nat n :: u64) = n" using assms(1,2,4) by (intro unat_u64_of_nat) (simp add: BUFSIZE_def)
  ultimately have "read_more fd (At Netbuf 0) (of_nat n) ?s0 = Some (Value () ?s0)"
    using body(2) by (intro read_more_done [of _ "dec k @ CHR '':'' # body"]) simp_all
  then show ?thesis by (simp add: take_net_def and_then_run zero_array_def)
qed

text \<open>One round of the loop of \<open>recvMessage\<close>: a netstring moves from the buffer to its place.\<close>

lemma drop_strip:
  "n < k \<Longrightarrow> n \<le> length body \<Longrightarrow> k \<le> length M \<Longrightarrow> drop k (take n body @ NUL # drop (Suc n) M) = drop k M"
  by (simp add: drop_Cons')

text \<open>
  A frame: the length, a colon, the payload, one character in the place of the terminator, and
  what follows.
\<close>

definition framed :: "string \<Rightarrow> char \<Rightarrow> string \<Rightarrow> string" where
  "framed t z r = dec (length t) @ CHR '':'' # t @ z # r"

lemma framed_net: "framed t CHR '','' r = net t @ r"
  by (simp add: framed_def net_def)

lemma readNet_copy_net:
  assumes mem: "mem s Netbuf = framed t z r @ NUL # junk" and len: "length (mem s Netbuf) = BUFSIZE"
    and t: "NUL \<notin> set (t @ z # r)" "t \<noteq> []"
  shows "readNet (At Netbuf 0) BUFSIZE (At Netbuf 0) fd cur s =
    copy_net (At Netbuf 0) BUFSIZE (At Netbuf 0) fd cur (length (dec (length t))) (of_nat (length t))
      (with_block Fragbuf (replicate BUFSIZE NUL) s)"
proof -
  let ?n = "length t" and ?body = "t @ z # r"
  have M: "mem s Netbuf = dec ?n @ CHR '':'' # ?body @ NUL # junk" using mem by (simp add: framed_def)
  have n: "0 < ?n" "?n < BUFSIZE" using t(2) len mem by (auto simp: framed_def)
  have "str_at (At Netbuf 0) (dec ?n @ CHR '':'' # ?body) s"
    using t(1) M NUL_not_dec by (intro str_atI [of _ _ _ junk]) auto
  then have "readNet (At Netbuf 0) BUFSIZE (At Netbuf 0) fd cur s =
      take_net (At Netbuf 0) BUFSIZE (At Netbuf 0) fd cur (length (dec ?n)) (of_nat ?n) s"
    using n by (intro readNet_header) (auto simp: BUFSIZE_def)
  also have "\<dots> = copy_net (At Netbuf 0) BUFSIZE (At Netbuf 0) fd cur (length (dec ?n)) (of_nat ?n)
      (with_block Fragbuf (replicate BUFSIZE NUL) s)"
    by (rule take_net_copy [OF M len t(1)]) simp
  finally show ?thesis .
qed

lemma readNet_overlap:
  assumes mem: "mem s Netbuf = framed t z r @ NUL # junk" and len: "length (mem s Netbuf) = BUFSIZE"
    and t: "NUL \<notin> set (t @ z # r)" "CHR '','' \<in> set (t @ z # r)" and fits: "length t + cur \<le> BUFSIZE"
    and overlap: "max (reach s) (length (dec (length t)) + 1) < length t"
  shows "readNet (At Netbuf 0) BUFSIZE (At Netbuf 0) fd cur s = Some Undef"
proof -
  have "t \<noteq> []" using overlap by auto
  then show ?thesis
    using readNet_copy_net [OF mem len t(1)] assms
      copy_net_overlap [of "with_block Fragbuf (replicate BUFSIZE NUL) s" "length t" "t @ z # r" junk "length t" cur fd]
    by (simp add: framed_def)
qed

lemma readNet_framed:
  assumes mem: "mem s Netbuf = framed t z r @ NUL # junk" and len: "length (mem s Netbuf) = BUFSIZE"
    and t: "NUL \<notin> set (t @ z # r)" "CHR '','' \<in> set (t @ z # r)" "t \<noteq> []" and fits: "length t + cur \<le> BUFSIZE"
    and reach: "length t \<le> max (reach s) (length (dec (length t)) + 1)"
  shows "\<exists>m'. readNet (At Netbuf 0) BUFSIZE (At Netbuf 0) fd cur s = Some (Value (At Netbuf (length (net t))) (s\<lparr>mem := m'\<rparr>)) \<and>
    str_at (At Netbuf 0) t (s\<lparr>mem := m'\<rparr>) \<and> str_at (At Netbuf (length (net t))) r (s\<lparr>mem := m'\<rparr>) \<and>
    length (m' Netbuf) = BUFSIZE \<and> (\<forall>b. b \<notin> {Netbuf, Fragbuf} \<longrightarrow> m' b = mem s b)"
proof -
  let ?n = "length t" and ?body = "t @ z # r" and ?M = "mem s Netbuf"
  let ?q = "At Netbuf (length (dec ?n) + ?n + 2)" and ?s0 = "with_block Fragbuf (replicate BUFSIZE NUL) s"
  let ?s' = "strip_net ?n ?body ?s0"
  have M: "?M = dec ?n @ CHR '':'' # ?body @ NUL # junk" using mem by (simp add: framed_def)
  have n: "0 < ?n" "?n < BUFSIZE" using t(3) len mem by (auto simp: framed_def)
  have run: "readNet (At Netbuf 0) BUFSIZE (At Netbuf 0) fd cur s = Some (Value ?q ?s')"
    using readNet_copy_net [OF mem len t(1,3)] copy_net_run [of ?s0 ?n ?body junk ?n cur fd] M len t(1,2) fits reach
    by simp
  have eq: "?s' = s\<lparr>mem := (mem s)(Fragbuf := replicate BUFSIZE NUL,
      Netbuf := t @ NUL # drop (Suc ?n) ?M)\<rparr>"
    by (simp add: strip_net_def)
  have "drop (length (dec ?n) + ?n + 2) (mem ?s' Netbuf) = drop (length (dec ?n) + ?n + 2) ?M"
    using drop_strip [of ?n "length (dec ?n) + ?n + 2" t ?M] M by (simp add: strip_net_def)
  also have "\<dots> = r @ NUL # junk" using M by simp
  finally have "str_at ?q r ?s'" using t(1) by (intro str_atI [of _ _ _ junk]) simp_all
  moreover have "str_at (At Netbuf 0) t ?s'" using t(1)
    by (intro str_atI [of _ _ _ "drop (Suc ?n) ?M"]) (simp_all add: strip_net_def)
  moreover have "length (mem ?s' Netbuf) = BUFSIZE" using n len by (simp add: strip_net_def)
  ultimately show ?thesis using run unfolding eq by (intro exI conjI) (auto simp: length_net add.commute)
qed

lemma recv_step_copies:
  assumes char: "get_char (At Netbuf 0) s = Some (Value c s)" "c \<noteq> NUL"
    and read: "readNet (At Netbuf 0) BUFSIZE (At Netbuf 0) fd cur s = Some (Value q s1)"
    and str: "str_at (At Netbuf 0) t s1" "str_at q r s1" "\<not> in_block R q" and r: "length r < BUFSIZE"
    and len: "length (mem s1 Netbuf) = BUFSIZE" "length (mem s1 R) = BUFSIZE" and R: "R \<noteq> Netbuf"
    and fits: "cur + 2 * (length t + 1) \<le> BUFSIZE" and move: "may_copy (At Netbuf 0) (length r + 1) q (length r + 1) s1"
  shows "\<exists>m' junk'. recv_loop fd (At R 0) cur nets s =
      recv_loop fd (At R 0) (cur + length t + 1) (Suc nets) (s1\<lparr>mem := m'\<rparr>) \<and>
    m' Netbuf = r @ NUL # junk' \<and> length (m' Netbuf) = BUFSIZE \<and> length (m' R) = BUFSIZE \<and>
    take (cur + length t + 1) (m' R) = take cur (mem s1 R) @ t @ [NUL] \<and>
    (\<forall>b. b \<notin> {R, Netbuf} \<longrightarrow> m' b = mem s1 b)"
proof -
  let ?n = "length t"
  define m1 where "m1 = mem s1"
  define m2 where "m2 = m1(R := take cur (m1 R) @ t @ NUL # drop (cur + ?n + 1) (m1 R))"
  define m3 where "m3 = m2(R := take (cur + ?n + 1) (m2 R) @ t @ NUL # drop (cur + ?n + 1 + ?n + 1) (m2 R))"
  define m4 where "m4 = m3(Netbuf := r @ NUL # drop (length r + 1) (m3 Netbuf))"
  have s1: "s1 = s1\<lparr>mem := m1\<rparr>" by (simp add: m1_def)
  have lenR: "length (m1 R) = BUFSIZE" "length (m2 R) = BUFSIZE" "length (m3 R) = BUFSIZE"
    using len(2) fits by (auto simp: m1_def m2_def m3_def)
  have netbuf: "m2 Netbuf = m1 Netbuf" "m3 Netbuf = m1 Netbuf" using R by (auto simp: m2_def m3_def)
  have strs: "str_at p u (s1\<lparr>mem := m2\<rparr>) = str_at p u s1"
    "str_at p u (s1\<lparr>mem := m3\<rparr>) = str_at p u s1" if "\<not> in_block R p" for p u
    using that str_at_with_block [of R p u "s1"] str_at_with_block [of R p u "s1\<lparr>mem := m2\<rparr>"]
    by (simp_all add: m1_def m2_def m3_def)
  have copy1: "strcpy (At R cur) (At Netbuf 0) s1 = Some (Value () (s1\<lparr>mem := m2\<rparr>))"
    using strcpy_run [OF str(1), of cur R] lenR(1) R fits by (simp add: m1_def m2_def)
  have str2: "str_at (At Netbuf 0) t (s1\<lparr>mem := m2\<rparr>)"
    using strs(1) [of "At Netbuf 0" t] R str(1) by auto
  then have size: "strlen (At Netbuf 0) (s1\<lparr>mem := m2\<rparr>) = Some (Value ?n (s1\<lparr>mem := m2\<rparr>))"
    by (rule strlen_run)
  have copy2: "strcpy (At R (cur + ?n + 1)) (At Netbuf 0) (s1\<lparr>mem := m2\<rparr>) = Some (Value () (s1\<lparr>mem := m3\<rparr>))"
    using strcpy_run [OF str2, of "cur + ?n + 1" R] lenR(2) R fits by (simp add: m3_def)
  have copy3: "strcpy (At Netbuf 0) q (s1\<lparr>mem := m3\<rparr>) = Some (Value () (s1\<lparr>mem := m4\<rparr>))"
    using strcpy_eq [of q r "s1\<lparr>mem := m3\<rparr>" Netbuf 0] strs(2) [OF str(3)] str(2) r len(1) netbuf
      move by (simp add: m4_def m1_def)
  have "recv_loop fd (At R 0) cur nets s = recv_loop fd (At R 0) (cur + ?n + 1) (Suc nets) (s1\<lparr>mem := m4\<rparr>)"
    using char read copy1 size copy2 copy3 by (subst recv_loop.simps) (simp add: and_then_run)
  moreover have "m4 R = m3 R" using R by (auto simp: m4_def)
  then have "take (cur + ?n + 1) (m4 R) = take cur (mem s1 R) @ t @ [NUL]" "length (m4 R) = BUFSIZE"
    using lenR fits by (simp_all add: m3_def m2_def m1_def)
  moreover have "m4 Netbuf = r @ NUL # drop (length r + 1) (m3 Netbuf)" by (simp add: m4_def)
  moreover have "length (m4 Netbuf) = BUFSIZE" using r len(1) netbuf by (simp add: m4_def m1_def)
  moreover have "\<forall>b. b \<notin> {R, Netbuf} \<longrightarrow> m4 b = mem s1 b" by (simp add: m4_def m3_def m2_def m1_def)
  ultimately show ?thesis by blast
qed

lemma recv_step:
  assumes mem: "mem s Netbuf = framed t z r @ NUL # junk" and len: "length (mem s Netbuf) = BUFSIZE"
    and t: "NUL \<notin> set (t @ z # r)" "CHR '','' \<in> set (t @ z # r)" "t \<noteq> []"
    and R: "R \<notin> {Netbuf, Fragbuf}" "length (mem s R) = BUFSIZE"
    and fits: "cur + 2 * (length t + 1) \<le> BUFSIZE" and reach: "length t \<le> max (reach s) (length (dec (length t)) + 1)"
    and move: "length r < max (reach s) (length (net t))"
  shows "\<exists>m' junk'. recv_loop fd (At R 0) cur nets s =
      recv_loop fd (At R 0) (cur + length t + 1) (Suc nets) (s\<lparr>mem := m'\<rparr>) \<and>
    m' Netbuf = r @ NUL # junk' \<and> length (m' Netbuf) = BUFSIZE \<and> length (m' R) = BUFSIZE \<and>
    take (cur + length t + 1) (m' R) = take cur (mem s R) @ t @ [NUL] \<and>
    (\<forall>b. b \<notin> {R, Netbuf, Fragbuf} \<longrightarrow> m' b = mem s b)"
proof -
  obtain c cs where c: "dec (length t) = c # cs" using dec_not_Nil [of "length t"] by (cases "dec (length t)") auto
  have char: "get_char (At Netbuf 0) s = Some (Value c s)" "c \<noteq> NUL"
    using mem c NUL_not_dec [of "length t"] by (auto simp: get_char_def framed_def)
  let ?q = "At Netbuf (length (net t))"
  obtain m1 where q: "readNet (At Netbuf 0) BUFSIZE (At Netbuf 0) fd cur s = Some (Value ?q (s\<lparr>mem := m1\<rparr>))"
    "str_at (At Netbuf 0) t (s\<lparr>mem := m1\<rparr>)" "str_at ?q r (s\<lparr>mem := m1\<rparr>)" "\<not> in_block R ?q"
    "length (m1 Netbuf) = BUFSIZE" "\<forall>b. b \<notin> {Netbuf, Fragbuf} \<longrightarrow> m1 b = mem s b"
    using readNet_framed [OF mem len t _ reach, of cur fd] fits R(1) by auto
  have "length r < BUFSIZE" using len mem by (simp add: framed_def)
  moreover have "may_copy (At Netbuf 0) (length r + 1) ?q (length r + 1) (s\<lparr>mem := m1\<rparr>)"
    using move by (auto simp: may_copy_def)
  ultimately obtain m' junk' where m': "recv_loop fd (At R 0) cur nets s =
      recv_loop fd (At R 0) (cur + length t + 1) (Suc nets) (s\<lparr>mem := m'\<rparr>)"
    "m' Netbuf = r @ NUL # junk'" "length (m' Netbuf) = BUFSIZE" "length (m' R) = BUFSIZE"
    "take (cur + length t + 1) (m' R) = take cur (m1 R) @ t @ [NUL]" "\<forall>b. b \<notin> {R, Netbuf} \<longrightarrow> m' b = m1 b"
    using recv_step_copies [OF char q(1-4), of nets] q(5,6) R fits by auto
  then show ?thesis
    using q(6) R by (intro exI [of _ m'] exI [of _ junk']) simp
qed

text \<open>
  How messages are laid out in the destination of \<open>recvMessage\<close>; and the room they need there:
  every message is stored twice, the second time after the first.
\<close>

definition laid :: "string list \<Rightarrow> string" where
  "laid ts = concat (map (\<lambda>t. t @ [NUL]) ts)"

fun room_for :: "nat \<Rightarrow> string list \<Rightarrow> bool" where
  "room_for cur [] \<longleftrightarrow> True"
| "room_for cur (t # ts) \<longleftrightarrow> cur + 2 * (length t + 1) \<le> BUFSIZE \<and> room_for (cur + length t + 1) ts"

text \<open>
  The copies \<open>recvMessage\<close> makes within its buffer, of each message and of the rest of the buffer behind it with its
  NUL, either do not overlap or have at most \<open>k\<close> bytes.
\<close>

fun movable :: "nat \<Rightarrow> string list \<Rightarrow> bool" where
  "movable k [] \<longleftrightarrow> True"
| "movable k (t # ts) \<longleftrightarrow> length t \<le> max k (length (dec (length t)) + 1) \<and>
     length (concat (map net ts)) < max k (length (net t)) \<and> movable k ts"

lemma movable_single: "length t \<le> k \<Longrightarrow> movable k [t]"
  by (simp add: length_net le_max_iff_disj less_max_iff_disj)

definition message :: "string \<Rightarrow> bool" where
  "message t \<longleftrightarrow> t \<noteq> [] \<and> NUL \<notin> set t"

lemma laid_simps [simp]: "laid [] = []" "laid (t # ts) = t @ NUL # laid ts"
  by (simp_all add: laid_def)

lemma NUL_not_nets: "\<forall>t \<in> set ts. message t \<Longrightarrow> NUL \<notin> set (concat (map net ts))"
  by (auto simp: message_def)

lemma recv_loop_run:
  assumes "mem s Netbuf = concat (map net ts) @ NUL # junk" and "length (mem s Netbuf) = BUFSIZE"
    and "\<forall>t \<in> set ts. message t" and "R \<notin> {Netbuf, Fragbuf}" and "length (mem s R) = BUFSIZE"
    and "room_for cur ts" and "movable (reach s) ts"
  shows "\<exists>m'. recv_loop fd (At R 0) cur nets s = Some (Value (int (nets + length ts)) (s\<lparr>mem := m'\<rparr>)) \<and>
    take (cur + length (laid ts)) (m' R) = take cur (mem s R) @ laid ts \<and> length (m' R) = BUFSIZE \<and>
    (\<forall>b. b \<notin> {R, Netbuf, Fragbuf} \<longrightarrow> m' b = mem s b)"
  using assms
proof (induction ts arbitrary: s cur nets junk)
  case Nil
  then have "get_char (At Netbuf 0) s = Some (Value NUL s)" by (simp add: get_char_def)
  then have "recv_loop fd (At R 0) cur nets s = Some (Value (int nets) (s\<lparr>mem := mem s\<rparr>))"
    by (subst recv_loop.simps) (simp add: and_then_run done_with_run)
  then show ?case using Nil.prems(5) by (intro exI [of _ "mem s"]) simp
next
  case (Cons t ts)
  let ?r = "concat (map net ts)"
  have NUL: "NUL \<notin> set t" "NUL \<notin> set ?r" "t \<noteq> []"
    using Cons.prems(3) NUL_not_nets [of ts] by (auto simp: message_def)
  obtain m1 junk' where m1: "recv_loop fd (At R 0) cur nets s =
      recv_loop fd (At R 0) (cur + length t + 1) (Suc nets) (s\<lparr>mem := m1\<rparr>)"
    "m1 Netbuf = ?r @ NUL # junk'" "length (m1 Netbuf) = BUFSIZE" "length (m1 R) = BUFSIZE"
    "take (cur + length t + 1) (m1 R) = take cur (mem s R) @ t @ [NUL]"
    "\<forall>b. b \<notin> {R, Netbuf, Fragbuf} \<longrightarrow> m1 b = mem s b"
    using recv_step [of s t "CHR '',''" ?r junk R cur fd nets] Cons.prems NUL by (auto simp: framed_net)
  obtain m' where "recv_loop fd (At R 0) (cur + length t + 1) (Suc nets) (s\<lparr>mem := m1\<rparr>) =
      Some (Value (int (Suc nets + length ts)) (s\<lparr>mem := m'\<rparr>))"
    "take (cur + length t + 1 + length (laid ts)) (m' R) = take (cur + length t + 1) (m1 R) @ laid ts"
    "length (m' R) = BUFSIZE" "\<forall>b. b \<notin> {R, Netbuf, Fragbuf} \<longrightarrow> m' b = m1 b"
    using Cons.IH [of "s\<lparr>mem := m1\<rparr>" junk' "cur + length t + 1" "Suc nets"] Cons.prems m1 by auto
  with m1 show ?case by (intro exI [of _ m']) (simp add: add.assoc)
qed

lemma padded_split: "length t < BUFSIZE \<Longrightarrow> padded t = t @ NUL # replicate (BUFSIZE - length t - 1) NUL"
  by (simp add: padded_def replicate_Suc [symmetric] Suc_diff_Suc del: replicate_Suc)

lemma recvMessage_run:
  assumes "incoming s fd = Chunk (concat (map net ts)) # as" and "length (concat (map net ts)) < BUFSIZE"
    and "\<forall>t \<in> set ts. message t" and "R \<notin> {Netbuf, Fragbuf}" and "length (mem s R) = BUFSIZE"
    and "room_for 0 ts" and "movable (reach s) ts"
  shows "\<exists>m'. recvMessage fd (At R 0) s =
      Some (Value (int (length ts)) (deliver fd as (s\<lparr>mem := m'\<rparr>))) \<and>
    take (length (laid ts)) (m' R) = laid ts \<and> length (m' R) = BUFSIZE \<and>
    (\<forall>b. b \<notin> {R, Netbuf, Fragbuf} \<longrightarrow> m' b = mem s b)"
proof -
  let ?c = "concat (map net ts)"
  define s1 where "s1 = with_block Netbuf (replicate BUFSIZE NUL) (with_block R (replicate BUFSIZE NUL) s)"
  define s2 where "s2 = with_block Netbuf (padded ?c) (deliver fd as s1)"
  have "steps [memset0 (At R 0) BUFSIZE, zero_array Netbuf] s = Some (Value () s1)"
    using memset0_run [OF assms(5)] by (simp add: s1_def and_then_run zero_array_def done_with_run)
  then have "recvMessage fd (At R 0) s = and_then (read_fd fd (At Netbuf 0) BUFSIZE)
      (\<lambda>ret. if ret < 0 then done_with (- 1) else recv_loop fd (At R 0) 0 0) s1"
    using memset0_run [OF assms(5)] by (simp add: recvMessage_def s1_def and_then_run zero_array_def)
  moreover have "read_fd fd (At Netbuf 0) BUFSIZE s1 = Some (Value (int (length ?c)) s2)"
    using assms(1,2) by (simp add: read_fd_def s1_def s2_def BUFSIZE_def put_run and_then_run done_with_run
        padded_def deliver_def)
  ultimately have start: "recvMessage fd (At R 0) s = recv_loop fd (At R 0) 0 0 s2"
    by (simp add: and_then_run)
  have s2: "mem s2 Netbuf = ?c @ NUL # replicate (BUFSIZE - length ?c - 1) NUL"
    "length (mem s2 Netbuf) = BUFSIZE" "length (mem s2 R) = BUFSIZE"
    using assms(2,4) padded_split [OF assms(2)] by (auto simp: s2_def s1_def deliver_def)
  obtain m' where m': "recv_loop fd (At R 0) 0 0 s2 = Some (Value (int (length ts)) (s2\<lparr>mem := m'\<rparr>))"
    "take (length (laid ts)) (m' R) = laid ts" "length (m' R) = BUFSIZE"
    "\<forall>b. b \<notin> {R, Netbuf, Fragbuf} \<longrightarrow> m' b = mem s2 b"
    using recv_loop_run [OF s2(1,2) assms(3,4) s2(3) assms(6), of fd 0] assms(7) by (auto simp: s2_def s1_def)
  have "s2\<lparr>mem := m'\<rparr> = deliver fd as (s\<lparr>mem := m'\<rparr>)"
    by (simp add: s2_def s1_def deliver_def)
  moreover have "\<forall>b. b \<notin> {R, Netbuf, Fragbuf} \<longrightarrow> m' b = mem s b"
    using m'(4) by (simp add: s2_def s1_def deliver_def)
  ultimately show ?thesis using start m' by auto
qed

section \<open>Checking\<close>

definition error_text :: "string \<Rightarrow> string \<Rightarrow> string" where
  "error_text e a = ''E expected: '' @ [CHR 0x22] @ e @ [CHR 0x22] @ '' but received: '' @ [CHR 0x22] @ a @ [CHR 0x22]"

lemma checkMessage_same:
  "str_at expected a s \<Longrightarrow> str_at actual a s \<Longrightarrow> hd (a @ [NUL]) \<noteq> CHR ''E'' \<Longrightarrow>
    checkMessage fd expected actual s = Some (Value 0 s)"
  by (simp add: checkMessage_def and_then_run get_char_run get_string_run done_with_run)

text \<open>The error message is put together in its own array.\<close>

lemma error_steps:
  assumes "str_at expected e s" and "str_at actual a s" and "\<not> in_block Errmsg expected" and "\<not> in_block Errmsg actual"
    and "length e + length a < 4000"
  shows "steps [zero_array Errmsg,
      strcpy (At Errmsg 0) (Lit ''E ''),
      strcat (At Errmsg 0) (Lit (''expected: '' @ [CHR 0x22])),
      strcat (At Errmsg 0) expected,
      strcat (At Errmsg 0) (Lit ([CHR 0x22] @ '' but received: '' @ [CHR 0x22])),
      strcat (At Errmsg 0) actual,
      strcat (At Errmsg 0) (Lit [CHR 0x22])] s =
    Some (Value () (with_block Errmsg (padded (error_text e a)) s))"
proof -
  define at where "at u = with_block Errmsg (padded u) s" for u
  have NUL: "NUL \<notin> set e" "NUL \<notin> set a" using assms(1,2) by (auto simp: str_at_def)
  have str: "str_at expected e (at u)" "str_at actual a (at u)" for u
    using assms(1-4) by (simp_all add: at_def str_at_with_block)
  have cat: "strcat (At Errmsg 0) p (at t) = Some (Value () (at (t @ u)))"
    if "NUL \<notin> set t" "str_at p u (at t)" "length t + length u < BUFSIZE" "\<not> in_block Errmsg p" for p t u
    using strcat_padded [of "at t" Errmsg t p u] that by (simp add: at_def)
  have "zero_array Errmsg s = Some (Value () (at []))" by (simp add: zero_array_def at_def padded_Nil)
  moreover have "strcpy (At Errmsg 0) (Lit ''E '') (at []) = Some (Value () (at ''E ''))"
    using strcpy_zeroed [of "at []" Errmsg "Lit ''E ''" "''E ''"] by (simp add: at_def BUFSIZE_def)
  moreover have "strcat (At Errmsg 0) (Lit (''expected: '' @ [CHR 0x22])) (at ''E '') =
      Some (Value () (at (''E expected: '' @ [CHR 0x22])))"
    using cat [of "''E ''" "Lit (''expected: '' @ [CHR 0x22])" "''expected: '' @ [CHR 0x22]"]
    by (simp add: BUFSIZE_def)
  moreover have "strcat (At Errmsg 0) expected (at (''E expected: '' @ [CHR 0x22])) =
      Some (Value () (at (''E expected: '' @ [CHR 0x22] @ e)))"
    using cat [of "''E expected: '' @ [CHR 0x22]" expected e] str(1) assms(3,5) by (simp add: BUFSIZE_def)
  moreover have "strcat (At Errmsg 0) (Lit ([CHR 0x22] @ '' but received: '' @ [CHR 0x22]))
        (at (''E expected: '' @ [CHR 0x22] @ e)) =
      Some (Value () (at (''E expected: '' @ [CHR 0x22] @ e @ [CHR 0x22] @ '' but received: '' @ [CHR 0x22])))"
    using cat [of "''E expected: '' @ [CHR 0x22] @ e" "Lit ([CHR 0x22] @ '' but received: '' @ [CHR 0x22])"
        "[CHR 0x22] @ '' but received: '' @ [CHR 0x22]"] NUL assms(3-5) by (simp add: BUFSIZE_def)
  moreover have "strcat (At Errmsg 0) actual
        (at (''E expected: '' @ [CHR 0x22] @ e @ [CHR 0x22] @ '' but received: '' @ [CHR 0x22])) =
      Some (Value () (at (''E expected: '' @ [CHR 0x22] @ e @ [CHR 0x22] @ '' but received: '' @ [CHR 0x22] @ a)))"
    using cat [of "''E expected: '' @ [CHR 0x22] @ e @ [CHR 0x22] @ '' but received: '' @ [CHR 0x22]" actual a]
      str(2) NUL assms(3-5) by (simp add: BUFSIZE_def)
  moreover have "strcat (At Errmsg 0) (Lit [CHR 0x22])
        (at (''E expected: '' @ [CHR 0x22] @ e @ [CHR 0x22] @ '' but received: '' @ [CHR 0x22] @ a)) =
      Some (Value () (at (error_text e a)))"
    using cat [of "''E expected: '' @ [CHR 0x22] @ e @ [CHR 0x22] @ '' but received: '' @ [CHR 0x22] @ a"
        "Lit [CHR 0x22]" "[CHR 0x22]"] NUL assms(3-5) by (simp add: BUFSIZE_def error_text_def)
  ultimately show ?thesis by (simp add: and_then_run done_with_run at_def)
qed

lemma checkMessage_mismatch:
  assumes "str_at expected e s" and "str_at (At b 0) a s" and "\<not> in_block Errmsg expected" and "b \<noteq> Errmsg"
    and "length (mem s b) = BUFSIZE" and "length e + length a < 4000" and "e \<noteq> a" and "hd (a @ [NUL]) \<noteq> CHR ''E''"
    and "unbroken s"
  shows "\<exists>m' out. checkMessage fd expected (At b 0) s = Some (Exited (- 1) (s\<lparr>mem := m', outgoing := out,
      sent := sent s @ [(fd, net (error_text e a))], printed := printed s @ ''Error: '' @ drop 2 (error_text e a)\<rparr>))"
proof -
  let ?err = "error_text e a"
  let ?s1 = "with_block Errmsg (padded ?err) s"
  let ?t1 = "with_block b (padded (net ?err)) ?s1"
  have err: "NUL \<notin> set ?err" "length ?err < 4090"
    using assms(1,2,6) by (auto simp: error_text_def str_at_def)
  have e1: "str_at (At Errmsg 0) ?err ?s1"
    using padded_str [OF err(1)] err(2) by (simp add: BUFSIZE_def)
  have "unbroken ?t1" using assms(9) by (simp add: unbroken_def)
  then obtain v out where "write_call fd (net ?err) ?t1 =
      Some (Value v (?t1\<lparr>outgoing := out, sent := sent ?t1 @ [(fd, net ?err)]\<rparr>))"
    by (rule write_call_returns)
  then have "sendMessage fd (At Errmsg 0) (At b 0) ?s1 =
      Some (Value v (?t1\<lparr>outgoing := out, sent := sent s @ [(fd, net ?err)]\<rparr>))"
    using sendMessage_fits [OF _ e1 _ err(2), of b fd] assms(4,5) by auto
  moreover let ?s2 = "?t1\<lparr>outgoing := out, sent := sent s @ [(fd, net ?err)]\<rparr>"
  have "view (At Errmsg 2) ?s2 = drop 2 ?err @ NUL # replicate (BUFSIZE - length ?err - 1) NUL"
    using padded_split [of ?err] err(2) assms(4) by (simp add: BUFSIZE_def error_text_def)
  then have "str_at (At Errmsg 2) (drop 2 ?err) ?s2"
    using err(1) by (intro str_atI) (auto dest: in_set_dropD)
  moreover have "\<not> in_block Errmsg (At b 0)" using assms(4) by simp
  ultimately show ?thesis
    using error_steps [OF assms(1,2,3) _ assms(6)] assms
    by (auto simp: checkMessage_def and_then_run get_char_run get_string_run exit_with_run printf_def)
qed

text \<open>The header of a netstring is at least as long as its payload for up to two characters.\<close>

lemma header_covers: "n \<le> length (dec n) + 1 \<longleftrightarrow> n \<le> 2"
proof
  assume "n \<le> 2"
  moreover have "1 \<le> length (dec n)" using dec_not_Nil [of n] by (cases "dec n") auto
  ultimately show "n \<le> length (dec n) + 1" by simp
next
  assume "n \<le> length (dec n) + 1"
  moreover have "length (dec n) + 1 < n" if "3 \<le> n"
  proof -
    have "k + 3 < 10 ^ Suc k" for k :: nat by (induction k) auto
    from this [of "n - 3"] show ?thesis using length_dec_le [of n "n - 3"] that by simp
  qed
  ultimately show "n \<le> 2" by fastforce
qed

section \<open>Properties\<close>

definition fresh_client :: "(nat \<Rightarrow> arrival list) \<Rightarrow> client" where
  "fresh_client arrivals = \<lparr>mem = (\<lambda>b. replicate BUFSIZE NUL), incoming = arrivals, outgoing = (\<lambda>_. []),
     sent = [], printed = [], closed_fds = [], sockopts = [], reach = 32\<rparr>"

lemma fresh_client_unbroken [simp]: "unbroken (fresh_client arrivals)"
  by (simp add: unbroken_def fresh_client_def)

lemma fresh_client_mem [simp]: "length (mem (fresh_client arrivals) b) = BUFSIZE"
  by (simp add: fresh_client_def)

text \<open>
  C6. \<open>sendMessage\<close> of a string of any length. Up to 4089 characters it writes exactly the
  netstring of the string (the decimal length, a colon, the string, a comma; the comment that
  speaks of a 0 byte at the end is wrong) and changes no other array than its buffer. What it returns
  is what the system makes of the write: the number of bytes it took, which may be less than were handed
  over, - 1 if the write failed, and nothing at all if the peer is gone, because the client does not catch
  the signal. A short write is not completed. From 4090
  characters on it has no defined behaviour: 4090 and 4091 pass the length test but overflow the
  buffer, and for more the \<open>write\<close> reads past its end.
\<close>

theorem sendMessage_exact:
  assumes "length (mem s b) = 4096" and "str_at m t s" and "\<not> in_block b m"
  shows "sendMessage fd m (At b 0) s =
    (if length t \<le> 4089 then
       (let s1 = with_block b (padded (net t)) s\<lparr>sent := sent s @ [(fd, net t)]\<rparr>; n = length (net t) in
        case outgoing s fd of
          [] \<Rightarrow> Some (Value (int n) s1)
        | Took k # as \<Rightarrow> Some (Value (int (min k n)) (s1\<lparr>outgoing := (outgoing s)(fd := as)\<rparr>))
        | Refused # as \<Rightarrow> Some (Value (- 1) (s1\<lparr>outgoing := (outgoing s)(fd := as)\<rparr>))
        | Broken # as \<Rightarrow> Some (Killed (s1\<lparr>outgoing := (outgoing s)(fd := as)\<rparr>)))
     else Some Undef)"
  using sendMessage_fits [of s b m t fd] sendMessage_too_long [of s b m t fd] assms
  by (auto simp: BUFSIZE_def write_call_def Let_def split: list.split write_answer.split)

theorem sendMessage_exact_witness:
  "sent (case the (sendMessage 5 (Lit ''C hi'') (At Sendbuf 0) (fresh_client (\<lambda>_. []))) of Value _ s \<Rightarrow> s) =
    [(5, ''4:C hi,'')]"
  using sendMessage_exact [of "fresh_client (\<lambda>_. [])" Sendbuf "Lit ''C hi''" "''C hi''" 5]
  by (simp add: BUFSIZE_def) (simp add: net_def dec_small digit_char_def fresh_client_def)

text \<open>
  \<open>countDigits\<close> is the number of characters \<open>printf\<close> prints for a \<open>size_t\<close>; its 16 bits
  suffice. The condition of \<open>writeNet\<close> assigns \<open>len\<close> and reads it without a sequence point; the
  two possible readings (the new length, or the buffer size stored before) decide alike.
\<close>

theorem countDigits_printf:
  assumes "c < 2 ^ 64"
  shows "unat (countDigits c) = length (dec c) \<and>
    (c < BUFSIZE - unat (countDigits c) \<longleftrightarrow> c < BUFSIZE - unat (countDigits BUFSIZE))"
proof -
  have "length (dec c) \<le> 20" using assms length_dec_le [of c 19] by simp
  moreover have "length (dec BUFSIZE) = 4"
    using length_dec_le [of BUFSIZE 3] length_dec_ge [of 3 BUFSIZE] by (simp add: BUFSIZE_def)
  ultimately show ?thesis
    using countDigits_dec [of c] countDigits_small [of BUFSIZE] net_bound [of c] by (simp add: BUFSIZE_def)
qed

theorem countDigits_printf_witness: "unat (countDigits 4090) = length (dec 4090)"
  using countDigits_printf [of 4090] by simp

text \<open>
  C5. \<open>recvMessage\<close> on any number of complete netstrings that arrive together (less than 4096
  bytes in all): it returns their number and stores the messages one after the other, each with
  its NUL, and changes nothing else but its own buffers, consuming exactly these bytes. The room
  it needs in the destination is twice the last message, because each is stored a second time
  behind itself. The messages and the rest of the buffer are moved within the buffer by \<open>strncpy\<close> and \<open>strcpy\<close>; where
  such a move overlaps, the library has to do it unharmed, which \<open>movable\<close> states for each of them.
\<close>

theorem recvMessage_exact:
  assumes "incoming s fd = Chunk (concat (map net ts)) # as" and "length (concat (map net ts)) < 4096"
    and "\<forall>t \<in> set ts. t \<noteq> [] \<and> NUL \<notin> set t" and "R \<notin> {Netbuf, Fragbuf}" and "length (mem s R) = 4096"
    and "\<forall>i < length ts. length (laid (take i ts)) + 2 * (length (ts ! i) + 1) \<le> 4096"
    and "movable (reach s) ts"
  shows "\<exists>m'. recvMessage fd (At R 0) s = Some (Value (int (length ts)) (deliver fd as (s\<lparr>mem := m'\<rparr>))) \<and>
    take (length (laid ts)) (m' R) = laid ts \<and> (\<forall>b. b \<notin> {R, Netbuf, Fragbuf} \<longrightarrow> m' b = mem s b)"
proof -
  have "room_for n us" if "\<forall>i < length us. n + length (laid (take i us)) + 2 * (length (us ! i) + 1) \<le> 4096" for n us
    using that
  proof (induction us arbitrary: n)
    case (Cons u us)
    have "n + length u + 1 + length (laid (take i us)) + 2 * (length (us ! i) + 1) \<le> 4096" if "i < length us" for i
      using Cons.prems [rule_format, of "Suc i"] that by simp
    moreover have "n + 2 * (length u + 1) \<le> 4096" using Cons.prems [rule_format, of 0] by simp
    ultimately show ?case using Cons.IH [of "n + length u + 1"] by (simp add: BUFSIZE_def)
  qed simp
  then have "room_for 0 ts" using assms(6) by simp
  then show ?thesis
    using recvMessage_run [of s fd ts as R] assms by (auto simp: message_def BUFSIZE_def)
qed

definition two_nets :: "nat \<Rightarrow> arrival list" where
  "two_nets fd = [Chunk (concat (map net [''ab'', ''c'']))]"

theorem recvMessage_exact_witness:
  "\<exists>m'. recvMessage 0 (At Recvbuf 0) (fresh_client two_nets) =
      Some (Value 2 (deliver 0 [] (fresh_client two_nets\<lparr>mem := m'\<rparr>))) \<and>
    take (length (laid [''ab'', ''c''])) (m' Recvbuf) = ''ab'' @ [NUL] @ ''c'' @ [NUL]"
proof -
  let ?ts = "[''ab'', ''c'']"
  have "\<forall>i < length ?ts. length (laid (take i ?ts)) + 2 * (length (?ts ! i) + 1) \<le> 4096"
    by (simp add: less_Suc_eq)
  moreover have "length (concat (map net ?ts)) < 4096" by (simp add: net_def dec_small)
  moreover have "movable (reach (fresh_client two_nets)) ?ts"
    by (simp add: net_def dec_small fresh_client_def le_max_iff_disj less_max_iff_disj)
  ultimately show ?thesis
    using recvMessage_exact [of "fresh_client two_nets" 0 ?ts "[]" Recvbuf]
    by (auto simp: BUFSIZE_def fresh_client_def two_nets_def simp del: movable.simps)
qed

text \<open>
  C7. Round trip: what \<open>sendMessage\<close> writes for a message, delivered to \<open>recvMessage\<close>, comes
  back as the same message. The length is limited by the second copy \<open>recvMessage\<close> makes, and by what the library of
  the receiver can move within the buffer where \<open>readNet\<close> lets source and destination overlap (\<open>reach\<close>).
\<close>

theorem send_recv_roundtrip:
  assumes "length (mem s b) = 4096" and "str_at m t s" and "\<not> in_block b m" and "t \<noteq> []" and "length t \<le> 2047"
    and "incoming r fd = Chunk (net t) # as" and "R \<notin> {Netbuf, Fragbuf}" and "length (mem r R) = 4096"
    and "outgoing s fd' = []" and "length t \<le> reach r"
  shows "\<exists>s' m'. sendMessage fd' m (At b 0) s = Some (Value (int (length (net t))) s') \<and>
    sent s' = sent s @ [(fd', net t)] \<and>
    recvMessage fd (At R 0) r = Some (Value 1 (deliver fd as (r\<lparr>mem := m'\<rparr>))) \<and>
    str_at (At R 0) t (deliver fd as (r\<lparr>mem := m'\<rparr>))"
proof -
  have NUL: "NUL \<notin> set t" using assms(2) by (auto simp: str_at_def)
  have "length (dec (length t)) \<le> 4" using length_dec_bounds(1) [of "length t"] assms(5) by (simp add: BUFSIZE_def)
  then have "length (net t) < BUFSIZE" using assms(5) by (simp add: length_net BUFSIZE_def)
  then obtain m' where m': "recvMessage fd (At R 0) r = Some (Value 1 (deliver fd as (r\<lparr>mem := m'\<rparr>)))"
    "take (length t + 1) (m' R) = t @ [NUL]"
    using recvMessage_run [of r fd "[t]" as R] NUL assms(4-8) movable_single [OF assms(10)]
    by (auto simp: message_def BUFSIZE_def simp del: movable.simps)
  have "m' R = t @ NUL # drop (length t + 1) (m' R)"
    using append_take_drop_id [of "length t + 1" "m' R"] m'(2) by (metis append.assoc append_Cons append_Nil)
  then have "str_at (At R 0) t (deliver fd as (r\<lparr>mem := m'\<rparr>))"
    using NUL by (intro str_atI) (simp_all add: deliver_def)
  then show ?thesis
    using sendMessage_fits [of s b m t fd'] assms(1-3,5,9) m'(1) by (auto simp: BUFSIZE_def)
qed

theorem send_recv_roundtrip_witness:
  "\<exists>m'. recvMessage 0 (At Recvbuf 0) (fresh_client (\<lambda>_. [Chunk (net ''x,:'')])) =
      Some (Value 1 (deliver 0 [] (fresh_client (\<lambda>_. [Chunk (net ''x,:'')])\<lparr>mem := m'\<rparr>)))"
  using send_recv_roundtrip [of "fresh_client (\<lambda>_. [])" Sendbuf "Lit ''x,:''" "''x,:''"
      "fresh_client (\<lambda>_. [Chunk (net ''x,:'')])" 0 "[]" Recvbuf 1]
  by (auto simp: BUFSIZE_def fresh_client_def)

section \<open>Netstrings in pieces\<close>

text \<open>
  \<open>recvMessage\<close> on one read that starts with a decimal number and a colon, up to the loop that
  waits for the rest.
\<close>

definition received_state :: "nat \<Rightarrow> block \<Rightarrow> string \<Rightarrow> arrival list \<Rightarrow> client \<Rightarrow> client" where
  "received_state fd R c as s = with_block Netbuf (padded c)
     (deliver fd as (with_block R (replicate BUFSIZE NUL) s))"

lemma received_state_reach [simp]: "reach (received_state fd R c as s) = reach s"
  by (simp add: received_state_def)

lemma recvMessage_start:
  assumes "incoming s fd = Chunk c # as" and "length c < BUFSIZE" and "length (mem s R) = BUFSIZE" and "R \<noteq> Netbuf"
  shows "recvMessage fd (At R 0) s = recv_loop fd (At R 0) 0 0 (received_state fd R c as s)"
proof -
  let ?s0 = "with_block R (replicate BUFSIZE NUL) s"
  let ?s1 = "with_block Netbuf (replicate BUFSIZE NUL) ?s0"
  have "read_fd fd (At Netbuf 0) BUFSIZE ?s1 = Some (Value (int (length c)) (received_state fd R c as s))"
    using assms(1,2) by (simp add: read_fd_def BUFSIZE_def put_run and_then_run done_with_run
        padded_def deliver_def received_state_def)
  moreover have "zero_array Netbuf ?s0 = Some (Value () ?s1)" by (simp add: zero_array_def)
  ultimately show ?thesis
    using memset0_run [OF assms(3)] by (simp add: recvMessage_def and_then_run)
qed

lemma recv_loop_readNet:
  assumes "str_at (At Netbuf 0) t s" and "t \<noteq> []"
    and "readNet (At Netbuf 0) BUFSIZE (At Netbuf 0) fd cur s = r" and "r = None \<or> r = Some Undef \<or> (\<exists>c s'. r = Some (Exited c s'))"
  shows "recv_loop fd R cur nets s = (case r of None \<Rightarrow> None | Some (Exited c s') \<Rightarrow> Some (Exited c s') | _ \<Rightarrow> Some Undef)"
proof -
  have "get_char (At Netbuf 0) s = Some (Value (hd t) s)" "hd t \<noteq> NUL"
    using get_char_run [OF assms(1)] assms(1,2) by (cases t; auto simp: str_at_def)+
  then show ?thesis
    using assms(3,4) by (subst recv_loop.simps) (auto simp: and_then_run)
qed

lemma recvMessage_overlap_undef:
  assumes "incoming s fd = Chunk (net t) # as" and "length (net t) < BUFSIZE" and "NUL \<notin> set t"
    and "R \<notin> {Netbuf, Fragbuf}" and "length (mem s R) = BUFSIZE" and "length t \<le> BUFSIZE"
    and "max (reach s) (length (dec (length t)) + 1) < length t"
  shows "recvMessage fd (At R 0) s = Some Undef"
proof -
  let ?s1 = "received_state fd R (net t) as s"
  let ?junk = "replicate (BUFSIZE - length (net t) - 1) NUL"
  have mem: "mem ?s1 Netbuf = framed t CHR '','' [] @ NUL # ?junk" "length (mem ?s1 Netbuf) = BUFSIZE"
    using padded_split [OF assms(2)] assms(2) by (simp_all add: received_state_def framed_net)
  then have str: "str_at (At Netbuf 0) (net t) ?s1"
    using assms(3) NUL_not_dec by (intro str_atI [of _ _ _ ?junk]) (auto simp: framed_net net_def)
  have "readNet (At Netbuf 0) BUFSIZE (At Netbuf 0) fd 0 ?s1 = Some Undef"
    using assms by (intro readNet_overlap [OF mem]) simp_all
  then have "recv_loop fd (At R 0) 0 0 ?s1 = Some Undef"
    using recv_loop_readNet [OF str] by (simp add: net_def)
  then show ?thesis using recvMessage_start [OF assms(1,2), of R] assms(4,5) by simp
qed

lemma received_header:
  assumes "length (dec n @ CHR '':'' # u) < BUFSIZE" and "NUL \<notin> set u" and "0 < n" and "n < 2 ^ 63"
  shows "str_at (At Netbuf 0) (dec n @ CHR '':'' # u) (received_state fd R (dec n @ CHR '':'' # u) as s)"
    and "readNet (At Netbuf 0) BUFSIZE (At Netbuf 0) fd cur (received_state fd R (dec n @ CHR '':'' # u) as s) =
      and_then (read_more fd (At Netbuf 0) (of_nat n))
        (\<lambda>_. copy_net (At Netbuf 0) BUFSIZE (At Netbuf 0) fd cur (length (dec n)) (of_nat n))
        (with_block Fragbuf (replicate BUFSIZE NUL) (received_state fd R (dec n @ CHR '':'' # u) as s))"
proof -
  show str: "str_at (At Netbuf 0) (dec n @ CHR '':'' # u) (received_state fd R (dec n @ CHR '':'' # u) as s)"
    using assms(1,2) NUL_not_dec by (intro padded_str) (auto simp: received_state_def)
  show "readNet (At Netbuf 0) BUFSIZE (At Netbuf 0) fd cur (received_state fd R (dec n @ CHR '':'' # u) as s) =
      and_then (read_more fd (At Netbuf 0) (of_nat n))
        (\<lambda>_. copy_net (At Netbuf 0) BUFSIZE (At Netbuf 0) fd cur (length (dec n)) (of_nat n))
        (with_block Fragbuf (replicate BUFSIZE NUL) (received_state fd R (dec n @ CHR '':'' # u) as s))"
    using readNet_header [OF str assms(3)] assms(4) by (simp add: take_net_def and_then_run zero_array_def)
qed

lemma copy_net_rejects:
  assumes str: "str_at (At Netbuf 0) (dec n @ CHR '':'' # u) s" and "CHR '','' \<notin> set u"
    and "length (mem s Netbuf) = BUFSIZE" and "length (dec n) + 1 + length u < 3900" and "unbroken s"
  shows "\<exists>s'. copy_net (At Netbuf 0) BUFSIZE (At Netbuf 0) fd cur (length (dec n)) L s = Some (Exited (- 1) s') \<and>
    sent s' = sent s @ [(fd, net (error_text ''String in netstring format'' (dec n @ CHR '':'' # u)))]"
proof -
  let ?c = "dec n @ CHR '':'' # u"
  have comma: "strchr (At Netbuf 0) CHR '','' s = Some (Value None s)"
    using strchr_run [OF str, of "CHR '',''"] assms(2) comma_not_dec by simp
  obtain c cs where c: "dec n = c # cs" using dec_not_Nil [of n] by (cases "dec n") auto
  have "is_digit c" using dec_digits [of c n] c by simp
  then have "c \<noteq> CHR ''S''" "c \<noteq> CHR ''E''" by (auto simp: is_digit_def)
  then obtain m' out where "checkMessage fd (Lit ''String in netstring format'') (At Netbuf 0) s =
      Some (Exited (- 1) (s\<lparr>mem := m', outgoing := out, sent := sent s @ [(fd, net (error_text ''String in netstring format'' ?c))],
        printed := printed s @ ''Error: '' @ drop 2 (error_text ''String in netstring format'' ?c)\<rparr>))"
    using checkMessage_mismatch [of "Lit ''String in netstring format''" "''String in netstring format''" s Netbuf ?c fd]
      str assms(3-5) c by auto
  then show ?thesis
    using strchr_colon_net [OF str] comma by (simp add: copy_net_def and_then_run bad_format_def)
qed

text \<open>
  C34. A netstring whose end has not arrived yet is rejected instead of awaited when only few
  bytes are missing: the loop compares the length of the payload with the length of everything
  received, header included. If the part received lacks the comma but has, with its header, at
  least as many characters as the payload should have, the client sends an error to the peer and
  ends with status \<open>- 1\<close>, although the rest may be on its way (if the peer has not closed the connection).
\<close>

theorem recvMessage_rejects_fragment:
  assumes "incoming s fd = Chunk (dec n @ CHR '':'' # u) # as" and "NUL \<notin> set u" and "CHR '','' \<notin> set u"
    and "0 < n" and "n \<le> length (dec n) + 1 + length u" and "length (dec n) + 1 + length u < 3900"
    and "R \<notin> {Netbuf, Fragbuf}" and "length (mem s R) = 4096" and "unbroken s"
  shows "\<exists>s'. recvMessage fd (At R 0) s = Some (Exited (- 1) s') \<and>
    sent s' = sent s @ [(fd, net (error_text ''String in netstring format'' (dec n @ CHR '':'' # u)))]"
proof -
  let ?c = "dec n @ CHR '':'' # u"
  let ?s1 = "received_state fd R ?c as s"
  let ?s2 = "with_block Fragbuf (replicate BUFSIZE NUL) ?s1"
  have len: "length ?c < BUFSIZE" "n < 2 ^ 63" using assms(5,6) by (auto simp: BUFSIZE_def)
  have str1: "str_at (At Netbuf 0) ?c ?s1" by (rule received_header(1) [OF len(1) assms(2,4) len(2)])
  then have str: "str_at (At Netbuf 0) ?c ?s2" by (simp add: str_at_with_block)
  have "unat (of_nat n :: u64) = n" using len(2) by (intro unat_u64_of_nat) simp
  then have "read_more fd (At Netbuf 0) (of_nat n) ?s2 = Some (Value () ?s2)"
    using assms(5) by (intro read_more_done [OF str]) simp
  moreover obtain s' where s': "copy_net (At Netbuf 0) BUFSIZE (At Netbuf 0) fd 0 (length (dec n)) (of_nat n) ?s2 =
      Some (Exited (- 1) s')" "sent s' = sent ?s2 @ [(fd, net (error_text ''String in netstring format'' ?c))]"
    using copy_net_rejects [OF str assms(3), of fd 0 "of_nat n"] len(1) assms(6,9) by (auto simp: received_state_def)
  ultimately have "readNet (At Netbuf 0) BUFSIZE (At Netbuf 0) fd 0 ?s1 = Some (Exited (- 1) s')"
    using received_header(2) [OF len(1) assms(2,4) len(2)] by (simp add: and_then_run)
  then have "recvMessage fd (At R 0) s = Some (Exited (- 1) s')"
    using recvMessage_start [OF assms(1) len(1), of R] assms(7,8) recv_loop_readNet [OF str1]
    by (simp add: BUFSIZE_def)
  then show ?thesis using s'(2) by (simp add: received_state_def deliver_def)
qed

lemma dec_5: "dec 5 = ''5''" and dec_9: "dec 9 = ''9''"
  by (simp_all add: dec_small digit_char_def)

definition one_arrival :: "string \<Rightarrow> arrival list \<Rightarrow> nat \<Rightarrow> arrival list" where
  "one_arrival c as = (\<lambda>fd. Chunk c # as)"

theorem recvMessage_rejects_fragment_witness:
  "\<exists>s'. recvMessage 3 (At Recvbuf 0) (fresh_client (one_arrival ''5:S AC'' [Chunk ''K,''])) = Some (Exited (- 1) s')"
  using recvMessage_rejects_fragment [of "fresh_client (one_arrival ''5:S AC'' [Chunk ''K,''])" 3 5 "''S AC''"
      "[Chunk ''K,'']" Recvbuf]
  unfolding dec_5 by (auto simp: fresh_client_def one_arrival_def BUFSIZE_def unbroken_def)

lemma str_at_zeros [simp]: "mem s b = replicate BUFSIZE NUL \<Longrightarrow> str_at (At b 0) [] s"
  by (intro padded_str) (simp_all add: padded_Nil BUFSIZE_def)

text \<open>At the end of the stream nothing changes from one round of the loop to the next.\<close>

lemma read_more_endless:
  assumes "read_more fd p L s = Some y"
  shows "\<not> (p = At Netbuf 0 \<and> str_at p t s \<and> length t < unat L \<and>
    mem s Fragbuf = replicate BUFSIZE NUL \<and> incoming s fd = Closed # as)"
  using assms
proof (rule read_more.raw_induct [rotated])
  fix loop fd p L s y
  assume IH: "\<And>fd p L s y. loop fd p L s = Some y \<Longrightarrow> \<not> (p = At Netbuf 0 \<and> str_at p t s \<and> length t < unat L \<and>
      mem s Fragbuf = replicate BUFSIZE NUL \<and> incoming s fd = Closed # as)"
    and body: "and_then (strlen p) (\<lambda>n. if n < unat L then
       and_then (strlen (At Fragbuf 0)) (\<lambda>k.
       and_then (read_fd fd (At Fragbuf 0) (unat (L - of_nat k))) (\<lambda>r.
       if r < 0 then done_with ()
       else and_then (strcat p (At Fragbuf 0)) (\<lambda>_ s. loop fd p L s)))
     else done_with ()) s = Some y"
  show "\<not> (p = At Netbuf 0 \<and> str_at p t s \<and> length t < unat L \<and>
      mem s Fragbuf = replicate BUFSIZE NUL \<and> incoming s fd = Closed # as)"
  proof
    assume stuck: "p = At Netbuf 0 \<and> str_at p t s \<and> length t < unat L \<and>
      mem s Fragbuf = replicate BUFSIZE NUL \<and> incoming s fd = Closed # as"
    then have str: "str_at (At Netbuf 0) t s" "str_at (At Fragbuf 0) [] s" by auto
    obtain rest where rest: "mem s Netbuf = t @ NUL # rest" using str(1) by (auto simp: str_at_def)
    have "with_block Netbuf (t @ NUL # rest) s = s" using rest [symmetric] by simp
    then have "strcat (At Netbuf 0) (At Fragbuf 0) s = Some (Value () s)"
      using strcat_run [OF str] rest by simp
    moreover have "read_fd fd (At Fragbuf 0) (unat L) s = Some (Value 0 s)"
      using stuck by (auto simp: read_fd_def)
    ultimately have "loop fd p L s = Some y"
      using body stuck strlen_run [OF str(1)] strlen_run [OF str(2)] by (simp add: and_then_run)
    then show False using IH stuck by blast
  qed
qed

text \<open>
  The end of the stream right behind the first piece: \<open>read\<close> returns 0, which the loop of \<open>readNet\<close> does
  not distinguish from progress, so \<open>recvMessage\<close> never returns.
\<close>

lemma recvMessage_endless_at_eof:
  assumes "incoming s fd = Chunk (dec n @ CHR '':'' # u) # Closed # as" and "NUL \<notin> set u"
    and "length (dec n) + 1 + length u < n" and "length (dec n) + 1 + length u < 4096" and "n < 2 ^ 63"
    and "R \<notin> {Netbuf, Fragbuf}" and "length (mem s R) = 4096"
  shows "recvMessage fd (At R 0) s = None"
proof -
  let ?c = "dec n @ CHR '':'' # u"
  let ?s1 = "received_state fd R ?c (Closed # as) s"
  let ?s2 = "with_block Fragbuf (replicate BUFSIZE NUL) ?s1"
  have len: "length ?c < BUFSIZE" "0 < n" using assms(3,4) by (auto simp: BUFSIZE_def)
  have str1: "str_at (At Netbuf 0) ?c ?s1" by (rule received_header(1) [OF len(1) assms(2) len(2) assms(5)])
  have "unat (of_nat n :: u64) = n" using assms(5) by (intro unat_u64_of_nat) simp
  moreover have "str_at (At Netbuf 0) ?c ?s2" using str1 by (simp add: str_at_with_block)
  moreover have "incoming ?s2 fd = Closed # as" by (simp add: received_state_def deliver_def)
  ultimately have "read_more fd (At Netbuf 0) (of_nat n) ?s2 = None"
    using read_more_endless [of fd "At Netbuf 0" "of_nat n" ?s2 _ ?c as] assms(3)
    by (cases "read_more fd (At Netbuf 0) (of_nat n) ?s2") simp_all
  then have "readNet (At Netbuf 0) BUFSIZE (At Netbuf 0) fd 0 ?s1 = None"
    using received_header(2) [OF len(1) assms(2) len(2) assms(5)] by (simp add: and_then_run)
  then show ?thesis
    using recvMessage_start [OF assms(1) len(1), of R] assms(6,7) recv_loop_readNet [OF str1]
    by (simp add: BUFSIZE_def)
qed

text \<open>
  The terminator of a netstring is not checked: readNet only asks for a comma somewhere after
  the colon, so if the payload contains one, any character in the place of the terminator is
  accepted and skipped (if the library moves the payload unharmed).
\<close>

theorem recvMessage_any_terminator:
  assumes "incoming s fd = Chunk (dec (length t) @ CHR '':'' # t @ [z]) # as" and "NUL \<notin> set (t @ [z])"
    and "CHR '','' \<in> set t" and "length t \<le> 2047" and "R \<notin> {Netbuf, Fragbuf}" and "length (mem s R) = 4096"
    and "length t \<le> reach s"
  shows "\<exists>m'. recvMessage fd (At R 0) s = Some (Value 1 (deliver fd as (s\<lparr>mem := m'\<rparr>))) \<and>
    str_at (At R 0) t (deliver fd as (s\<lparr>mem := m'\<rparr>))"
proof -
  let ?c = "framed t z []"
  let ?s1 = "received_state fd R ?c as s"
  have "length (dec (length t)) \<le> 4" using length_dec_bounds(1) [of "length t"] assms(4) by (simp add: BUFSIZE_def)
  then have len: "length ?c < BUFSIZE" using assms(4) by (simp add: framed_def BUFSIZE_def)
  have s1: "mem ?s1 Netbuf = ?c @ NUL # replicate (BUFSIZE - length ?c - 1) NUL" "length (mem ?s1 Netbuf) = BUFSIZE"
    "length (mem ?s1 R) = BUFSIZE"
    using padded_split [OF len] len assms(5) by (auto simp: received_state_def)
  have ne: "t \<noteq> []" using assms(3) by auto
  have move: "length t \<le> max (reach ?s1) (length (dec (length t)) + 1)" "length [] < max (reach ?s1) (length (net t))"
    using assms(7) by (simp_all add: length_net le_max_iff_disj less_max_iff_disj)
  obtain m' junk' where m': "recv_loop fd (At R 0) 0 0 ?s1 = recv_loop fd (At R 0) (length t + 1) 1 (?s1\<lparr>mem := m'\<rparr>)"
    "m' Netbuf = NUL # junk'" "length (m' R) = BUFSIZE" "take (length t + 1) (m' R) = t @ [NUL]"
    using recv_step [OF s1(1,2) _ _ ne _ _ _ move, of R 0 fd 0] s1(3) assms(2-5)
    by (auto simp: BUFSIZE_def)
  have "recv_loop fd (At R 0) (length t + 1) 1 (?s1\<lparr>mem := m'\<rparr>) = Some (Value 1 (?s1\<lparr>mem := m'\<rparr>))"
    using m'(2) by (subst recv_loop.simps) (simp add: and_then_run done_with_run get_char_def)
  moreover have "?s1\<lparr>mem := m'\<rparr> = deliver fd as (s\<lparr>mem := m'\<rparr>)"
    by (simp add: received_state_def deliver_def)
  moreover have "m' R = t @ NUL # drop (length t + 1) (m' R)"
    using append_take_drop_id [of "length t + 1" "m' R"] m'(4) by (metis append.assoc append_Cons append_Nil)
  then have "str_at (At R 0) t (deliver fd as (s\<lparr>mem := m'\<rparr>))"
    using assms(2) by (intro str_atI) (simp_all add: deliver_def)
  ultimately show ?thesis
    using recvMessage_start [of s fd ?c as R] assms(1,5,6) len m'(1) by (auto simp: framed_def BUFSIZE_def)
qed

lemma dec_3: "dec (length ''a,b'') = ''3''"
  by (simp add: dec_small digit_char_def)

theorem recvMessage_any_terminator_witness:
  "\<exists>m'. recvMessage 3 (At Recvbuf 0) (fresh_client (one_arrival ''3:a,bX'' [])) =
    Some (Value 1 (deliver 3 [] (fresh_client (one_arrival ''3:a,bX'' [])\<lparr>mem := m'\<rparr>)))"
  using recvMessage_any_terminator [of "fresh_client (one_arrival ''3:a,bX'' [])" 3 "''a,b''" "CHR ''X''" "[]" Recvbuf]
  unfolding dec_3 by (auto simp: fresh_client_def one_arrival_def BUFSIZE_def)

text \<open>
  C30. What the C standard leaves of receiving a single netstring. \<open>readNet\<close> copies the payload to the
  front of the very buffer it stands in, over the few bytes of the header, with \<open>strncpy\<close>, for which
  C defines nothing when the two ranges overlap. So \<open>recvMessage\<close> delivers a complete netstring of up to 2047
  characters if the payload is at most two characters long (it then ends before the copy begins to overlap)
  or the library at hand moves that many overlapping bytes unharmed, and its behaviour is undefined
  otherwise: by the C standard alone, not even ''S ACK'' can be received.
\<close>

theorem recvMessage_overlap:
  assumes "incoming s fd = Chunk (net t) # as" and "t \<noteq> []" and "NUL \<notin> set t" and "length t \<le> 2047"
    and "R \<notin> {Netbuf, Fragbuf}" and "length (mem s R) = 4096"
  shows "if length t \<le> 2 \<or> length t \<le> reach s
    then \<exists>m'. recvMessage fd (At R 0) s = Some (Value 1 (deliver fd as (s\<lparr>mem := m'\<rparr>))) \<and>
      str_at (At R 0) t (deliver fd as (s\<lparr>mem := m'\<rparr>))
    else recvMessage fd (At R 0) s = Some Undef"
proof -
  let ?n = "length t"
  have dec: "length (dec ?n) \<le> 4" using length_dec_bounds(1) [of ?n] assms(4) by (simp add: BUFSIZE_def)
  then have len: "length (net t) < BUFSIZE" using assms(4) by (simp add: length_net BUFSIZE_def)
  have within_header: "?n \<le> length (dec ?n) + 1 \<longleftrightarrow> ?n \<le> 2" by (rule header_covers)
  show ?thesis
  proof (cases "?n \<le> 2 \<or> ?n \<le> reach s")
    case True
    then have "movable (reach s) [t]"
      using within_header by (auto simp: length_net le_max_iff_disj less_max_iff_disj)
    then obtain m' where m': "recvMessage fd (At R 0) s = Some (Value 1 (deliver fd as (s\<lparr>mem := m'\<rparr>)))"
      "take (?n + 1) (m' R) = t @ [NUL]"
      using recvMessage_run [of s fd "[t]" as R] assms len
      by (auto simp: message_def BUFSIZE_def simp del: movable.simps)
    have "m' R = t @ NUL # drop (?n + 1) (m' R)"
      using append_take_drop_id [of "?n + 1" "m' R"] m'(2) by (metis append.assoc append_Cons append_Nil)
    then have "str_at (At R 0) t (deliver fd as (s\<lparr>mem := m'\<rparr>))"
      using assms(3) by (intro str_atI) (simp_all add: deliver_def)
    with m'(1) True show ?thesis by auto
  next
    case False
    then have "recvMessage fd (At R 0) s = Some Undef"
      using recvMessage_overlap_undef [OF assms(1) len assms(3), of R] assms(4-6) within_header
      by (auto simp: BUFSIZE_def)
    with False show ?thesis by simp
  qed
qed

theorem recvMessage_overlap_witness:
  "recvMessage 3 (At Recvbuf 0) ((fresh_client (one_arrival (net ''S ACK'') []))\<lparr>reach := 0\<rparr>) = Some Undef"
  using recvMessage_overlap [of "(fresh_client (one_arrival (net ''S ACK'') []))\<lparr>reach := 0\<rparr>" 3 "''S ACK''" "[]" Recvbuf]
  by (simp add: fresh_client_def one_arrival_def BUFSIZE_def)

text \<open>
  C36. A correct netstring of 2048 to 4089 characters destroys the receiver: it fits into the buffer
  once, but \<open>recvMessage\<close> prints every message a second time behind itself, past the end of the
  destination. That holds for every library: one that moves the overlapping text inside the buffer as a
  whole gets as far as this print, and with any other the receiver is lost before it.
\<close>

theorem recvMessage_second_copy_overflows:
  assumes "incoming s fd = Chunk (net t) # as" and "NUL \<notin> set t" and "2048 \<le> length t" and "length t \<le> 4089"
    and "R \<notin> {Netbuf, Fragbuf}" and "length (mem s R) = 4096"
  shows "recvMessage fd (At R 0) s = Some Undef"
proof -
  let ?n = "length t"
  let ?s1 = "received_state fd R (net t) as s"
  have "length (dec ?n) \<le> 4" using length_dec_bounds(1) [of ?n] assms(4) by (simp add: BUFSIZE_def)
  then have len: "length (net t) < BUFSIZE" using assms(4) by (simp add: length_net BUFSIZE_def)
  have mem: "mem ?s1 Netbuf = framed t CHR '','' [] @ NUL # replicate (BUFSIZE - length (net t) - 1) NUL"
    using padded_split [OF len] by (simp add: received_state_def framed_net)
  have s1: "length (mem ?s1 Netbuf) = BUFSIZE" "length (mem ?s1 R) = BUFSIZE"
    using len assms(5) by (auto simp: received_state_def)
  obtain c cs where c: "dec ?n = c # cs" using dec_not_Nil [of ?n] by (cases "dec ?n") auto
  have char: "get_char (At Netbuf 0) ?s1 = Some (Value c ?s1)" "c \<noteq> NUL"
    using mem c NUL_not_dec [of ?n] by (auto simp: get_char_def framed_def)
  have t: "NUL \<notin> set (t @ CHR '','' # [])" "t \<noteq> []" using assms(2,3) by auto
  have str: "str_at (At Netbuf 0) (net t) ?s1"
    using mem t(1) NUL_not_dec by (intro str_atI [of _ _ _ "replicate (BUFSIZE - length (net t) - 1) NUL"]) (auto simp: framed_net net_def)
  have "recv_loop fd (At R 0) 0 0 ?s1 = Some Undef"
  proof (cases "length t \<le> max (reach ?s1) (length (dec ?n) + 1)")
    case False
    then have "readNet (At Netbuf 0) BUFSIZE (At Netbuf 0) fd 0 ?s1 = Some Undef"
      using assms(4) by (intro readNet_overlap [OF mem s1(1) t(1)]) (auto simp: BUFSIZE_def le_max_iff_disj)
    then show ?thesis using recv_loop_readNet [OF str] by (simp add: net_def)
  next
    case move: True
  obtain q m1 where q: "readNet (At Netbuf 0) BUFSIZE (At Netbuf 0) fd 0 ?s1 = Some (Value q (?s1\<lparr>mem := m1\<rparr>))"
    "str_at (At Netbuf 0) t (?s1\<lparr>mem := m1\<rparr>)" "\<forall>b. b \<notin> {Netbuf, Fragbuf} \<longrightarrow> m1 b = mem ?s1 b"
    using readNet_framed [OF mem s1(1) t(1) _ t(2) _ move, of 0 fd] assms(4) by (auto simp: BUFSIZE_def)
  have lenR: "length (m1 R) = BUFSIZE" using q(3) assms(5) s1(2) by auto
  define m2 where "m2 = m1(R := t @ NUL # drop (?n + 1) (m1 R))"
  have "strcpy (At R 0) (At Netbuf 0) (?s1\<lparr>mem := m1\<rparr>) = Some (Value () (?s1\<lparr>mem := m2\<rparr>))"
    using strcpy_run [OF q(2), of 0 R] lenR assms(4) assms(5)
      by (auto simp: m2_def BUFSIZE_def)
  moreover have str2: "str_at (At Netbuf 0) t (?s1\<lparr>mem := m2\<rparr>)"
    using q(2) assms(5) by (auto simp: m2_def str_at_def)
  moreover have "strcpy (At R (?n + 1)) (At Netbuf 0) (?s1\<lparr>mem := m2\<rparr>) = Some Undef"
    using strcpy_overflow [OF str2, of R "?n + 1"] lenR assms(3,4) by (simp add: m2_def BUFSIZE_def)
  ultimately show ?thesis
    using char q(1) strlen_run [OF str2] by (subst recv_loop.simps) (simp add: and_then_run)
  qed
  then show ?thesis
    using recvMessage_start [OF assms(1) len, of R] assms(5,6) by (simp add: BUFSIZE_def)
qed

theorem recvMessage_second_copy_overflows_witness:
  "recvMessage 3 (At Recvbuf 0) ((fresh_client (one_arrival (net (replicate 2048 CHR ''x'')) []))\<lparr>reach := 4096\<rparr>) = Some Undef"
  using recvMessage_second_copy_overflows
    [of "(fresh_client (one_arrival (net (replicate 2048 CHR ''x'')) []))\<lparr>reach := 4096\<rparr>" 3
      "replicate 2048 CHR ''x''" "[]" Recvbuf]
  by (simp add: fresh_client_def one_arrival_def BUFSIZE_def)

end
