(* ===== verification/NetPieces.thy ===== *)
theory NetPieces
  imports Netstring
begin

text \<open>
  Netstrings that arrive in pieces: when the client of assignment 4 completes them, and what the
  buffer of the loop in \<open>readNet\<close>, which is not cleared between two reads, does to the text.
\<close>

section \<open>One more read\<close>

text \<open>
  One round of the loop, with \<open>p\<close> received so far and \<open>f\<close> the fragment of the round before:
  what the new piece \<open>q\<close> does not overwrite of \<open>f\<close> is appended with it.
\<close>

definition overlay :: "string \<Rightarrow> string \<Rightarrow> string" where
  "overlay q f = q @ drop (length q) f"

lemma overlay_simps [simp]: "overlay q [] = q" "length q \<ge> length f \<Longrightarrow> overlay q f = q"
  by (simp_all add: overlay_def)

lemma read_more_piece:
  assumes mem: "mem s Netbuf = padded p" "mem s Fragbuf = padded f"
    and NUL: "NUL \<notin> set p" "NUL \<notin> set f" "NUL \<notin> set q"
    and n: "length p < n" "n < BUFSIZE" "length f + length q \<le> n" "q \<noteq> []"
    and arrival: "incoming s fd = Chunk q # as" and fits: "length p + length (overlay q f) < BUFSIZE"
  shows "read_more fd (At Netbuf 0) (of_nat n) s =
    read_more fd (At Netbuf 0) (of_nat n)
      (with_block Netbuf (padded (p @ overlay q f)) (with_block Fragbuf (padded (overlay q f)) (deliver fd as s)))"
proof -
  have "length p < BUFSIZE" "length f < BUFSIZE" using fits n by auto
  then have str: "str_at (At Netbuf 0) p s" "str_at (At Fragbuf 0) f s"
    using padded_str mem NUL by auto
  have k: "unat (of_nat n :: u64) = n" "unat (of_nat n - of_nat (length f) :: u64) = n - length f"
    using n unat_u64_of_nat [of n] unat_u64_of_nat [of "n - length f"]
    by (simp_all add: BUFSIZE_def flip: of_nat_diff)
  let ?g = "overlay q f"
  let ?s1 = "with_block Fragbuf (padded ?g) (deliver fd as s)"
  have "length q \<le> BUFSIZE" using n by simp
  then have "q @ drop (length q) (padded f) = padded ?g"
    by (simp add: padded_def overlay_def)
  then have "put (At Fragbuf 0) q (deliver fd as s) = Some (Value () ?s1)"
    using put_run [of 0 q "deliver fd as s" Fragbuf] mem(2) n by (simp add: padded_def)
  moreover have "take (n - length f) q = q" "drop (n - length f) q = []" "n - length f \<noteq> 0"
    using n by (auto simp flip: length_greater_0_conv)
  ultimately have read: "read_fd fd (At Fragbuf 0) (n - length f) s = Some (Value (int (length q)) ?s1)"
    using arrival by (simp add: read_fd_def and_then_run done_with_run)
  have g: "NUL \<notin> set ?g" using NUL by (auto simp: overlay_def dest: in_set_dropD)
  then have "str_at (At Fragbuf 0) ?g ?s1" using padded_str [of ?g ?s1 Fragbuf] fits by simp
  then have "strcat (At Netbuf 0) (At Fragbuf 0) ?s1 = Some (Value () (with_block Netbuf (padded (p @ ?g)) ?s1))"
    using mem(1) NUL(1) fits by (intro strcat_padded) simp_all
  then show ?thesis
    using strlen_run [OF str(1)] strlen_run [OF str(2)] read n k by (subst read_more.simps) (simp add: and_then_run)
qed

lemma padded_zero: "replicate BUFSIZE NUL = padded []"
  by (simp add: padded_Nil)

text \<open>What \<open>recvMessage\<close> starts from when the first piece has arrived.\<close>

definition piece_state :: "nat \<Rightarrow> block \<Rightarrow> string \<Rightarrow> string \<Rightarrow> arrival list \<Rightarrow> client \<Rightarrow> client" where
  "piece_state fd R c g as s = with_block Netbuf (padded c) (with_block Fragbuf (padded g)
     (deliver fd as (with_block R (replicate BUFSIZE NUL) s)))"

lemma piece_state_reach [simp]: "reach (piece_state fd R c g as s) = reach s"
  by (simp add: piece_state_def)

lemma piece_state_received:
  "R \<notin> {Netbuf, Fragbuf} \<Longrightarrow>
    with_block Fragbuf (replicate BUFSIZE NUL) (received_state fd R c as s) = piece_state fd R c [] as s"
  by (simp add: piece_state_def received_state_def padded_zero fun_upd_twist deliver_def)

lemma piece_state_next:
  "R \<notin> {Netbuf, Fragbuf} \<Longrightarrow> with_block Netbuf (padded c') (with_block Fragbuf (padded g')
      (deliver fd as' (piece_state fd R c g as s))) = piece_state fd R c' g' as' s"
  by (simp add: piece_state_def fun_upd_twist deliver_def fun_eq_iff)

lemma read_more_piece_state:
  assumes "R \<notin> {Netbuf, Fragbuf}" and "NUL \<notin> set p" and "NUL \<notin> set f" and "NUL \<notin> set q"
    and "length p < n" and "n < BUFSIZE" and "length f + length q \<le> n" and "q \<noteq> []"
    and "length p + length (overlay q f) < BUFSIZE"
  shows "read_more fd (At Netbuf 0) (of_nat n) (piece_state fd R p f (Chunk q # as) s) =
    read_more fd (At Netbuf 0) (of_nat n) (piece_state fd R (p @ overlay q f) (overlay q f) as s)"
  using read_more_piece [of "piece_state fd R p f (Chunk q # as) s" p f q n fd as] assms
  by (simp only: piece_state_next [OF assms(1)]) (simp add: piece_state_def)

text \<open>
  Pieces of which none is shorter than the one before, the first piece aside, and each arrives while the loop
  still waits: \<open>p\<close> and \<open>f\<close> are the lengths of what is there and of the last fragment.
\<close>

fun grows :: "nat \<Rightarrow> nat \<Rightarrow> nat \<Rightarrow> string list \<Rightarrow> bool" where
  "grows n p f [] \<longleftrightarrow> n \<le> p"
| "grows n p f (q # qs) \<longleftrightarrow> p < n \<and> f \<le> length q \<and> f + length q \<le> n \<and> q \<noteq> [] \<and>
     grows n (p + length q) (length q) qs"

lemma read_more_piece_end:
  assumes "R \<notin> {Netbuf, Fragbuf}" and "NUL \<notin> set c" and "n \<le> length c" and "length c < BUFSIZE"
  shows "read_more fd (At Netbuf 0) (of_nat n) (piece_state fd R c g as s) = Some (Value () (piece_state fd R c g as s))"
proof (rule read_more_done)
  show "str_at (At Netbuf 0) c (piece_state fd R c g as s)"
    using assms by (intro padded_str) (simp_all add: piece_state_def)
  show "unat (of_nat n :: u64) \<le> length c"
    using assms(3,4) unat_u64_of_nat [of n] by (simp add: BUFSIZE_def)
qed

lemma read_more_grows:
  assumes "R \<notin> {Netbuf, Fragbuf}" and "n < BUFSIZE" and "NUL \<notin> set (p @ f @ concat qs)"
    and "length (p @ concat qs) < BUFSIZE" and "grows n (length p) (length f) qs"
  shows "\<exists>g. read_more fd (At Netbuf 0) (of_nat n) (piece_state fd R p f (map Chunk qs @ as) s) =
    Some (Value () (piece_state fd R (p @ concat qs) g as s))"
  using assms(3-)
proof (induction qs arbitrary: p f)
  case Nil
  then show ?case using read_more_piece_end [OF assms(1), of p n fd f as s] by auto
next
  case (Cons q qs)
  have "read_more fd (At Netbuf 0) (of_nat n) (piece_state fd R p f (Chunk q # map Chunk qs @ as) s) =
      read_more fd (At Netbuf 0) (of_nat n) (piece_state fd R (p @ q) q (map Chunk qs @ as) s)"
    using read_more_piece_state [OF assms(1), of p f q n fd "map Chunk qs @ as" s] Cons.prems assms(2) by auto
  moreover have "\<exists>g. read_more fd (At Netbuf 0) (of_nat n) (piece_state fd R (p @ q) q (map Chunk qs @ as) s) =
      Some (Value () (piece_state fd R ((p @ q) @ concat qs) g as s))"
    using Cons.prems by (intro Cons.IH) auto
  ultimately show ?case by simp
qed

section \<open>The loop of recvMessage on pieces\<close>

lemma length_net_less: "length t \<le> 2047 \<Longrightarrow> length (net t) < 2055"
  using length_dec_bounds(1) [of "length t"] by (simp add: length_net BUFSIZE_def)

text \<open>
  \<open>recvMessage\<close> up to its second round, when the pieces have made up the netstring of \<open>t\<close> and
  some text \<open>r\<close> behind it.
\<close>

lemma recvMessage_completed:
  assumes R: "R \<notin> {Netbuf, Fragbuf}" "length (mem s R) = BUFSIZE"
    and c: "c = dec (length t) @ CHR '':'' # u" "incoming s fd = Chunk c # as" "length c < BUFSIZE" "NUL \<notin> set u"
    and t: "t \<noteq> []" "length t \<le> 2047" "NUL \<notin> set (t @ r)" and r: "length (net t @ r) < BUFSIZE"
    and reach: "length t \<le> max (reach s) (length (dec (length t)) + 1)" "length r < max (reach s) (length (net t))"
    and more: "read_more fd (At Netbuf 0) (of_nat (length t)) (piece_state fd R c [] as s) =
      Some (Value () (piece_state fd R (net t @ r) g as' s))"
  shows "\<exists>m' junk'. recvMessage fd (At R 0) s =
      recv_loop fd (At R 0) (length t + 1) 1 ((deliver fd as' s)\<lparr>mem := m'\<rparr>) \<and>
    m' Netbuf = r @ NUL # junk' \<and> length (m' Netbuf) = BUFSIZE \<and> length (m' R) = BUFSIZE \<and>
    take (length t + 1) (m' R) = t @ [NUL] \<and> (\<forall>b. b \<notin> {R, Netbuf, Fragbuf} \<longrightarrow> m' b = mem s b)"
proof -
  let ?n = "length t" and ?body = "t @ CHR '','' # r"
  let ?s1 = "received_state fd R c as s" and ?s2 = "piece_state fd R (net t @ r) g as' s"
  let ?s3 = "strip_net ?n ?body ?s2"
  have n: "0 < ?n" "?n < 2 ^ 63" using t(1,2) by auto
  have body: "NUL \<notin> set ?body" "CHR '','' \<in> set ?body" "?n \<le> length ?body" using t(3) by auto
  have M: "mem ?s2 Netbuf = dec ?n @ CHR '':'' # ?body @ NUL # replicate (BUFSIZE - length (net t @ r) - 1) NUL"
    "length (mem ?s2 Netbuf) = BUFSIZE"
    using padded_split [OF r] r by (simp_all add: piece_state_def net_def)
  have copy: "copy_net (At Netbuf 0) BUFSIZE (At Netbuf 0) fd 0 (length (dec ?n)) (of_nat ?n) ?s2 =
      Some (Value (At Netbuf (length (dec ?n) + ?n + 2)) ?s3)"
    using copy_net_run [OF M body, of 0 fd] t(2) reach(1) by (simp add: BUFSIZE_def)
  have read: "readNet (At Netbuf 0) BUFSIZE (At Netbuf 0) fd 0 ?s1 =
      Some (Value (At Netbuf (length (dec ?n) + ?n + 2)) ?s3)"
    using received_header(2) [of ?n u fd 0 R as s] c n more copy piece_state_received [OF R(1), of fd c as s]
    by (simp add: and_then_run)
  obtain d ds where d: "dec ?n = d # ds" using dec_not_Nil [of ?n] by (cases "dec ?n") auto
  have str1: "str_at (At Netbuf 0) c ?s1" using received_header(1) [of ?n u fd R as s] c n by simp
  then have char: "get_char (At Netbuf 0) ?s1 = Some (Value d ?s1)" "d \<noteq> NUL"
    using get_char_run [OF str1] c(1) d NUL_not_dec [of ?n] by auto
  have str2: "str_at (At Netbuf 0) t ?s3"
    using t(3) by (intro str_atI [of _ _ _ "drop (Suc ?n) (mem ?s2 Netbuf)"]) (simp_all add: strip_net_def)
  have "drop (length (dec ?n) + ?n + 2) (mem ?s3 Netbuf) = drop (length (dec ?n) + ?n + 2) (mem ?s2 Netbuf)"
    using drop_strip [of ?n "length (dec ?n) + ?n + 2" t "mem ?s2 Netbuf"] M(1) by (simp add: strip_net_def)
  then have str3: "str_at (At Netbuf (length (dec ?n) + ?n + 2)) r ?s3"
    using M(1) t(3) by (intro str_atI) simp_all
  have len: "length (mem ?s3 Netbuf) = BUFSIZE" "length (mem ?s3 R) = BUFSIZE"
    using M R(1) t(2) by (auto simp: strip_net_def piece_state_def BUFSIZE_def)
  have "\<not> in_block R (At Netbuf (length (dec ?n) + ?n + 2))" using R(1) by auto
  moreover have "length r < BUFSIZE" "0 + 2 * (?n + 1) \<le> BUFSIZE" using r t(2) by (auto simp: BUFSIZE_def)
  moreover have "may_copy (At Netbuf 0) (length r + 1) (At Netbuf (length (dec ?n) + ?n + 2)) (length r + 1) ?s3"
    using reach(2) by (auto simp: may_copy_def length_net)
  ultimately obtain m' junk' where m': "recv_loop fd (At R 0) 0 0 ?s1 =
      recv_loop fd (At R 0) (0 + ?n + 1) (Suc 0) (?s3\<lparr>mem := m'\<rparr>)"
    "m' Netbuf = r @ NUL # junk'" "length (m' Netbuf) = BUFSIZE" "length (m' R) = BUFSIZE"
    "take (0 + ?n + 1) (m' R) = take 0 (mem ?s3 R) @ t @ [NUL]" "\<forall>b. b \<notin> {R, Netbuf} \<longrightarrow> m' b = mem ?s3 b"
    using recv_step_copies [OF char read str2 str3 _ _ len, of 0] R(1) by auto
  have "?s3\<lparr>mem := m'\<rparr> = (deliver fd as' s)\<lparr>mem := m'\<rparr>"
    by (simp add: strip_net_def piece_state_def deliver_def)
  moreover have "recvMessage fd (At R 0) s = recv_loop fd (At R 0) 0 0 ?s1"
    using recvMessage_start [of s fd c as R] c R by auto
  moreover have "\<forall>b. b \<notin> {R, Netbuf, Fragbuf} \<longrightarrow> m' b = mem s b"
    using m'(6) by (simp add: strip_net_def piece_state_def deliver_def)
  ultimately show ?thesis using m'(1-5) by (intro exI [of _ m'] exI [of _ junk']) simp
qed

section \<open>Properties\<close>

lemma example_length: "dec (length ''abcdefghi'') = ''9''"
  using dec_9 by (simp add: eval_nat_numeral)

text \<open>
  C15. A netstring that arrives in pieces is completed and received, however many pieces there are, if
  the first contains the header, each further one arrives while the loop waits and is not shorter than the
  piece before (nor longer than the loop asks for), and the library moves the overlapping text of the last copy
  unharmed, as the parameter \<open>reach\<close> says: then \<open>recvMessage\<close> returns with exactly this
  message. (Pieces that arrive when only the last few bytes are missing are rejected, shorter ones corrupt the text.)
\<close>

theorem recvMessage_pieces:
  assumes "incoming s fd = Chunk (dec (length t) @ CHR '':'' # u) # map Chunk qs @ as"
    and "u @ concat qs = t @ '',''" and "grows (length t) (length (dec (length t)) + 1 + length u) 0 qs"
    and "t \<noteq> []" and "NUL \<notin> set t" and "length t \<le> 2047" and "R \<notin> {Netbuf, Fragbuf}" and "length (mem s R) = 4096"
    and "length t \<le> 2 \<or> length t \<le> reach s"
  shows "\<exists>m'. recvMessage fd (At R 0) s = Some (Value 1 (deliver fd as (s\<lparr>mem := m'\<rparr>))) \<and>
    str_at (At R 0) t (deliver fd as (s\<lparr>mem := m'\<rparr>)) \<and> (\<forall>b. b \<notin> {R, Netbuf, Fragbuf} \<longrightarrow> m' b = mem s b)"
proof -
  let ?c = "dec (length t) @ CHR '':'' # u"
  have whole: "?c @ concat qs = net t" using assms(2) by (simp add: net_def)
  have len: "length (net t) < BUFSIZE" "length ?c \<le> length (net t)"
    using length_net_less [OF assms(6)] by (simp_all add: BUFSIZE_def flip: whole)
  have "NUL \<notin> set (u @ concat qs)" unfolding assms(2) using assms(5) by simp
  then have NUL: "NUL \<notin> set u" "NUL \<notin> set (concat qs)" "NUL \<notin> set ?c" using NUL_not_dec by simp_all
  have "grows (length t) (length ?c) (length []) qs" using assms(3) by simp
  from read_more_grows [OF assms(7) _ _ _ this, where fd = fd and as = as and s = s]
  obtain g where "read_more fd (At Netbuf 0) (of_nat (length t)) (piece_state fd R ?c [] (map Chunk qs @ as) s) =
      Some (Value () (piece_state fd R (net t @ []) g as s))"
    using NUL len assms(6) by (simp only: whole) (auto simp: BUFSIZE_def)
  moreover have "length t \<le> max (reach s) (length (dec (length t)) + 1)" "length [] < max (reach s) (length (net t))"
    using assms(9) header_covers [of "length t"] by (auto simp: length_net le_max_iff_disj less_max_iff_disj)
  ultimately have "\<exists>m' junk'. recvMessage fd (At R 0) s =
      recv_loop fd (At R 0) (length t + 1) 1 ((deliver fd as s)\<lparr>mem := m'\<rparr>) \<and>
    m' Netbuf = [] @ NUL # junk' \<and> length (m' Netbuf) = BUFSIZE \<and> length (m' R) = BUFSIZE \<and>
    take (length t + 1) (m' R) = t @ [NUL] \<and> (\<forall>b. b \<notin> {R, Netbuf, Fragbuf} \<longrightarrow> m' b = mem s b)"
    using len assms(5,8) NUL(1) by (intro recvMessage_completed [OF assms(7) _ refl assms(1) _ _ assms(4,6)])
      (auto simp: BUFSIZE_def)
  then
  obtain m' junk' where m': "recvMessage fd (At R 0) s = recv_loop fd (At R 0) (length t + 1) 1 ((deliver fd as s)\<lparr>mem := m'\<rparr>)"
    "m' Netbuf = NUL # junk'" "length (m' R) = BUFSIZE" "take (length t + 1) (m' R) = t @ [NUL]"
    "\<forall>b. b \<notin> {R, Netbuf, Fragbuf} \<longrightarrow> m' b = mem s b"
    by auto
  have eq: "(deliver fd as s)\<lparr>mem := m'\<rparr> = deliver fd as (s\<lparr>mem := m'\<rparr>)" by (simp add: deliver_def)
  have "recvMessage fd (At R 0) s = Some (Value 1 (deliver fd as (s\<lparr>mem := m'\<rparr>)))"
    unfolding m'(1) eq
    using m'(2) by (subst recv_loop.simps) (simp add: get_char_def and_then_run done_with_run)
  moreover have "m' R = t @ NUL # drop (length t + 1) (m' R)"
    using append_take_drop_id [of "length t + 1" "m' R"] m'(4) by (metis append.assoc append_Cons append_Nil)
  then have "str_at (At R 0) t (deliver fd as (s\<lparr>mem := m'\<rparr>))"
    using assms(5) by (intro str_atI) simp_all
  ultimately show ?thesis using m'(5) by blast
qed

theorem recvMessage_pieces_witness:
  "\<exists>m'. recvMessage 3 (At Recvbuf 0) (fresh_client (one_arrival ''9:a'' [Chunk ''bcd'', Chunk ''efghi,''])) =
      Some (Value 1 (deliver 3 [] (fresh_client (one_arrival ''9:a'' [Chunk ''bcd'', Chunk ''efghi,''])\<lparr>mem := m'\<rparr>)))"
proof -
  let ?s = "fresh_client (one_arrival ''9:a'' [Chunk ''bcd'', Chunk ''efghi,''])"
  have "incoming ?s 3 = Chunk (dec (length ''abcdefghi'') @ CHR '':'' # ''a'') # map Chunk [''bcd'', ''efghi,''] @ []"
    unfolding example_length by (simp add: fresh_client_def one_arrival_def)
  moreover have "grows (length ''abcdefghi'') (length (dec (length ''abcdefghi'')) + 1 + length ''a'') 0 [''bcd'', ''efghi,'']"
    unfolding example_length by simp
  ultimately obtain m' where "recvMessage 3 (At Recvbuf 0) ?s = Some (Value 1 (deliver 3 [] (?s\<lparr>mem := m'\<rparr>)))"
    using recvMessage_pieces [of ?s 3 "''abcdefghi''" "''a''" "[''bcd'', ''efghi,'']" "[]" Recvbuf]
    by (auto simp: BUFSIZE_def fresh_client_def)
  then show ?thesis by blast
qed

text \<open>What happens to text that is no netstring in the second round.\<close>

lemma recv_loop_garbage:
  assumes "mem s Netbuf = r @ NUL # junk" and "length (mem s Netbuf) = BUFSIZE" and "NUL \<notin> set r" and "r \<noteq> []"
    and "CHR '':'' \<notin> set r" and "hd r \<noteq> CHR ''E''" and "r \<noteq> ''String in netstring format''" and "length r < 3900"
    and "unbroken s"
  shows "\<exists>s'. recv_loop fd R cur nets s = Some (Exited (- 1) s') \<and>
    sent s' = sent s @ [(fd, net (error_text ''String in netstring format'' r))]"
proof -
  have str: "str_at (At Netbuf 0) r s" using assms(1,3) by (intro str_atI) simp_all
  obtain s' where s': "checkMessage fd (Lit ''String in netstring format'') (At Netbuf 0) s = Some (Exited (- 1) s')"
    "sent s' = sent s @ [(fd, net (error_text ''String in netstring format'' r))]"
    using checkMessage_mismatch [of "Lit ''String in netstring format''" "''String in netstring format''" s Netbuf r fd]
      str assms by auto
  have "\<exists>comma. strchr (At Netbuf 0) CHR '','' s = Some (Value comma s)" using strchr_run [OF str] by blast
  then have "readNet (At Netbuf 0) BUFSIZE (At Netbuf 0) fd cur s = Some (Exited (- 1) s')"
    using strchr_run [OF str, of "CHR '':''"] assms(5) s'(1) by (auto simp: readNet_def and_then_run bad_prefix_def)
  then have "recv_loop fd R cur nets s = Some (Exited (- 1) s')"
    using recv_loop_readNet [OF str assms(4)] by simp
  then show ?thesis using s'(2) by blast
qed

text \<open>
  The buffer for further pieces is not cleared: if a netstring arrives in three pieces of which the last
  is shorter than the second, the rest of the second is taken once more. The message itself
  is received, but the repeated bytes look like the start of another netstring, so the client reports an error to the peer
  and ends with status \<open>- 1\<close> (if the peer has not closed the connection).
\<close>

theorem recvMessage_stale_piece:
  assumes "incoming s fd = Chunk (dec (length t) @ CHR '':'' # u) # Chunk p # Chunk q # as"
    and "u @ p @ q = t @ '',''" and "length q < length p" and "q \<noteq> []" and "u \<noteq> []"
    and "length (dec (length t)) + 1 + length u + length p < length t"
    and "NUL \<notin> set t" and "length t \<le> 1800" and "R \<notin> {Netbuf, Fragbuf}" and "length (mem s R) = 4096"
    and "r = drop (length q) p" and "CHR '':'' \<notin> set r" and "hd r \<noteq> CHR ''E''" and "r \<noteq> ''String in netstring format''"
    and "unbroken s" and "length t \<le> reach s"
  shows "\<exists>s'. recvMessage fd (At R 0) s = Some (Exited (- 1) s') \<and>
    sent s' = sent s @ [(fd, net (error_text ''String in netstring format'' r))]"
proof -
  let ?c = "dec (length t) @ CHR '':'' # u" and ?n = "length t"
  have whole: "?c @ p @ q = net t" using assms(2) by (simp add: net_def)
  have t: "t \<noteq> []" using assms(6) by auto
  have len: "length (net t) < 2055" "length ?c + length p + length q = length (net t)" "length r \<le> 1800"
    using length_net_less [of t] assms(3,6,8,11) by (auto simp flip: whole)
  have "0 < length q" "length r = length p - length q" using assms(4,11) by simp_all
  then have less: "length r < length p" using assms(3) by linarith
  have "NUL \<notin> set (u @ p @ q)" unfolding assms(2) using assms(7) by simp
  then have NUL: "NUL \<notin> set u" "NUL \<notin> set p" "NUL \<notin> set q" "NUL \<notin> set ?c" "NUL \<notin> set r"
    using NUL_not_dec assms(11) by (auto dest: in_set_dropD)
  have whole_NUL: "NUL \<notin> set (net t @ r)" using NUL by (simp flip: whole)
  have p: "p \<noteq> []" "length p \<le> ?n" using assms(3,6) by auto
  have "length u + length p + length q = ?n + 1" using arg_cong [OF assms(2), of length] by simp
  then have pq: "length p + length q \<le> ?n" using assms(5) by (cases u) auto
  have r: "overlay q p = q @ r" by (simp add: overlay_def assms(11))
  have "read_more fd (At Netbuf 0) (of_nat ?n) (piece_state fd R ?c [] (Chunk p # Chunk q # as) s) =
      read_more fd (At Netbuf 0) (of_nat ?n) (piece_state fd R (?c @ p) p (Chunk q # as) s)"
    using read_more_piece_state [OF assms(9) NUL(4) _ NUL(2), of "[]" ?n fd "Chunk q # as" s] p len assms(6,8)
    by (simp add: BUFSIZE_def)
  also have "\<dots> = read_more fd (At Netbuf 0) (of_nat ?n) (piece_state fd R (net t @ r) (q @ r) as s)"
    using read_more_piece_state [OF assms(9) _ NUL(2,3), of "?c @ p" ?n fd as s] NUL p pq len assms(4,6,8)
    by (simp add: BUFSIZE_def r flip: whole)
  also have "\<dots> = Some (Value () (piece_state fd R (net t @ r) (q @ r) as s))"
    using whole_NUL len by (intro read_more_piece_end [OF assms(9)]) (simp_all add: BUFSIZE_def length_net)
  finally have more: "read_more fd (At Netbuf 0) (of_nat ?n) (piece_state fd R ?c [] (Chunk p # Chunk q # as) s) =
      Some (Value () (piece_state fd R (net t @ r) (q @ r) as s))" .
  have move: "length t \<le> max (reach s) (length (dec (length t)) + 1)" "length r < max (reach s) (length (net t))"
    using assms(16) less p(2) by (simp_all add: le_max_iff_disj less_max_iff_disj)
  from recvMessage_completed [OF assms(9) _ refl assms(1) _ NUL(1) t _ _ _ move more]
  obtain m' junk' where m': "recvMessage fd (At R 0) s = recv_loop fd (At R 0) (?n + 1) 1 ((deliver fd as s)\<lparr>mem := m'\<rparr>)"
    "m' Netbuf = r @ NUL # junk'" "length (m' Netbuf) = BUFSIZE"
    using len less assms(7,8,10) NUL(5) by (auto simp: BUFSIZE_def)
  have "r \<noteq> []" using assms(3,11) by simp
  with recv_loop_garbage [of "(deliver fd as s)\<lparr>mem := m'\<rparr>" r junk' fd] m' NUL(5) assms(12-15) len(3)
  show ?thesis by auto
qed

theorem recvMessage_stale_piece_witness:
  "\<exists>s'. recvMessage 3 (At Recvbuf 0) (fresh_client (one_arrival ''9:a'' [Chunk ''bcdef'', Chunk ''ghi,''])) =
      Some (Exited (- 1) s') \<and> sent s' = [(3, net (error_text ''String in netstring format'' ''f''))]"
proof -
  let ?s = "fresh_client (one_arrival ''9:a'' [Chunk ''bcdef'', Chunk ''ghi,''])"
  have "incoming ?s 3 = Chunk (dec (length ''abcdefghi'') @ CHR '':'' # ''a'') # Chunk ''bcdef'' # Chunk ''ghi,'' # []"
    unfolding example_length by (simp add: fresh_client_def one_arrival_def)
  moreover have "length (dec (length ''abcdefghi'')) + 1 + length ''a'' + length ''bcdef'' < length ''abcdefghi''"
    unfolding example_length by simp
  ultimately show ?thesis
    using recvMessage_stale_piece [of ?s 3 "''abcdefghi''" "''a''" "''bcdef''" "''ghi,''" "[]" Recvbuf "''f''"]
    by (simp add: BUFSIZE_def fresh_client_def unbroken_def)
qed

section \<open>The end of the stream inside a netstring\<close>

text \<open>
  Pieces that do not shrink and do not complete the netstring: the loop has taken them all, and its
  buffer still holds the last one.
\<close>

lemma read_more_waits:
  assumes "R \<notin> {Netbuf, Fragbuf}" and "n < BUFSIZE" and "NUL \<notin> set (p @ f @ concat qs)" and "length f \<le> length p"
    and "length (p @ concat qs) < n" and "sorted (length f # map length qs)" and "[] \<notin> set qs"
  shows "read_more fd (At Netbuf 0) (of_nat n) (piece_state fd R p f (map Chunk qs @ as) s) =
    read_more fd (At Netbuf 0) (of_nat n) (piece_state fd R (p @ concat qs) (last (f # qs)) as s)"
  using assms(3-)
proof (induction qs arbitrary: p f)
  case (Cons q qs)
  have "read_more fd (At Netbuf 0) (of_nat n) (piece_state fd R p f (Chunk q # map Chunk qs @ as) s) =
      read_more fd (At Netbuf 0) (of_nat n) (piece_state fd R (p @ q) q (map Chunk qs @ as) s)"
    using read_more_piece_state [OF assms(1), of p f q n fd "map Chunk qs @ as" s] Cons.prems assms(2) by auto
  also have "\<dots> = read_more fd (At Netbuf 0) (of_nat n) (piece_state fd R ((p @ q) @ concat qs) (last (q # qs)) as s)"
    using Cons.prems by (intro Cons.IH) auto
  finally show ?case by simp
qed simp

text \<open>
  At the end of the stream \<open>read\<close> brings nothing, but the loop appends its buffer all the same, until the
  text is long enough.
\<close>

lemma read_more_stale_round:
  assumes "R \<notin> {Netbuf, Fragbuf}" and "NUL \<notin> set p" and "NUL \<notin> set g" and "length g \<le> length p" and "length p < n"
    and "n + length g \<le> BUFSIZE"
  shows "read_more fd (At Netbuf 0) (of_nat n) (piece_state fd R p g (Closed # as) s) =
    read_more fd (At Netbuf 0) (of_nat n) (piece_state fd R (p @ g) g (Closed # as) s)"
proof -
  let ?s = "piece_state fd R p g (Closed # as) s"
  have str: "str_at (At Netbuf 0) p ?s" "str_at (At Fragbuf 0) g ?s"
    using assms by (intro padded_str; simp add: piece_state_def)+
  have k: "unat (of_nat n :: u64) = n" "unat (of_nat n - of_nat (length g) :: u64) = n - length g"
    using assms(4-6) unat_u64_of_nat [of n] unat_u64_of_nat [of "n - length g"]
    by (simp_all add: BUFSIZE_def flip: of_nat_diff)
  have "read_fd fd (At Fragbuf 0) (n - length g) ?s = Some (Value 0 ?s)"
    by (simp add: read_fd_def piece_state_def deliver_def)
  moreover have "strcat (At Netbuf 0) (At Fragbuf 0) ?s = Some (Value () (with_block Netbuf (padded (p @ g)) ?s))"
    using assms str(2) by (intro strcat_padded) (simp_all add: piece_state_def)
  moreover have "with_block Netbuf (padded (p @ g)) ?s = piece_state fd R (p @ g) g (Closed # as) s"
    by (simp add: piece_state_def)
  ultimately show ?thesis
    using strlen_run [OF str(1)] strlen_run [OF str(2)] assms(5) k
    by (subst read_more.simps) (simp add: and_then_run)
qed

lemma read_more_stale:
  assumes "R \<notin> {Netbuf, Fragbuf}" and "NUL \<notin> set p" and "NUL \<notin> set g" and "g \<noteq> []" and "length g \<le> length p"
    and "length p < n + length g" and "n + length g \<le> BUFSIZE"
  shows "\<exists>m. read_more fd (At Netbuf 0) (of_nat n) (piece_state fd R p g (Closed # as) s) =
      Some (Value () (piece_state fd R (p @ concat (replicate m g)) g (Closed # as) s)) \<and>
    n \<le> length p + m * length g \<and> length p + m * length g < n + length g"
  using assms(2,5,6)
proof (induction "n - length p" arbitrary: p rule: less_induct)
  case less
  show ?case
  proof (cases "n \<le> length p")
    case True
    then show ?thesis
      using read_more_piece_end [OF assms(1), of p n fd g "Closed # as" s] less.prems assms(7) by (intro exI [of _ 0]) simp
  next
    case False
    then have "n - length (p @ g) < n - length p" using assms(4) by (simp flip: length_greater_0_conv)
    from less.hyps [OF this] obtain m where
      "read_more fd (At Netbuf 0) (of_nat n) (piece_state fd R (p @ g) g (Closed # as) s) =
        Some (Value () (piece_state fd R ((p @ g) @ concat (replicate m g)) g (Closed # as) s))"
      "n \<le> length (p @ g) + m * length g" "length (p @ g) + m * length g < n + length g"
      using less.prems assms(3) False by auto
    then show ?thesis
      using read_more_stale_round [OF assms(1) less.prems(1) assms(3) less.prems(2) _ assms(7), of fd as s] False
      by (intro exI [of _ "Suc m"]) (simp add: add.assoc)
  qed
qed

text \<open>
  C35. The end of the stream inside a netstring is never recognised: \<open>read\<close> returns 0, which the loop of
  \<open>readNet\<close> does not distinguish from progress. If the stream ends right behind the first piece, the
  client hangs: \<open>recvMessage\<close> does not return. If it ends behind further pieces (the loop still waiting, none
  shorter than the one before), the last piece is appended again and again until the text is as long as the
  netstring should be; if it has no comma, the client reports this text, most of which the peer
  never sent, to the peer and ends with status \<open>- 1\<close> (if its writes are not met with SIGPIPE).
\<close>

theorem recvMessage_at_eof:
  assumes "incoming s fd = Chunk (dec n @ CHR '':'' # u) # map Chunk qs @ Closed # as"
    and "NUL \<notin> set (u @ concat qs)" and "[] \<notin> set qs" and "sorted (map length qs)"
    and "length (dec n) + 1 + length (u @ concat qs) < n" and "length (dec n) + 1 + length u < 4096" and "n < 2 ^ 63"
    and "R \<notin> {Netbuf, Fragbuf}" and "length (mem s R) = 4096"
  shows "(qs = [] \<longrightarrow> recvMessage fd (At R 0) s = None) \<and>
    (qs \<noteq> [] \<and> CHR '','' \<notin> set (u @ concat qs) \<and> n + length (last qs) \<le> 3900 \<and> unbroken s \<longrightarrow>
      (\<exists>m t s'. t = dec n @ CHR '':'' # u @ concat qs @ concat (replicate m (last qs)) \<and>
        n \<le> length t \<and> length t < n + length (last qs) \<and>
        recvMessage fd (At R 0) s = Some (Exited (- 1) s') \<and>
        sent s' = sent s @ [(fd, net (error_text ''String in netstring format'' t))]))"
proof (intro conjI impI; (elim conjE)?)
  assume "qs = []"
  then show "recvMessage fd (At R 0) s = None"
    using assms by (intro recvMessage_endless_at_eof [of s fd n u as]) simp_all
next
  assume qs: "qs \<noteq> []" "CHR '','' \<notin> set (u @ concat qs)" "n + length (last qs) \<le> 3900" "unbroken s"
  let ?c = "dec n @ CHR '':'' # u" and ?g = "last qs"
  have n: "n < BUFSIZE" "0 < n" "length ?c < BUFSIZE" using qs(3) assms(5) by (auto simp: BUFSIZE_def)
  have last: "?g \<in> set qs" "?g \<noteq> []" using last_in_set [OF qs(1)] assms(3) by metis+
  then have g: "NUL \<notin> set ?g" "CHR '','' \<notin> set ?g" "length ?g \<le> length (concat qs)"
    using assms(2) qs(2) by (auto simp: length_concat intro!: member_le_sum_list)
  let ?s1 = "received_state fd R ?c (map Chunk qs @ Closed # as) s"
  have wait: "read_more fd (At Netbuf 0) (of_nat n) (piece_state fd R ?c [] (map Chunk qs @ Closed # as) s) =
      read_more fd (At Netbuf 0) (of_nat n) (piece_state fd R (?c @ concat qs) ?g (Closed # as) s)"
    using read_more_waits [OF assms(8) n(1), of ?c "[]" qs fd "Closed # as" s] assms(2-5) NUL_not_dec qs(1) by simp
  obtain m where m: "read_more fd (At Netbuf 0) (of_nat n) (piece_state fd R (?c @ concat qs) ?g (Closed # as) s) =
      Some (Value () (piece_state fd R ((?c @ concat qs) @ concat (replicate m ?g)) ?g (Closed # as) s))"
    "n \<le> length (?c @ concat qs) + m * length ?g" "length (?c @ concat qs) + m * length ?g < n + length ?g"
    using read_more_stale [OF assms(8) _ g(1) last(2), of "?c @ concat qs" n fd as s] assms(2,5) NUL_not_dec g(3) qs(3)
    by (auto simp: BUFSIZE_def)
  define v where "v = u @ concat qs @ concat (replicate m ?g)"
  let ?t = "dec n @ CHR '':'' # v" and ?s2 = "piece_state fd R (dec n @ CHR '':'' # v) ?g (Closed # as) s"
  have t: "(?c @ concat qs) @ concat (replicate m ?g) = ?t" by (simp add: v_def)
  have v: "NUL \<notin> set v" "CHR '','' \<notin> set v" using assms(2) qs(2) g by (auto simp: v_def)
  have len: "n \<le> length ?t" "length ?t < n + length ?g"
    using m(2,3) by (simp_all add: v_def length_concat sum_list_replicate add.assoc)
  have "str_at (At Netbuf 0) ?t ?s2"
    using v(1) NUL_not_dec len qs(3) by (intro padded_str) (simp_all add: piece_state_def BUFSIZE_def)
  then obtain s' where s': "copy_net (At Netbuf 0) BUFSIZE (At Netbuf 0) fd 0 (length (dec n)) (of_nat n) ?s2 =
      Some (Exited (- 1) s')" "sent s' = sent s @ [(fd, net (error_text ''String in netstring format'' ?t))]"
    using copy_net_rejects [of n v ?s2 fd 0 "of_nat n"] v(2) len qs(3,4)
    by (auto simp: piece_state_def deliver_def unbroken_def BUFSIZE_def)
  have str1: "str_at (At Netbuf 0) ?c ?s1"
    using received_header(1) [of n u fd R] n assms(2,7) by simp
  have "readNet (At Netbuf 0) BUFSIZE (At Netbuf 0) fd 0 ?s1 = Some (Exited (- 1) s')"
    using received_header(2) [of n u fd 0 R "map Chunk qs @ Closed # as" s] n assms(2,7) wait m(1) s'(1)
      piece_state_received [OF assms(8)] unfolding t by (simp add: and_then_run)
  then have "recvMessage fd (At R 0) s = Some (Exited (- 1) s')"
    using recvMessage_start [OF assms(1) n(3), of R] assms(8,9) recv_loop_readNet [OF str1] by (simp add: BUFSIZE_def)
  then show "\<exists>m t s'. t = dec n @ CHR '':'' # u @ concat qs @ concat (replicate m ?g) \<and>
      n \<le> length t \<and> length t < n + length ?g \<and> recvMessage fd (At R 0) s = Some (Exited (- 1) s') \<and>
      sent s' = sent s @ [(fd, net (error_text ''String in netstring format'' t))]"
    using s'(2) len by (intro exI [of _ m] exI [of _ ?t] exI [of _ s']) (simp add: v_def)
qed

theorem recvMessage_at_eof_witness:
  "recvMessage 3 (At Recvbuf 0) (fresh_client (one_arrival ''9:S '' [Closed])) = None \<and>
    (\<exists>s'. recvMessage 3 (At Recvbuf 0) (fresh_client (one_arrival ''9:S '' [Chunk ''ab'', Closed])) = Some (Exited (- 1) s') \<and>
      sent s' = [(3, net (error_text ''String in netstring format'' ''9:S ababab''))])"
proof
  show "recvMessage 3 (At Recvbuf 0) (fresh_client (one_arrival ''9:S '' [Closed])) = None"
    using recvMessage_at_eof [of "fresh_client (one_arrival ''9:S '' [Closed])" 3 9 "''S ''" "[]" "[]" Recvbuf]
    unfolding dec_9 by (auto simp: fresh_client_def one_arrival_def BUFSIZE_def)
  let ?s = "fresh_client (one_arrival ''9:S '' [Chunk ''ab'', Closed])"
  obtain m t s' where t: "t = ''9:S ab'' @ concat (replicate m ''ab'')" "9 \<le> length t" "length t < 11"
    "recvMessage 3 (At Recvbuf 0) ?s = Some (Exited (- 1) s')"
    "sent s' = [(3, net (error_text ''String in netstring format'' t))]"
    using recvMessage_at_eof [of ?s 3 9 "''S ''" "[''ab'']" "[]" Recvbuf]
    unfolding dec_9 by (auto simp: fresh_client_def one_arrival_def BUFSIZE_def unbroken_def)
  then have "m = 2" by (simp add: length_concat sum_list_replicate)
  with t show "\<exists>s'. recvMessage 3 (At Recvbuf 0) ?s = Some (Exited (- 1) s') \<and>
      sent s' = [(3, net (error_text ''String in netstring format'' ''9:S ababab''))]"
    by (simp add: numeral_2_eq_2)
qed

end
