(* ===== verification/AsciiClient.thy ===== *)
theory AsciiClient
  imports Argp Netstring
begin

text \<open>
  Assignment 4, the program \<open>asciiclient\<close>: \<open>assignment4/src/arguments.c\<close> and the protocol of
  \<open>assignment4/src/assignment4.c\<close>, on the messages of \<open>Netstring\<close>. What the system answers to
  the calls that set up sockets is the record \<open>os_client\<close>; what the peer sends is in the
  state of the machine.
\<close>

section \<open>The command line\<close>

text \<open>\<open>None\<close> is a NULL pointer.\<close>

record client_args =
  arg_nick :: "string option"
  arg_dst :: "string option"
  arg_port :: int
  arg_msg :: "string option"
  arg_file :: "string option"

definition parse_opt_client :: "client_args parse_opt" where
  "parse_opt_client key arg arg_num args = (case key of
     KEY_ARG \<Rightarrow>
       (if arg_num = 1 then (NO_ERROR, args\<lparr>arg_dst := Some arg\<rparr>)
        else if arg_num = 0 then (NO_ERROR, args\<lparr>arg_nick := Some arg\<rparr>)
        else (ARGP_ERR_UNKNOWN, args))
   | KEY_OPT c \<Rightarrow>
       (if c = CHR ''m'' then (NO_ERROR, args\<lparr>arg_msg := Some arg\<rparr>)
        else if c = CHR ''p'' then
          (let (n, endptr) = strtol arg; args = args\<lparr>arg_port := to_int32 n\<rparr>
           in if endptr \<noteq> [] then (EINVAL, args) else (NO_ERROR, args))
        else if c = CHR ''f'' then (NO_ERROR, args\<lparr>arg_file := Some arg\<rparr>)
        else (ARGP_ERR_UNKNOWN, args))
   | KEY_OTHER \<Rightarrow> (ARGP_ERR_UNKNOWN, args))"

definition options_client :: "argp_option list" where
  "options_client =
    [\<lparr>ao_name = ''file'', ao_key = CHR ''f'', ao_arg = ''file'',
       ao_doc = Some ''a file to use as message, -m will be ignored''\<rparr>,
     \<lparr>ao_name = ''port'', ao_key = CHR ''p'', ao_arg = ''port'',
       ao_doc = Some ''the port the client should connect to (optional, default: 1337)''\<rparr>,
     \<lparr>ao_name = ''message'', ao_key = CHR ''m'', ao_arg = ''message'',
       ao_doc = Some ''the message to send, spaces might need to be quoted in the shell''\<rparr>]"

definition parse_args_client :: "string list \<Rightarrow> client_args parse_result" where
  "parse_args_client argv =
     (case argp parse_opt_client options_client argv
        \<lparr>arg_nick = None, arg_dst = None, arg_port = 1337, arg_msg = None, arg_file = None\<rparr> of
        Parsed args \<Rightarrow>
          (if arg_dst args = None then Parse_failed MINUS_ONE
           else if arg_nick args = None then Parse_failed MINUS_ONE
           else if arg_file args = None \<and> arg_msg args = None then Parse_failed MINUS_ONE
           else Parsed args)
      | r \<Rightarrow> r)"

abbreviation int32_port :: "client_args \<Rightarrow> bool" where
  "int32_port a \<equiv> - 2147483648 \<le> arg_port a \<and> arg_port a \<le> 2147483647"

interpretation client_parser: option_parser parse_opt_client int32_port
proof
  fix a k s n e a'
  assume "int32_port a" "parse_opt_client k s n a = (e, a')"
  then show "int32_port a'"
    by (auto simp: parse_opt_client_def Let_def to_int32_range split: argp_key.splits prod.splits if_splits)
qed (simp add: parse_opt_client_def)

section \<open>The system\<close>

text \<open>
  \<open>os_pton\<close> is \<open>inet_pton\<close> for IPv6: its result and the address it stores. A socket call that
  fails returns a negative number. \<open>os_sockname\<close> is the port \<open>getsockname\<close> reports, if it
  succeeds.
\<close>

record os_client =
  os_pton :: "string \<Rightarrow> int \<times> string"
  os_control :: int
  os_connect :: "string \<Rightarrow> u16 \<Rightarrow> bool"
  os_listener :: int
  os_bind6 :: bool
  os_setsockopt :: "sockopt \<Rightarrow> bool"
  os_listen :: bool
  os_sockname :: "u16 option"
  os_accept :: int

definition parse_ip :: "os_client \<Rightarrow> string \<Rightarrow> int \<times> string" where
  "parse_ip os ipaddr = (fst (os_pton os ipaddr) - 1, snd (os_pton os ipaddr))"

text \<open>The result and the options that were set before a call failed.\<close>

definition set_socket_options :: "os_client \<Rightarrow> int \<Rightarrow> int \<times> sockopt list" where
  "set_socket_options os timeout =
     (if \<not> os_setsockopt os (RCVTIMEO timeout) then (- 1, [])
      else if \<not> os_setsockopt os (SNDTIMEO timeout) then (- 1, [RCVTIMEO timeout])
      else if \<not> os_setsockopt os (REUSEADDR 1) then (- 1, [RCVTIMEO timeout, SNDTIMEO timeout])
      else (0, [RCVTIMEO timeout, SNDTIMEO timeout, REUSEADDR 1]))"

text \<open>The client calls it for its effect only.\<close>

definition options_set :: "os_client \<Rightarrow> int \<Rightarrow> int \<Rightarrow> (nat \<times> sockopt) list" where
  "options_set os fd timeout = map (Pair (nat fd)) (snd (set_socket_options os timeout))"

definition configure :: "os_client \<Rightarrow> int \<Rightarrow> int \<Rightarrow> unit prog" where
  "configure os fd timeout s = Some (Value () (s\<lparr>sockopts := sockopts s @ options_set os fd timeout\<rparr>))"

definition close_fd :: "int \<Rightarrow> unit prog" where
  "close_fd fd s = Some (Value () (s\<lparr>closed_fds := closed_fds s @ [nat fd]\<rparr>))"

section \<open>The protocol\<close>

text \<open>
  The state the steps pass on is \<open>netStringsInBuf\<close> and \<open>startOfNetstring\<close>. Three idioms are
  repeated in the code: going to the next netstring of the buffer, reading when there is none
  left, and putting a message together in \<open>text\<close>.
\<close>

type_synonym nets = "int \<times> cptr"

definition next_net :: "nets \<Rightarrow> nets prog" where
  "next_net = (\<lambda>(n, cur). and_then (updateNets (n - 1) cur (At Recvbuf 0)) (\<lambda>cur. done_with (n - 1, cur)))"

definition more_nets :: "int \<Rightarrow> nets \<Rightarrow> nets prog" where
  "more_nets fd = (\<lambda>(n, cur).
     if n = 0 then and_then (recvMessage (nat fd) (At Recvbuf 0)) (\<lambda>n. done_with (n, cur)) else done_with (n, cur))"

definition set_text :: "string \<Rightarrow> cptr \<Rightarrow> unit prog" where
  "set_text pre p = steps [strcpy (At Text 0) (Lit pre), strcat (At Text 0) p]"

definition send :: "int \<Rightarrow> cptr \<Rightarrow> unit prog" where
  "send fd m = and_then (sendMessage (nat fd) m (At Sendbuf 0)) (\<lambda>_. done_with ())"

definition expect :: "int \<Rightarrow> cptr \<Rightarrow> nets \<Rightarrow> nets prog" where
  "expect fd expected = (\<lambda>(n, cur). and_then (checkMessage (nat fd) expected cur) (\<lambda>_. next_net (n, cur)))"

text \<open>Take the token of a message that starts with a letter and a blank; \<open>src\<close> is where it is
  copied from.\<close>

definition not_prefixed :: "char \<Rightarrow> cptr \<Rightarrow> bool prog" where
  "not_prefixed letter cur =
     and_then (get_char cur) (\<lambda>c.
     if c \<noteq> letter then done_with True
     else and_then (get_char (ptr_add cur 1)) (\<lambda>d. done_with (d \<noteq> CHR '' '')))"

definition take_token :: "int \<Rightarrow> char \<Rightarrow> string \<Rightarrow> cptr \<Rightarrow> nets \<Rightarrow> nets prog" where
  "take_token fd letter expected src = (\<lambda>(n, cur).
     and_then (not_prefixed letter cur) (\<lambda>bad.
     and_then (if bad then checkMessage (nat fd) (Lit expected) cur else done_with 0) (\<lambda>_.
     and_then (strcpy (At Token 0) (ptr_add src 2)) (\<lambda>_.
     next_net (n, cur)))))"

definition hello_phase :: "int \<Rightarrow> nets prog" where
  "hello_phase sdC =
     and_then (send sdC (Lit ''C GRNVS V:1.0'')) (\<lambda>_.
     and_then (recvMessage (nat sdC) (At Recvbuf 0)) (\<lambda>n.
     expect sdC (Lit ''S GRNVS V:1.0'') (n, At Recvbuf 0)))"

definition register_phase :: "int \<Rightarrow> string \<Rightarrow> nets \<Rightarrow> nets prog" where
  "register_phase sdC nick st =
     and_then (set_text ''C '' (Lit nick)) (\<lambda>_.
     and_then (send sdC (At Text 0)) (\<lambda>_.
     and_then (more_nets sdC st) (\<lambda>(n, cur).
     take_token sdC CHR ''S'' ''S <token>'' cur (n, cur))))"

definition listen_phase :: "os_client \<Rightarrow> int \<Rightarrow> (int \<times> u16) prog" where
  "listen_phase os sdC = (let sdL = os_listener os in
     if sdL < 0 then exit_with 1
     else if \<not> os_bind6 os then and_then (close_fd sdC) (\<lambda>_. and_then (close_fd sdL) (\<lambda>_. exit_with 1))
     else and_then (configure os sdL 2) (\<lambda>_.
     if \<not> os_listen os then and_then (close_fd sdC) (\<lambda>_. and_then (close_fd sdL) (\<lambda>_. exit_with 1))
     else done_with (sdL, case os_sockname os of None \<Rightarrow> 0 | Some p \<Rightarrow> p)))"

definition accept_phase :: "os_client \<Rightarrow> int \<Rightarrow> int \<Rightarrow> u16 \<Rightarrow> int prog" where
  "accept_phase os sdC sdL port =
     and_then (strcpy (At Text 0) (Lit ''C '')) (\<lambda>_.
     and_then (put (At Sendbuf 0) (dec (unat port) @ [NUL])) (\<lambda>_.
     and_then (strcat (At Text 0) (At Sendbuf 0)) (\<lambda>_.
     and_then (send sdC (At Text 0)) (\<lambda>_. let sdD = os_accept os in
     if sdD < 0 then and_then (close_fd sdC) (\<lambda>_. and_then (close_fd sdL) (\<lambda>_. exit_with 1))
     else and_then (configure os sdD 2) (\<lambda>_. done_with sdD)))))"

definition data_phase :: "int \<Rightarrow> string \<Rightarrow> string \<Rightarrow> nets prog" where
  "data_phase sdD nick msg =
     and_then (recvMessage (nat sdD) (At Recvbuf 0)) (\<lambda>n.
     and_then (expect sdD (Lit ''T GRNVS V:1.0'') (n, At Recvbuf 0)) (\<lambda>st.
     and_then (set_text ''D '' (Lit nick)) (\<lambda>_.
     and_then (send sdD (At Text 0)) (\<lambda>_.
     and_then (more_nets sdD st) (\<lambda>st.
     and_then (set_text ''T '' (At Token 0)) (\<lambda>_.
     and_then (expect sdD (At Text 0) st) (\<lambda>st.
     and_then (set_text ''D '' (Lit msg)) (\<lambda>_.
     and_then (send sdD (At Text 0)) (\<lambda>_.
     and_then (more_nets sdD st) (\<lambda>st.
     take_token sdD CHR ''T'' ''T <dtoken>'' (At Recvbuf 0) st))))))))))"

definition finish_phase :: "int \<Rightarrow> string \<Rightarrow> nets \<Rightarrow> nets prog" where
  "finish_phase sdC msg st =
     and_then (more_nets sdC st) (\<lambda>st.
     and_then (strcpy (At Text 0) (Lit ''S '')) (\<lambda>_.
     and_then (put (At Text 2) (dec (length msg) @ [NUL])) (\<lambda>_.
     and_then (expect sdC (At Text 0) st) (\<lambda>st.
     and_then (set_text ''C '' (At Token 0)) (\<lambda>_.
     and_then (send sdC (At Text 0)) (\<lambda>_.
     and_then (more_nets sdC st) (\<lambda>st.
     and_then (strcpy (At Text 0) (Lit ''S ACK'')) (\<lambda>_.
     expect sdC (At Text 0) st))))))))"

definition assignment4 :: "os_client \<Rightarrow> string \<Rightarrow> u16 \<Rightarrow> string \<Rightarrow> string \<Rightarrow> unit prog" where
  "assignment4 os ipaddr port nick msg = (let (ret, dstip) = parse_ip os ipaddr in
     if 0 > ret then done_with ()
     else
     and_then (steps [zero_array Recvbuf, zero_array Sendbuf, zero_array Token, zero_array Text]) (\<lambda>_.
     let sdC = os_control os in
     if 0 > sdC then exit_with 1
     else if \<not> os_connect os dstip port then and_then (close_fd sdC) (\<lambda>_. exit_with 1)
     else
     and_then (hello_phase sdC) (\<lambda>st.
     and_then (register_phase sdC nick st) (\<lambda>st.
     and_then (listen_phase os sdC) (\<lambda>(sdL, port).
     and_then (accept_phase os sdC sdL port) (\<lambda>sdD.
     and_then (data_phase sdD nick msg) (\<lambda>st.
     and_then (close_fd sdL) (\<lambda>_.
     and_then (close_fd sdD) (\<lambda>_.
     and_then (finish_phase sdC msg st) (\<lambda>_.
     close_fd sdC))))))))))"

text \<open>
  \<open>main\<close>: \<open>files\<close> is what opening and reading a file yields, \<open>None\<close> for a failing \<open>open\<close>,
  \<open>Some None\<close> for a failing \<open>read\<close>. The message from a file is what precedes the first NUL of
  its first 4095 bytes. The port is converted to the 16 bits of \<open>in_port_t\<close>.
\<close>

definition main_client :: "string list \<Rightarrow> (string \<Rightarrow> string option option) \<Rightarrow> os_client \<Rightarrow> int prog" where
  "main_client argv files os = (case parse_args_client argv of
     Help_exit \<Rightarrow> exit_with 0
   | Usage_exit \<Rightarrow> exit_with 64
   | Parse_failed e \<Rightarrow> done_with (- 1)
   | Parsed args \<Rightarrow>
     (let run = (\<lambda>msg. and_then (assignment4 os (the (arg_dst args)) (word_of_int (arg_port args)) (the (arg_nick args)) msg)
            (\<lambda>_. done_with 0))
      in case arg_file args of
           None \<Rightarrow> run (the (arg_msg args))
         | Some f \<Rightarrow> (case files f of
             None \<Rightarrow> done_with (- 1)
           | Some None \<Rightarrow> done_with (- 1)
           | Some (Some c) \<Rightarrow> run (takeWhile (\<lambda>c. c \<noteq> NUL) (take 4095 c)))))"

section \<open>Runs that return\<close>

definition runs :: "'a prog \<Rightarrow> client \<Rightarrow> ('a \<Rightarrow> client \<Rightarrow> bool) \<Rightarrow> bool" where
  "runs m s Q \<longleftrightarrow> (\<exists>x s'. m s = Some (Value x s') \<and> Q x s')"

lemma runsI: "m s = Some (Value x s') \<Longrightarrow> Q x s' \<Longrightarrow> runs m s Q"
  by (auto simp: runs_def)

lemma runs_and_then:
  "runs m s P \<Longrightarrow> (\<And>x s'. P x s' \<Longrightarrow> runs (f x) s' Q) \<Longrightarrow> runs (and_then m f) s Q"
  unfolding runs_def by (metis and_then_run(1))

lemma runs_done: "Q x s \<Longrightarrow> runs (done_with x) s Q"
  by (simp add: runs_def done_with_def)

lemma runs_mono: "runs m s P \<Longrightarrow> (\<And>x s'. P x s' \<Longrightarrow> Q x s') \<Longrightarrow> runs m s Q"
  by (auto simp: runs_def)

text \<open>
  The arrays of \<open>assignment4\<close> have their size and no write is answered by a signal; a step
  changes only the arrays \<open>B\<close>. Short and failing writes are allowed.
\<close>

definition ready :: "client \<Rightarrow> bool" where
  "ready s \<longleftrightarrow> (\<forall>b \<in> {Recvbuf, Sendbuf, Token, Text}. length (mem s b) = BUFSIZE) \<and> unbroken s"

definition keeps :: "block set \<Rightarrow> client \<Rightarrow> client \<Rightarrow> bool" where
  "keeps B s s' \<longleftrightarrow> ready s' \<and> reach s' = reach s \<and> printed s' = printed s \<and> closed_fds s' = closed_fds s \<and> sockopts s' = sockopts s \<and>
     (\<forall>b. b \<notin> B \<longrightarrow> mem s' b = mem s b)"

lemma keeps_str_at: "keeps B s s' \<Longrightarrow> b \<notin> B \<Longrightarrow> str_at (At b i) t s' = str_at (At b i) t s"
  by (simp add: keeps_def str_at_def)

lemma keeps_trans: "keeps B s s' \<Longrightarrow> keeps C s' s'' \<Longrightarrow> keeps (B \<union> C) s s''"
  by (auto simp: keeps_def)

lemma keeps_reach: "keeps B s s' \<Longrightarrow> reach s' = reach s"
  by (simp add: keeps_def)

lemma str_at_Lit_any: "str_at (Lit t) u s \<Longrightarrow> str_at (Lit t) u s'"
  by (simp add: str_at_def view_def)

text \<open>One lemma for each idiom, on a conversation in which every message comes in one piece.\<close>

lemma send_runs:
  assumes "ready s" and "str_at m t s" and "\<not> in_block Sendbuf m" and "length t \<le> 4089"
  shows "runs (send fd m) s (\<lambda>_ s'. keeps {Sendbuf} s s' \<and> incoming s' = incoming s \<and>
    sent s' = sent s @ [(nat fd, net t)])"
proof -
  let ?s = "with_block Sendbuf (padded (net t)) s"
  have "length (dec (length t)) \<le> 4" using length_dec_bounds(1) [of "length t"] assms(4) by (simp add: BUFSIZE_def)
  then have len: "length (net t) \<le> BUFSIZE" using assms(4) by (simp add: length_net BUFSIZE_def)
  have "unbroken ?s" using assms(1) by (simp add: ready_def)
  then obtain v out where out: "write_call (nat fd) (net t) ?s =
      Some (Value v (?s\<lparr>outgoing := out, sent := sent ?s @ [(nat fd, net t)]\<rparr>))" "unbroken (?s\<lparr>outgoing := out\<rparr>)"
    by (rule write_call_returns)
  have "send fd m s = Some (Value () (?s\<lparr>outgoing := out, sent := sent s @ [(nat fd, net t)]\<rparr>))"
    using sendMessage_fits [of s Sendbuf m t "nat fd"] assms out(1)
    by (simp add: send_def and_then_run done_with_run ready_def)
  then show ?thesis by (rule runsI) (use assms(1) len out(2) in \<open>auto simp: keeps_def ready_def\<close>)
qed

lemma str_at_taken:
  "take (Suc (length t)) (mem s b) = t @ [NUL] \<Longrightarrow> NUL \<notin> set t \<Longrightarrow> str_at (At b 0) t s"
  using append_take_drop_id [of "Suc (length t)" "mem s b"]
  by (intro str_atI [of _ _ _ "drop (Suc (length t)) (mem s b)"]) (auto simp del: append_take_drop_id)

lemma recv_runs:
  assumes "ready s" and "incoming s fd = Chunk (net t) # as" and "message t" and "length t \<le> 2047"
    and "length t \<le> reach s"
  shows "runs (recvMessage fd (At Recvbuf 0)) s (\<lambda>n s'. n = 1 \<and> keeps {Recvbuf, Netbuf, Fragbuf} s s' \<and>
    incoming s' = (incoming s)(fd := as) \<and> sent s' = sent s \<and> str_at (At Recvbuf 0) t s')"
proof -
  have "length (dec (length t)) \<le> 4" using length_dec_bounds(1) [of "length t"] assms(4) by (simp add: BUFSIZE_def)
  then have "length (net t) < BUFSIZE" using assms(4) by (simp add: length_net BUFSIZE_def)
  then obtain m' where m': "recvMessage fd (At Recvbuf 0) s = Some (Value 1 (deliver fd as (s\<lparr>mem := m'\<rparr>)))"
    "take (Suc (length t)) (m' Recvbuf) = t @ [NUL]" "length (m' Recvbuf) = BUFSIZE"
    "\<forall>b. b \<notin> {Recvbuf, Netbuf, Fragbuf} \<longrightarrow> m' b = mem s b"
    using recvMessage_run [of s fd "[t]" as Recvbuf] assms(1-4) movable_single [OF assms(5)]
    by (auto simp: ready_def BUFSIZE_def simp del: movable.simps)
  from m'(1) show ?thesis
  proof (rule runsI)
    have "str_at (At Recvbuf 0) t (deliver fd as (s\<lparr>mem := m'\<rparr>))"
      using m'(2) assms(3) by (intro str_at_taken) (simp_all add: message_def)
    then show "1 = 1 \<and> keeps {Recvbuf, Netbuf, Fragbuf} s (deliver fd as (s\<lparr>mem := m'\<rparr>)) \<and>
        incoming (deliver fd as (s\<lparr>mem := m'\<rparr>)) = (incoming s)(fd := as) \<and>
        sent (deliver fd as (s\<lparr>mem := m'\<rparr>)) = sent s \<and> str_at (At Recvbuf 0) t (deliver fd as (s\<lparr>mem := m'\<rparr>))"
      using assms(1) m'(3,4) by (simp add: keeps_def ready_def deliver_def)
  qed
qed

lemma next_net_last: "next_net (1, cur) s = Some (Value (0, At Recvbuf 0) s)"
  by (simp add: next_net_def updateNets_def and_then_run done_with_run)

lemma expect_runs:
  assumes "str_at expected t s" and "str_at (At Recvbuf 0) t s" and "hd (t @ [NUL]) \<noteq> CHR ''E''"
  shows "runs (expect fd expected (1, At Recvbuf 0)) s (\<lambda>st s'. st = (0, At Recvbuf 0) \<and> s' = s)"
  using checkMessage_same [OF assms, of "nat fd"] next_net_last [of "At Recvbuf 0" s]
  by (intro runsI) (auto simp: expect_def and_then_run)

lemma more_nets_runs:
  assumes "ready s" and "incoming s (nat fd) = Chunk (net t) # as" and "message t" and "length t \<le> 2047"
    and "length t \<le> reach s"
  shows "runs (more_nets fd (0, At Recvbuf 0)) s (\<lambda>st s'. st = (1, At Recvbuf 0) \<and>
    keeps {Recvbuf, Netbuf, Fragbuf} s s' \<and> incoming s' = (incoming s)(nat fd := as) \<and> sent s' = sent s \<and>
    str_at (At Recvbuf 0) t s')"
  using recv_runs [OF assms] by (auto simp: more_nets_def runs_def and_then_run done_with_run)

lemma str_at_put:
  "i + length t < length l \<Longrightarrow> NUL \<notin> set t \<Longrightarrow> length xs = i \<Longrightarrow>
    str_at (At b i) t (with_block b (xs @ t @ NUL # ys) s)"
  by (intro str_atI [of _ _ _ ys]) simp_all

lemma set_text_runs:
  assumes "ready s" and "str_at p u s" and "\<not> in_block Text p" and "NUL \<notin> set pre" and "length pre + length u < BUFSIZE"
  shows "runs (set_text pre p) s (\<lambda>_ s'. keeps {Text} s s' \<and> incoming s' = incoming s \<and> sent s' = sent s \<and>
    str_at (At Text 0) (pre @ u) s')"
proof -
  have len: "length (mem s Text) = BUFSIZE" using assms(1) by (simp add: ready_def)
  let ?l1 = "pre @ NUL # drop (length pre + 1) (mem s Text)"
  let ?s1 = "with_block Text ?l1 s"
  have NUL: "NUL \<notin> set u" using assms(2) by (auto simp: str_at_def)
  have "strcpy (At Text 0) (Lit pre) s = Some (Value () ?s1)"
    using strcpy_run [of "Lit pre" pre s 0 Text] assms(4,5) len by simp
  moreover have pre: "str_at (At Text 0) pre ?s1" using assms(4) by (intro str_atI) simp_all
  moreover have u: "str_at p u ?s1" using assms(2,3) by (simp add: str_at_with_block)
  ultimately have "set_text pre p s = Some (Value ()
      (with_block Text (pre @ u @ NUL # drop (length pre + length u + 1) ?l1) s))"
    using strcat_run [OF pre u] assms(3,5) len by (simp add: set_text_def and_then_run done_with_run)
  then show ?thesis
  proof (rule runsI)
    have "str_at (At Text 0) (pre @ u) (with_block Text (pre @ u @ NUL # drop (length pre + length u + 1) ?l1) s)"
      using assms(4) NUL by (intro str_atI) simp_all
    then show "keeps {Text} s (with_block Text (pre @ u @ NUL # drop (length pre + length u + 1) ?l1) s) \<and>
        incoming (with_block Text (pre @ u @ NUL # drop (length pre + length u + 1) ?l1) s) = incoming s \<and>
        sent (with_block Text (pre @ u @ NUL # drop (length pre + length u + 1) ?l1) s) = sent s \<and>
        str_at (At Text 0) (pre @ u) (with_block Text (pre @ u @ NUL # drop (length pre + length u + 1) ?l1) s)"
      using assms(1,5) len by (simp add: keeps_def ready_def)
  qed
qed

lemma take_token_runs:
  assumes "ready s" and "str_at (At Recvbuf 0) (letter # CHR '' '' # tok) s"
  shows "runs (take_token fd letter ex (At Recvbuf 0) (1, At Recvbuf 0)) s (\<lambda>st s'. st = (0, At Recvbuf 0) \<and>
    keeps {Token} s s' \<and> incoming s' = incoming s \<and> sent s' = sent s \<and> str_at (At Token 0) tok s')"
proof -
  obtain rest where view: "mem s Recvbuf = letter # CHR '' '' # tok @ NUL # rest" and NUL: "NUL \<notin> set tok"
    using assms(2) by (auto simp: str_at_def)
  have len: "length (mem s Recvbuf) = BUFSIZE" "length (mem s Token) = BUFSIZE" using assms(1) by (auto simp: ready_def)
  have tok: "str_at (At Recvbuf 2) tok s" using view NUL by (intro str_atI [of _ _ _ rest]) simp_all
  let ?s' = "with_block Token (tok @ NUL # drop (length tok + 1) (mem s Token)) s"
  have "length tok < BUFSIZE" using view len(1) by simp
  then have copy: "strcpy (At Token 0) (At Recvbuf 2) s = Some (Value () ?s')"
    using strcpy_run [OF tok, of 0 Token] len(2) by simp
  have "not_prefixed letter (At Recvbuf 0) s = Some (Value False s)"
    using view by (simp add: not_prefixed_def and_then_run done_with_run get_char_def)
  then have "take_token fd letter ex (At Recvbuf 0) (1, At Recvbuf 0) s = Some (Value (0, At Recvbuf 0) ?s')"
    using copy [unfolded numeral_2_eq_2] next_net_last [of "At Recvbuf 0" ?s']
    by (simp add: take_token_def and_then_run and_then_run(1) [where x = False] done_with_run)
  then show ?thesis
    by (rule runsI) (use assms(1) NUL len \<open>length tok < BUFSIZE\<close> in
      \<open>auto simp: keeps_def ready_def intro: str_atI [of _ _ _ "drop (length tok + 1) (mem s Token)"]\<close>)
qed

text \<open>The arrays a phase works on; \<open>token\<close> keeps its contents from one phase to another.\<close>

abbreviation work :: "block set" where
  "work \<equiv> {Sendbuf, Recvbuf, Text, Netbuf, Fragbuf}"

lemma keeps_ready: "keeps B s s' \<Longrightarrow> ready s'"
  by (simp add: keeps_def)

lemma keeps_work: "keeps B s s' \<Longrightarrow> B \<subseteq> work \<Longrightarrow> keeps work s s'"
  by (auto simp: keeps_def)

lemma keeps_work_trans: "keeps work s s' \<Longrightarrow> keeps B s' s'' \<Longrightarrow> B \<subseteq> work \<Longrightarrow> keeps work s s''"
  by (auto simp: keeps_def)

lemma hello_runs:
  assumes "ready s" and "incoming s (nat sdC) = Chunk (net ''S GRNVS V:1.0'') # as" and "13 \<le> reach s"
  shows "runs (hello_phase sdC) s (\<lambda>st s'. st = (0, At Recvbuf 0) \<and> keeps work s s' \<and>
    incoming s' = (incoming s)(nat sdC := as) \<and> sent s' = sent s @ [(nat sdC, net ''C GRNVS V:1.0'')])"
proof -
  obtain s1 where s1: "send sdC (Lit ''C GRNVS V:1.0'') s = Some (Value () s1)" "keeps {Sendbuf} s s1"
    "incoming s1 = incoming s" "sent s1 = sent s @ [(nat sdC, net ''C GRNVS V:1.0'')]"
    using send_runs [OF assms(1), of "Lit ''C GRNVS V:1.0''" "''C GRNVS V:1.0''" sdC] by (auto simp: runs_def)
  obtain s2 where s2: "recvMessage (nat sdC) (At Recvbuf 0) s1 = Some (Value 1 s2)"
    "keeps {Recvbuf, Netbuf, Fragbuf} s1 s2" "incoming s2 = (incoming s)(nat sdC := as)" "sent s2 = sent s1"
    "str_at (At Recvbuf 0) ''S GRNVS V:1.0'' s2"
    using recv_runs [OF keeps_ready [OF s1(2)], of "nat sdC" "''S GRNVS V:1.0''" as] assms(2,3) s1(3) keeps_reach [OF s1(2)]
    by (auto simp: runs_def message_def)
  have "expect sdC (Lit ''S GRNVS V:1.0'') (1, At Recvbuf 0) s2 = Some (Value (0, At Recvbuf 0) s2)"
    using expect_runs [OF _ s2(5), of "Lit ''S GRNVS V:1.0''" sdC] by (auto simp: runs_def)
  moreover have "keeps work s s2"
    using keeps_work_trans [OF keeps_work [OF s1(2)] s2(2)] by simp
  ultimately show ?thesis
    using s1 s2 by (simp add: runs_def hello_phase_def and_then_run)
qed

text \<open>A message assembled in \<open>text\<close> and sent.\<close>

lemma text_send_runs:
  assumes "ready s" and "str_at p u s" and "\<not> in_block Text p" and "NUL \<notin> set pre" and "length pre + length u \<le> 4089"
  shows "\<exists>s1 s2. set_text pre p s = Some (Value () s1) \<and> send fd (At Text 0) s1 = Some (Value () s2) \<and>
    keeps work s s2 \<and> incoming s2 = incoming s \<and> sent s2 = sent s @ [(nat fd, net (pre @ u))]"
proof -
  obtain s1 where s1: "set_text pre p s = Some (Value () s1)" "keeps {Text} s s1" "incoming s1 = incoming s"
    "sent s1 = sent s" "str_at (At Text 0) (pre @ u) s1"
    using set_text_runs [OF assms(1-4)] assms(5) by (auto simp: runs_def BUFSIZE_def)
  obtain s2 where s2: "send fd (At Text 0) s1 = Some (Value () s2)" "keeps {Sendbuf} s1 s2"
    "incoming s2 = incoming s1" "sent s2 = sent s1 @ [(nat fd, net (pre @ u))]"
    using send_runs [OF keeps_ready [OF s1(2)] s1(5), of fd] assms(5) by (auto simp: runs_def)
  have "keeps work s s2" using keeps_work_trans [OF keeps_work [OF s1(2)] s2(2)] by simp
  with s1 s2 show ?thesis by auto
qed

lemma register_runs:
  assumes "ready s" and "NUL \<notin> set nick" and "length nick \<le> 4087"
    and "incoming s (nat sdC) = Chunk (net (''S '' @ tok)) # as" and "NUL \<notin> set tok" and "length tok \<le> 2045"
    and "length tok + 2 \<le> reach s"
  shows "runs (register_phase sdC nick (0, At Recvbuf 0)) s (\<lambda>st s'. st = (0, At Recvbuf 0) \<and>
    keeps (insert Token work) s s' \<and> incoming s' = (incoming s)(nat sdC := as) \<and>
    sent s' = sent s @ [(nat sdC, net (''C '' @ nick))] \<and> str_at (At Token 0) tok s')"
proof -
  obtain s1 s2 where s2: "set_text ''C '' (Lit nick) s = Some (Value () s1)" "send sdC (At Text 0) s1 = Some (Value () s2)"
    "keeps work s s2" "incoming s2 = incoming s" "sent s2 = sent s @ [(nat sdC, net (''C '' @ nick))]"
    using text_send_runs [OF assms(1), of "Lit nick" nick "''C ''" sdC] assms(2,3) by auto
  obtain s3 where s3: "more_nets sdC (0, At Recvbuf 0) s2 = Some (Value (1, At Recvbuf 0) s3)"
    "keeps {Recvbuf, Netbuf, Fragbuf} s2 s3" "incoming s3 = (incoming s)(nat sdC := as)" "sent s3 = sent s2"
    "str_at (At Recvbuf 0) (CHR ''S'' # CHR '' '' # tok) s3"
    using more_nets_runs [OF keeps_ready [OF s2(3)], of sdC "''S '' @ tok" as] assms(4-7) s2(4) keeps_reach [OF s2(3)]
    by (auto simp: runs_def message_def)
  obtain s4 where s4: "take_token sdC CHR ''S'' ''S <token>'' (At Recvbuf 0) (1, At Recvbuf 0) s3 =
      Some (Value (0, At Recvbuf 0) s4)" "keeps {Token} s3 s4" "incoming s4 = incoming s3" "sent s4 = sent s3"
    "str_at (At Token 0) tok s4"
    using take_token_runs [OF keeps_ready [OF s3(2)] s3(5), of sdC "''S <token>''"] by (auto simp: runs_def)
  have "keeps (insert Token work) s s4"
    using s2(3) s3(2) s4(2) by (auto simp: keeps_def)
  then show ?thesis
    using s2 s3 s4 by (simp add: runs_def register_phase_def and_then_run)
qed

text \<open>A number printed into an array.\<close>

lemma put_number:
  assumes "length (mem s b) = BUFSIZE" and "i + length (dec n) < BUFSIZE"
  shows "\<exists>l. put (At b i) (dec n @ [NUL]) s = Some (Value () (with_block b l s)) \<and> length l = BUFSIZE \<and>
    take i l = take i (mem s b) \<and> str_at (At b i) (dec n) (with_block b l s)"
proof -
  let ?l = "take i (mem s b) @ (dec n @ [NUL]) @ drop (i + length (dec n @ [NUL])) (mem s b)"
  have "put (At b i) (dec n @ [NUL]) s = Some (Value () (with_block b ?l s))"
    using assms by (intro put_run) simp
  moreover have "str_at (At b i) (dec n) (with_block b ?l s)"
    using assms NUL_not_dec by (intro str_atI [of _ _ _ "drop (i + length (dec n @ [NUL])) (mem s b)"]) simp_all
  ultimately show ?thesis using assms by (intro exI [of _ ?l]) simp
qed

lemma length_dec_small: "n < 10 ^ 5 \<Longrightarrow> length (dec n) \<le> 5"
  using length_dec_le [of n 4] by simp

lemma accept_runs:
  assumes "ready s" and "0 \<le> os_accept os"
  shows "runs (accept_phase os sdC sdL port) s (\<lambda>sdD s'. sdD = os_accept os \<and>
    keeps work (s\<lparr>sockopts := sockopts s @ options_set os sdD 2\<rparr>) s' \<and>
    incoming s' = incoming s \<and> sent s' = sent s @ [(nat sdC, net (''C '' @ dec (unat port)))])"
proof -
  have len: "length (mem s Text) = BUFSIZE" "length (mem s Sendbuf) = BUFSIZE" using assms(1) by (auto simp: ready_def)
  have digits: "length (dec (unat port)) \<le> 5" using unat_u16_less [of port] by (intro length_dec_small) simp
  define s1 where "s1 = with_block Text (''C '' @ NUL # drop 3 (mem s Text)) s"
  have copy: "strcpy (At Text 0) (Lit ''C '') s = Some (Value () s1)"
    using strcpy_run [of "Lit ''C ''" "''C ''" s 0 Text] len(1) by (simp add: s1_def BUFSIZE_def numeral_3_eq_3)
  have len1: "length (mem s1 Text) = BUFSIZE" "length (mem s1 Sendbuf) = BUFSIZE"
    using len by (simp_all add: s1_def BUFSIZE_def)
  obtain l where l: "put (At Sendbuf 0) (dec (unat port) @ [NUL]) s1 = Some (Value () (with_block Sendbuf l s1))"
    "length l = BUFSIZE" "str_at (At Sendbuf 0) (dec (unat port)) (with_block Sendbuf l s1)"
    using put_number [OF len1(2), of 0 "unat port"] digits by (auto simp: BUFSIZE_def)
  let ?s2 = "with_block Sendbuf l s1"
  have "str_at (At Text 0) ''C '' ?s2"
    by (intro str_atI [of _ _ _ "drop 3 (mem s Text)"]) (simp_all add: s1_def)
  define s3 where "s3 = with_block Text (''C '' @ dec (unat port) @ NUL # drop (2 + length (dec (unat port)) + 1) (mem s1 Text)) ?s2"
  have cat: "strcat (At Text 0) (At Sendbuf 0) ?s2 = Some (Value () s3)"
    using strcat_run [OF \<open>str_at (At Text 0) ''C '' ?s2\<close> l(3)] len1(1) digits by (simp add: s3_def BUFSIZE_def)
  have k3: "keeps work s s3" "ready s3" "incoming s3 = incoming s" "sent s3 = sent s"
    using assms(1) l(2) len1 digits by (auto simp: keeps_def ready_def s3_def s1_def BUFSIZE_def)
  have "str_at (At Text 0) (''C '' @ dec (unat port)) s3"
    using NUL_not_dec by (intro str_atI) (simp_all add: s3_def)
  from send_runs [OF k3(2) this, of sdC] obtain s4 where s4: "send sdC (At Text 0) s3 = Some (Value () s4)"
    "keeps {Sendbuf} s3 s4" "incoming s4 = incoming s" "sent s4 = sent s @ [(nat sdC, net (''C '' @ dec (unat port)))]"
    using digits k3 by (auto simp: runs_def)
  have "keeps work s s4" using keeps_work_trans [OF k3(1) s4(2)] by simp
  then show ?thesis
    using copy l(1) cat s4 assms(2)
    by (simp add: runs_def accept_phase_def and_then_run done_with_run configure_def keeps_def ready_def Let_def)
qed

text \<open>The server repeats the token the client holds.\<close>

lemma token_repeated:
  assumes "ready s" and "str_at (At Token 0) tok s" and "length tok \<le> 2045" and "length tok + 2 \<le> reach s"
    and "incoming s (nat fd) = Chunk (net (''T '' @ tok)) # as"
  obtains t u where "more_nets fd (0, At Recvbuf 0) s = Some (Value (1, At Recvbuf 0) t)"
    and "set_text ''T '' (At Token 0) t = Some (Value () u)"
    and "expect fd (At Text 0) (1, At Recvbuf 0) u = Some (Value (0, At Recvbuf 0) u)"
    and "keeps work s u" and "incoming u = (incoming s)(nat fd := as)" and "sent u = sent s"
proof -
  have NUL: "NUL \<notin> set tok" using assms(2) by (simp add: str_at_def)
  obtain t where t: "more_nets fd (0, At Recvbuf 0) s = Some (Value (1, At Recvbuf 0) t)"
    "keeps {Recvbuf, Netbuf, Fragbuf} s t" "incoming t = (incoming s)(nat fd := as)"
    "sent t = sent s" "str_at (At Recvbuf 0) (''T '' @ tok) t"
    using more_nets_runs [OF assms(1), of fd "''T '' @ tok" as] NUL assms(3-5) by (auto simp: runs_def message_def)
  have k: "keeps work s t" using keeps_work [OF t(2)] by simp
  have "str_at (At Token 0) tok t" using keeps_str_at [OF k] assms(2) by simp
  then obtain u where u: "set_text ''T '' (At Token 0) t = Some (Value () u)" "keeps {Text} t u"
    "incoming u = incoming t" "sent u = sent t" "str_at (At Text 0) (''T '' @ tok) u"
    using set_text_runs [OF keeps_ready [OF k], of "At Token 0" tok "''T ''"] assms(3) by (auto simp: runs_def BUFSIZE_def)
  have "str_at (At Recvbuf 0) (''T '' @ tok) u" using keeps_str_at [OF u(2)] t(5) by simp
  then have "expect fd (At Text 0) (1, At Recvbuf 0) u = Some (Value (0, At Recvbuf 0) u)"
    using expect_runs [OF u(5), of fd] by (auto simp: runs_def)
  moreover have "keeps work s u" using keeps_work_trans [OF k u(2)] by simp
  ultimately show thesis using that t u by simp
qed

lemma data_runs:
  assumes "ready s" and "str_at (At Token 0) tok s" and "length tok \<le> 2045"
    and "NUL \<notin> set nick" and "length nick \<le> 4087" and "NUL \<notin> set msg" and "length msg \<le> 4087"
    and "NUL \<notin> set dtok" and "length dtok \<le> 2045"
    and reach: "13 \<le> reach s" "length tok + 2 \<le> reach s" "length dtok + 2 \<le> reach s"
    and arrivals: "incoming s (nat sdD) = Chunk (net ''T GRNVS V:1.0'') # Chunk (net (''T '' @ tok)) # Chunk (net (''T '' @ dtok)) # as"
  shows "runs (data_phase sdD nick msg) s (\<lambda>st s'. st = (0, At Recvbuf 0) \<and> keeps (insert Token work) s s' \<and>
    incoming s' = (incoming s)(nat sdD := as) \<and>
    sent s' = sent s @ [(nat sdD, net (''D '' @ nick)), (nat sdD, net (''D '' @ msg))] \<and> str_at (At Token 0) dtok s')"
proof -
  obtain s1 where s1: "recvMessage (nat sdD) (At Recvbuf 0) s = Some (Value 1 s1)" "keeps {Recvbuf, Netbuf, Fragbuf} s s1"
    "incoming s1 (nat sdD) = Chunk (net (''T '' @ tok)) # Chunk (net (''T '' @ dtok)) # as"
    "incoming s1 = (incoming s)(nat sdD := incoming s1 (nat sdD))" "sent s1 = sent s" "str_at (At Recvbuf 0) ''T GRNVS V:1.0'' s1"
    using recv_runs [OF assms(1) arrivals] reach(1) by (auto simp: runs_def message_def)
  have e1: "expect sdD (Lit ''T GRNVS V:1.0'') (1, At Recvbuf 0) s1 = Some (Value (0, At Recvbuf 0) s1)"
    using expect_runs [OF _ s1(6), of "Lit ''T GRNVS V:1.0''" sdD] by (auto simp: runs_def)
  obtain t2 s2 where s2: "set_text ''D '' (Lit nick) s1 = Some (Value () t2)" "send sdD (At Text 0) t2 = Some (Value () s2)"
    "keeps work s1 s2" "incoming s2 = incoming s1" "sent s2 = sent s @ [(nat sdD, net (''D '' @ nick))]"
    using text_send_runs [OF keeps_ready [OF s1(2)], of "Lit nick" nick "''D ''" sdD] assms(4,5) s1(5) by auto
  have k2: "keeps work s s2" using keeps_work_trans [OF keeps_work [OF s1(2)] s2(3)] by simp
  have "str_at (At Token 0) tok s2" using keeps_str_at [OF k2] assms(2) by simp
  moreover have "incoming s2 (nat sdD) = Chunk (net (''T '' @ tok)) # Chunk (net (''T '' @ dtok)) # as"
    using s1(3) s2(4) by simp
  ultimately obtain s3 s4 where s4: "more_nets sdD (0, At Recvbuf 0) s2 = Some (Value (1, At Recvbuf 0) s3)"
    "set_text ''T '' (At Token 0) s3 = Some (Value () s4)"
    "expect sdD (At Text 0) (1, At Recvbuf 0) s4 = Some (Value (0, At Recvbuf 0) s4)"
    "keeps work s2 s4" "incoming s4 = (incoming s2)(nat sdD := Chunk (net (''T '' @ dtok)) # as)" "sent s4 = sent s2"
    using reach(2) keeps_reach [OF k2] by (metis token_repeated [OF keeps_ready [OF s2(3)] _ assms(3)])
  obtain t5 s5 where s5: "set_text ''D '' (Lit msg) s4 = Some (Value () t5)" "send sdD (At Text 0) t5 = Some (Value () s5)"
    "keeps work s4 s5" "incoming s5 = incoming s4" "sent s5 = sent s4 @ [(nat sdD, net (''D '' @ msg))]"
    using text_send_runs [OF keeps_ready [OF s4(4)], of "Lit msg" msg "''D ''" sdD] assms(6,7) by auto
  obtain s6 where s6: "more_nets sdD (0, At Recvbuf 0) s5 = Some (Value (1, At Recvbuf 0) s6)"
    "keeps {Recvbuf, Netbuf, Fragbuf} s5 s6" "incoming s6 = (incoming s5)(nat sdD := as)"
    "sent s6 = sent s5" "str_at (At Recvbuf 0) (CHR ''T'' # CHR '' '' # dtok) s6"
    using more_nets_runs [OF keeps_ready [OF s5(3)], of sdD "''T '' @ dtok" as] assms(8,9) s5(4) s4(5) reach(3)
      keeps_reach [OF k2] keeps_reach [OF s4(4)] keeps_reach [OF s5(3)]
    by (auto simp: runs_def message_def)
  obtain s7 where s7: "take_token sdD CHR ''T'' ''T <dtoken>'' (At Recvbuf 0) (1, At Recvbuf 0) s6 =
      Some (Value (0, At Recvbuf 0) s7)" "keeps {Token} s6 s7" "incoming s7 = incoming s6" "sent s7 = sent s6"
    "str_at (At Token 0) dtok s7"
    using take_token_runs [OF keeps_ready [OF s6(2)] s6(5), of sdD "''T <dtoken>''"] by (auto simp: runs_def)
  have "keeps work s s6"
    using keeps_work_trans [OF keeps_work_trans [OF keeps_work_trans [OF k2 s4(4)] s5(3)] s6(2)] by simp
  then have "keeps (insert Token work) s s7" using s7(2) by (auto simp: keeps_def)
  moreover have "incoming s7 = (incoming s)(nat sdD := as)"
    using s7(3) s6(3) s5(4) s4(5) s2(4) s1(4) by (metis fun_upd_upd)
  ultimately show ?thesis
    using s1(1) e1 s2 s4 s5 s6 s7 by (simp add: runs_def data_phase_def and_then_run)
qed

lemma strcpy_text:
  assumes "ready s" and "NUL \<notin> set t" and "length t < BUFSIZE"
  shows "\<exists>s'. strcpy (At Text 0) (Lit t) s = Some (Value () s') \<and> keeps {Text} s s' \<and> incoming s' = incoming s \<and>
    sent s' = sent s \<and> take (length t) (mem s' Text) = t \<and> str_at (At Text 0) t s'"
proof -
  have len: "length (mem s Text) = BUFSIZE" using assms(1) by (simp add: ready_def)
  let ?s' = "with_block Text (t @ NUL # drop (length t + 1) (mem s Text)) s"
  have "strcpy (At Text 0) (Lit t) s = Some (Value () ?s')"
    using strcpy_run [of "Lit t" t s 0 Text] assms len by simp
  moreover have "str_at (At Text 0) t ?s'" using assms(2) by (intro str_atI) simp_all
  ultimately show ?thesis using assms len by (intro exI [of _ ?s']) (auto simp: keeps_def ready_def)
qed

text \<open>\<open>strcpy(text, "S "); sprintf(text + 2, "%ld", n)\<close>.\<close>

lemma number_text:
  assumes "ready s" and "n < BUFSIZE"
  shows "\<exists>s1 s2. strcpy (At Text 0) (Lit ''S '') s = Some (Value () s1) \<and>
    put (At Text 2) (dec n @ [NUL]) s1 = Some (Value () s2) \<and>
    keeps {Text} s s2 \<and> incoming s2 = incoming s \<and> sent s2 = sent s \<and> str_at (At Text 0) (''S '' @ dec n) s2"
proof -
  obtain s1 where s1: "strcpy (At Text 0) (Lit ''S '') s = Some (Value () s1)" "keeps {Text} s s1"
    "incoming s1 = incoming s" "sent s1 = sent s" "take 2 (mem s1 Text) = ''S ''"
    using strcpy_text [OF assms(1), of "''S ''"] by (auto simp: BUFSIZE_def numeral_2_eq_2)
  have len: "length (mem s1 Text) = BUFSIZE" using s1(2) by (simp add: keeps_def ready_def)
  have "length (dec n) \<le> 4" using length_dec_bounds(1) assms(2) by blast
  then obtain l where l: "put (At Text 2) (dec n @ [NUL]) s1 = Some (Value () (with_block Text l s1))"
    "length l = BUFSIZE" "take 2 l = ''S ''" "str_at (At Text 2) (dec n) (with_block Text l s1)"
    using put_number [OF len, of 2 n] s1(5) by (auto simp: BUFSIZE_def)
  obtain rest where "drop 2 l = dec n @ NUL # rest" using l(4) by (auto simp: str_at_def)
  then have "l = (''S '' @ dec n) @ NUL # rest"
    using append_take_drop_id [of 2 l] l(3) by simp
  then have "str_at (At Text 0) (''S '' @ dec n) (with_block Text l s1)"
    using NUL_not_dec by (intro str_atI [of _ _ _ rest]) simp_all
  moreover have "keeps {Text} s (with_block Text l s1)" using s1(2) l(2) by (auto simp: keeps_def ready_def)
  ultimately show ?thesis using s1 l(1)
    by (intro exI [of _ s1] exI [of _ "with_block Text l s1"]) simp
qed

lemma finish_runs:
  assumes "ready s" and "str_at (At Token 0) dtok s" and "length dtok \<le> 4087" and "length msg \<le> 4087"
    and "incoming s (nat sdC) = Chunk (net (''S '' @ dec (length msg))) # Chunk (net ''S ACK'') # as"
    and reach: "13 \<le> reach s"
  shows "runs (finish_phase sdC msg (0, At Recvbuf 0)) s (\<lambda>st s'. keeps work s s' \<and>
    incoming s' = (incoming s)(nat sdC := as) \<and> sent s' = sent s @ [(nat sdC, net (''C '' @ dtok))])"
proof -
  have n: "length msg < BUFSIZE" using assms(4) by (simp add: BUFSIZE_def)
  have digits: "length (dec (length msg)) \<le> 4" using length_dec_bounds(1) [OF n] by simp
  obtain s1 where s1: "more_nets sdC (0, At Recvbuf 0) s = Some (Value (1, At Recvbuf 0) s1)"
    "keeps {Recvbuf, Netbuf, Fragbuf} s s1" "incoming s1 = (incoming s)(nat sdC := Chunk (net ''S ACK'') # as)"
    "sent s1 = sent s" "str_at (At Recvbuf 0) (''S '' @ dec (length msg)) s1"
    using more_nets_runs [OF assms(1,5)] digits NUL_not_dec reach by (auto simp: runs_def message_def)
  obtain t2 s2 where s2: "strcpy (At Text 0) (Lit ''S '') s1 = Some (Value () t2)"
    "put (At Text 2) (dec (length msg) @ [NUL]) t2 = Some (Value () s2)"
    "keeps {Text} s1 s2" "incoming s2 = incoming s1" "sent s2 = sent s1" "str_at (At Text 0) (''S '' @ dec (length msg)) s2"
    using number_text [OF keeps_ready [OF s1(2)] n] by blast
  have "str_at (At Recvbuf 0) (''S '' @ dec (length msg)) s2" using keeps_str_at [OF s2(3)] s1(5) by simp
  then have e2: "expect sdC (At Text 0) (1, At Recvbuf 0) s2 = Some (Value (0, At Recvbuf 0) s2)"
    using expect_runs [OF s2(6), of sdC] by (auto simp: runs_def)
  have k2: "keeps work s s2" using keeps_work_trans [OF keeps_work [OF s1(2)] s2(3)] by simp
  have tok: "str_at (At Token 0) dtok s2" using keeps_str_at [OF k2] assms(2) by simp
  obtain t3 s3 where s3: "set_text ''C '' (At Token 0) s2 = Some (Value () t3)" "send sdC (At Text 0) t3 = Some (Value () s3)"
    "keeps work s2 s3" "incoming s3 = incoming s2" "sent s3 = sent s2 @ [(nat sdC, net (''C '' @ dtok))]"
    using text_send_runs [OF keeps_ready [OF k2] tok, of "''C ''" sdC] assms(3) by auto
  obtain s4 where s4: "more_nets sdC (0, At Recvbuf 0) s3 = Some (Value (1, At Recvbuf 0) s4)"
    "keeps {Recvbuf, Netbuf, Fragbuf} s3 s4" "incoming s4 = (incoming s3)(nat sdC := as)"
    "sent s4 = sent s3" "str_at (At Recvbuf 0) ''S ACK'' s4"
    using more_nets_runs [OF keeps_ready [OF s3(3)], of sdC "''S ACK''" as] s3(4) s2(4) s1(3) reach
      keeps_reach [OF k2] keeps_reach [OF s3(3)]
    by (auto simp: runs_def message_def)
  obtain s5 where s5: "strcpy (At Text 0) (Lit ''S ACK'') s4 = Some (Value () s5)" "keeps {Text} s4 s5"
    "incoming s5 = incoming s4" "sent s5 = sent s4" "str_at (At Text 0) ''S ACK'' s5"
    using strcpy_text [OF keeps_ready [OF s4(2)], of "''S ACK''"] by (auto simp: BUFSIZE_def)
  have "str_at (At Recvbuf 0) ''S ACK'' s5" using keeps_str_at [OF s5(2)] s4(5) by simp
  then have e5: "expect sdC (At Text 0) (1, At Recvbuf 0) s5 = Some (Value (0, At Recvbuf 0) s5)"
    using expect_runs [OF s5(5), of sdC] by (auto simp: runs_def)
  have "keeps work s s5"
    using keeps_work_trans [OF keeps_work_trans [OF keeps_work_trans [OF k2 s3(3)] s4(2)] s5(2)] by simp
  moreover have "incoming s5 = (incoming s)(nat sdC := as)"
    using s5(3) s4(3) s3(4) s2(4) s1(3) by simp
  ultimately show ?thesis
    using s1 s2 e2 s3 s4 s5 e5 by (simp add: runs_def finish_phase_def and_then_run)
qed

text \<open>The control connection up to the accepted data connection.\<close>

lemma control_runs:
  assumes "ready s" and "0 \<le> os_listener os" and "os_bind6 os" and "os_listen os" and "os_sockname os = Some lport"
    and "0 \<le> os_accept os" and "NUL \<notin> set nick" and "length nick \<le> 4087" and "NUL \<notin> set tok" and "length tok \<le> 2045"
    and "incoming s (nat sdC) = Chunk (net ''S GRNVS V:1.0'') # Chunk (net (''S '' @ tok)) # as"
    and reach: "13 \<le> reach s" "length tok + 2 \<le> reach s"
  shows "\<exists>s1 s2 s3. hello_phase sdC s = Some (Value (0, At Recvbuf 0) s1) \<and>
    register_phase sdC nick (0, At Recvbuf 0) s1 = Some (Value (0, At Recvbuf 0) s2) \<and>
    listen_phase os sdC s2 = Some (Value (os_listener os, lport) (s2\<lparr>sockopts := sockopts s2 @ options_set os (os_listener os) 2\<rparr>)) \<and>
    accept_phase os sdC (os_listener os) lport (s2\<lparr>sockopts := sockopts s2 @ options_set os (os_listener os) 2\<rparr>) =
      Some (Value (os_accept os) s3) \<and>
    keeps (insert Token work) (s\<lparr>sockopts := sockopts s @ options_set os (os_listener os) 2 @ options_set os (os_accept os) 2\<rparr>) s3 \<and> incoming s3 = (incoming s)(nat sdC := as) \<and> str_at (At Token 0) tok s3 \<and>
    sent s3 = sent s @ [(nat sdC, net ''C GRNVS V:1.0''), (nat sdC, net (''C '' @ nick)),
      (nat sdC, net (''C '' @ dec (unat lport)))]"
proof -
  obtain s1 where s1: "hello_phase sdC s = Some (Value (0, At Recvbuf 0) s1)" "keeps work s s1"
    "incoming s1 = (incoming s)(nat sdC := Chunk (net (''S '' @ tok)) # as)"
    "sent s1 = sent s @ [(nat sdC, net ''C GRNVS V:1.0'')]"
    using hello_runs [OF assms(1,11) reach(1)] by (auto simp: runs_def)
  obtain s2 where s2: "register_phase sdC nick (0, At Recvbuf 0) s1 = Some (Value (0, At Recvbuf 0) s2)"
    "keeps (insert Token work) s1 s2" "incoming s2 = (incoming s)(nat sdC := as)"
    "sent s2 = sent s1 @ [(nat sdC, net (''C '' @ nick))]" "str_at (At Token 0) tok s2"
    using register_runs [OF keeps_ready [OF s1(2)] assms(7,8) _ assms(9,10), of sdC as] s1(3) reach(2)
      keeps_reach [OF s1(2)] by (auto simp: runs_def)
  let ?t2 = "s2\<lparr>sockopts := sockopts s2 @ options_set os (os_listener os) 2\<rparr>"
  have listen: "listen_phase os sdC s2 = Some (Value (os_listener os, lport) ?t2)"
    using assms(2-5) by (simp add: listen_phase_def and_then_run configure_def done_with_run Let_def)
  have "ready ?t2" using keeps_ready [OF s2(2)] by (simp add: ready_def)
  then obtain s3 where s3: "accept_phase os sdC (os_listener os) lport ?t2 = Some (Value (os_accept os) s3)"
    "keeps work (?t2\<lparr>sockopts := sockopts ?t2 @ options_set os (os_accept os) 2\<rparr>) s3"
    "incoming s3 = incoming s2" "sent s3 = sent s2 @ [(nat sdC, net (''C '' @ dec (unat lport)))]"
    using accept_runs [OF _ assms(6), of ?t2 sdC "os_listener os" lport] by (auto simp: runs_def)
  have "str_at (At Token 0) tok s3" using keeps_str_at [OF s3(2)] s2(5) by simp
  moreover have "keeps (insert Token work)
      (s\<lparr>sockopts := sockopts s @ options_set os (os_listener os) 2 @ options_set os (os_accept os) 2\<rparr>) s3"
    using s1(2) s2(2) s3(2) by (auto simp: keeps_def)
  ultimately show ?thesis using s1 s2 listen s3 by auto
qed

lemma zero_arrays_run:
  "unbroken s \<Longrightarrow> \<exists>s0. steps [zero_array Recvbuf, zero_array Sendbuf, zero_array Token, zero_array Text] s = Some (Value () s0) \<and>
    ready s0 \<and> incoming s0 = incoming s \<and> sent s0 = sent s \<and> printed s0 = printed s \<and> closed_fds s0 = closed_fds s \<and>
    sockopts s0 = sockopts s \<and> reach s0 = reach s"
  by (simp add: and_then_run zero_array_def done_with_run ready_def)

section \<open>Properties\<close>

text \<open>
  C4. A complete conversation. If the connections can be set up and the server answers in lockstep
  (greeting, token, then on the data connection greeting, token and data token, then the length
  of the message and the acknowledgement, each in one piece), the client sends exactly the
  messages of the protocol in order - greeting, nick and port of its listening socket on the
  control connection, nick and message on the data connection, the data token on the control
  connection - consumes exactly what the server sent, prints nothing, sets options on its listening and data
  socket only (so a read on the control connection never times out), closes its three sockets and returns. It does so whatever the writes return, even if the system takes only a part of a message
  or refuses it: the client never looks at the result of a \<open>write\<close>. That a message of the server is received
  as it was sent is not C's promise: the library has to move up to 13 and up to two more than the length of each token
  overlapping bytes unharmed (the parameter \<open>reach\<close>).
\<close>

theorem assignment4_conversation:
  assumes "os_pton os ipaddr = (1, addr)" and "0 \<le> os_control os" and "os_connect os addr port"
    and "0 \<le> os_listener os" and "os_bind6 os" and "os_listen os" and "os_sockname os = Some lport"
    and "0 \<le> os_accept os" and "os_accept os \<noteq> os_control os"
    and "NUL \<notin> set nick" and "length nick \<le> 4087" and "NUL \<notin> set msg" and "length msg \<le> 4087"
    and "NUL \<notin> set tok" and "length tok \<le> 2045" and "NUL \<notin> set dtok" and "length dtok \<le> 2045"
    and "incoming s (nat (os_control os)) = map (\<lambda>t. Chunk (net t))
      [''S GRNVS V:1.0'', ''S '' @ tok, ''S '' @ dec (length msg), ''S ACK'']"
    and "incoming s (nat (os_accept os)) = map (\<lambda>t. Chunk (net t)) [''T GRNVS V:1.0'', ''T '' @ tok, ''T '' @ dtok]"
    and "unbroken s" and "13 \<le> reach s" and "length tok + 2 \<le> reach s" and "length dtok + 2 \<le> reach s"
  shows "\<exists>s'. assignment4 os ipaddr port nick msg s = Some (Value () s') \<and>
    sent s' = sent s @ [(nat (os_control os), net ''C GRNVS V:1.0''), (nat (os_control os), net (''C '' @ nick)),
      (nat (os_control os), net (''C '' @ dec (unat lport))), (nat (os_accept os), net (''D '' @ nick)),
      (nat (os_accept os), net (''D '' @ msg)), (nat (os_control os), net (''C '' @ dtok))] \<and>
    incoming s' (nat (os_control os)) = [] \<and> incoming s' (nat (os_accept os)) = [] \<and> printed s' = printed s \<and>
    closed_fds s' = closed_fds s @ [nat (os_listener os), nat (os_accept os), nat (os_control os)] \<and>
    sockopts s' = sockopts s @ options_set os (os_listener os) 2 @ options_set os (os_accept os) 2"
proof -
  let ?C = "os_control os" and ?L = "os_listener os" and ?D = "os_accept os"
  have fds: "nat ?C \<noteq> nat ?D" using assms(2,8,9) by simp
  obtain s0 where s0: "steps [zero_array Recvbuf, zero_array Sendbuf, zero_array Token, zero_array Text] s = Some (Value () s0)"
    "ready s0" "incoming s0 = incoming s" "sent s0 = sent s" "printed s0 = printed s" "closed_fds s0 = closed_fds s"
    "sockopts s0 = sockopts s" "reach s0 = reach s"
    using zero_arrays_run [OF assms(20)] by blast
  have "incoming s0 (nat ?C) = Chunk (net ''S GRNVS V:1.0'') # Chunk (net (''S '' @ tok)) #
      [Chunk (net (''S '' @ dec (length msg))), Chunk (net ''S ACK'')]"
    using assms(18) s0(3) by simp
  from control_runs [OF s0(2) assms(4-8,10,11,14,15) this] assms(21,22) s0(8) obtain s1 s2 s3 where
    control: "hello_phase ?C s0 = Some (Value (0, At Recvbuf 0) s1)"
      "register_phase ?C nick (0, At Recvbuf 0) s1 = Some (Value (0, At Recvbuf 0) s2)"
      "listen_phase os ?C s2 = Some (Value (?L, lport) (s2\<lparr>sockopts := sockopts s2 @ options_set os ?L 2\<rparr>))"
      "accept_phase os ?C ?L lport (s2\<lparr>sockopts := sockopts s2 @ options_set os ?L 2\<rparr>) = Some (Value ?D s3)"
    and s3: "keeps (insert Token work) (s0\<lparr>sockopts := sockopts s0 @ options_set os ?L 2 @ options_set os ?D 2\<rparr>) s3" "incoming s3 = (incoming s0)(nat ?C :=
        [Chunk (net (''S '' @ dec (length msg))), Chunk (net ''S ACK'')])" "str_at (At Token 0) tok s3"
      "sent s3 = sent s @ [(nat ?C, net ''C GRNVS V:1.0''), (nat ?C, net (''C '' @ nick)),
        (nat ?C, net (''C '' @ dec (unat lport)))]"
    using s0(4) by auto
  have reach: "reach s3 = reach s" using keeps_reach [OF s3(1)] s0(8) by simp
  have data: "incoming s3 (nat ?D) = Chunk (net ''T GRNVS V:1.0'') # Chunk (net (''T '' @ tok)) # [Chunk (net (''T '' @ dtok))]"
    using s3(2) s0(3) assms(19) fds by simp
  obtain s4 where s4: "data_phase ?D nick msg s3 = Some (Value (0, At Recvbuf 0) s4)" "keeps (insert Token work) s3 s4"
    "incoming s4 = (incoming s3)(nat ?D := [])"
    "sent s4 = sent s3 @ [(nat ?D, net (''D '' @ nick)), (nat ?D, net (''D '' @ msg))]" "str_at (At Token 0) dtok s4"
    using data_runs [OF keeps_ready [OF s3(1)] s3(3) assms(15,10-13,16,17) _ _ _ data] reach assms(21-23) by (auto simp: runs_def)
  define s5 where "s5 = s4\<lparr>closed_fds := closed_fds s4 @ [nat ?L, nat ?D]\<rparr>"
  have s5: "ready s5" "str_at (At Token 0) dtok s5" "incoming s5 (nat ?C) = Chunk (net (''S '' @ dec (length msg))) # [Chunk (net ''S ACK'')]"
    "incoming s5 (nat ?D) = []"
    using keeps_ready [OF s4(2)] s4(3,5) s3(2) fds by (simp_all add: s5_def ready_def str_at_def)
  obtain st s6 where s6: "finish_phase ?C msg (0, At Recvbuf 0) s5 = Some (Value st s6)" "keeps work s5 s6"
    "incoming s6 = (incoming s5)(nat ?C := [])" "sent s6 = sent s5 @ [(nat ?C, net (''C '' @ dtok))]"
    using finish_runs [OF s5(1,2) _ assms(13) s5(3)] assms(17,21) reach keeps_reach [OF s4(2)]
    by (auto simp: runs_def s5_def)
  have "assignment4 os ipaddr port nick msg s = Some (Value () (s6\<lparr>closed_fds := closed_fds s6 @ [nat ?C]\<rparr>))"
    using s0(1) assms(1-3) control s4(1) s6(1)
    by (simp add: assignment4_def parse_ip_def Let_def and_then_run close_fd_def s5_def)
  then show ?thesis
    using s6 s5(4) s4 s3 s0 fds by (auto simp: s5_def keeps_def)
qed

definition example_client_os :: os_client where
  "example_client_os = \<lparr>os_pton = (\<lambda>a. if a = ''::1'' then (1, replicate 16 CHR 0x01) else (0, [])), os_control = 3,
     os_connect = (\<lambda>a p. True), os_listener = 4, os_bind6 = True, os_setsockopt = (\<lambda>_. True), os_listen = True,
     os_sockname = Some 4000, os_accept = 5\<rparr>"

definition example_server :: "nat \<Rightarrow> arrival list" where
  "example_server fd = (if fd = 3 then map (\<lambda>t. Chunk (net t))
       [''S GRNVS V:1.0'', ''S '' @ ''abc'', ''S '' @ dec (length ''hi''), ''S ACK'']
     else map (\<lambda>t. Chunk (net t)) [''T GRNVS V:1.0'', ''T '' @ ''abc'', ''T '' @ ''xyz''])"

theorem assignment4_conversation_witness:
  "\<exists>s'. assignment4 example_client_os ''::1'' 1337 ''joe'' ''hi''
      (fresh_client example_server\<lparr>outgoing := \<lambda>_. [Took 3, Refused]\<rparr>) = Some (Value () s') \<and>
    map fst (sent s') = [3, 3, 3, 5, 5, 3] \<and> closed_fds s' = [4, 5, 3]"
  using assignment4_conversation [of example_client_os "''::1''" "replicate 16 CHR 0x01" 1337 4000 "''joe''" "''hi''"
      "''abc''" "''xyz''" "fresh_client example_server\<lparr>outgoing := \<lambda>_. [Took 3, Refused]\<rparr>"]
  by (auto simp: example_client_os_def example_server_def fresh_client_def unbroken_def)

text \<open>
  C37. What the client does with an answer to its greeting that is not the expected one. If it
  starts with an E, the rest is printed and the client goes on as if it had been greeted. Any
  other text is answered with an error message that quotes both strings, which is also printed,
  and the client ends with status \<open>- 1\<close>. As for every message received, the library has to move the text of the answer
  unharmed within the buffer it overlaps with (the parameter \<open>reach\<close>).
\<close>

theorem hello_phase_unexpected:
  assumes "ready s" and "incoming s (nat sdC) = Chunk (net t) # as" and "NUL \<notin> set t"
    and "2 \<le> length t" and "length t \<le> 2047" and "t \<noteq> ''S GRNVS V:1.0''" and "length t \<le> reach s"
  shows "\<exists>s'. hello_phase sdC s =
      (if hd t = CHR ''E'' then Some (Value (0, At Recvbuf 0) s') else Some (Exited (- 1) s')) \<and>
    (if hd t = CHR ''E'' then printed s' = printed s @ ''Error: '' @ drop 2 t \<and>
       sent s' = sent s @ [(nat sdC, net ''C GRNVS V:1.0'')]
     else printed s' = printed s @ ''Error: '' @ drop 2 (error_text ''S GRNVS V:1.0'' t) \<and>
       sent s' = sent s @ [(nat sdC, net ''C GRNVS V:1.0''), (nat sdC, net (error_text ''S GRNVS V:1.0'' t))])"
proof -
  let ?e = "''S GRNVS V:1.0''"
  obtain s1 where s1: "send sdC (Lit ''C GRNVS V:1.0'') s = Some (Value () s1)" "keeps {Sendbuf} s s1"
    "incoming s1 = incoming s" "sent s1 = sent s @ [(nat sdC, net ''C GRNVS V:1.0'')]"
    using send_runs [OF assms(1), of "Lit ''C GRNVS V:1.0''" "''C GRNVS V:1.0''" sdC] by (auto simp: runs_def)
  obtain s2 where s2: "recvMessage (nat sdC) (At Recvbuf 0) s1 = Some (Value 1 s2)"
    "keeps {Recvbuf, Netbuf, Fragbuf} s1 s2" "sent s2 = sent s1" "str_at (At Recvbuf 0) t s2"
    using recv_runs [OF keeps_ready [OF s1(2)], of "nat sdC" t as] assms s1(3) keeps_reach [OF s1(2)]
    by (fastforce simp: runs_def message_def)
  have printed: "printed s2 = printed s" using s1(2) s2(2) by (simp add: keeps_def)
  obtain c d r where t: "t = c # d # r" using assms(4) by (cases t; cases "tl t") auto
  show ?thesis
  proof (cases "c = CHR ''E''")
    case True
    let ?s3 = "s2\<lparr>printed := printed s2 @ ''Error: '' @ r\<rparr>"
    obtain rest where "mem s2 Recvbuf = t @ NUL # rest" using s2(4) by (auto simp: str_at_def)
    then have "str_at (At Recvbuf 2) r s2" using t assms(3) by (intro str_atI [of _ _ _ rest]) auto
    then have "checkMessage (nat sdC) (Lit ?e) (At Recvbuf 0) s2 = Some (Value 0 ?s3)"
      using get_char_run [OF s2(4)] get_string_run [of "At Recvbuf 2" r s2] t True
      by (simp add: checkMessage_def and_then_run printf_def done_with_run del: add_2_eq_Suc')
    then have "hello_phase sdC s = Some (Value (0, At Recvbuf 0) ?s3)"
      using s1(1) s2(1) next_net_last [of "At Recvbuf 0" ?s3]
      by (simp add: hello_phase_def expect_def and_then_run)
    then show ?thesis using True t s1(4) s2(3) printed by auto
  next
    case False
    obtain m' out where "checkMessage (nat sdC) (Lit ?e) (At Recvbuf 0) s2 = Some (Exited (- 1) (s2\<lparr>mem := m', outgoing := out,
        sent := sent s2 @ [(nat sdC, net (error_text ?e t))],
        printed := printed s2 @ ''Error: '' @ drop 2 (error_text ?e t)\<rparr>))"
      using checkMessage_mismatch [of "Lit ?e" ?e s2 Recvbuf t "nat sdC"] s2(2,4) assms(5,6) False t
      by (auto simp: keeps_def ready_def)
    then have "hello_phase sdC s = Some (Exited (- 1) (s2\<lparr>mem := m', outgoing := out,
        sent := sent s2 @ [(nat sdC, net (error_text ?e t))],
        printed := printed s2 @ ''Error: '' @ drop 2 (error_text ?e t)\<rparr>))"
      using s1(1) s2(1) by (simp add: hello_phase_def expect_def and_then_run)
    then show ?thesis using False t s1(4) s2(3) printed by auto
  qed
qed

theorem hello_phase_unexpected_witness:
  "\<exists>s'. hello_phase 3 (fresh_client (one_arrival (net ''E full'') [])) = Some (Value (0, At Recvbuf 0) s') \<and>
    printed s' = ''Error: full''"
  using hello_phase_unexpected [of "fresh_client (one_arrival (net ''E full'') [])" 3 "''E full''" "[]"]
  by (auto simp: fresh_client_def one_arrival_def ready_def unbroken_def)

text \<open>
  The limit on everything the client assembles in \<open>text\<close> (its nick, the message, which may
  be up to 4095 bytes of a file, the tokens): with its prefix it may have 4089 characters; one more
  and the program has no defined behaviour.
\<close>

theorem text_limit:
  assumes "ready s" and "NUL \<notin> set u" and "NUL \<notin> set pre" and "length pre \<le> 2"
  shows "if length pre + length u \<le> 4089
    then \<exists>s'. and_then (set_text pre (Lit u)) (\<lambda>_. send fd (At Text 0)) s = Some (Value () s') \<and>
      sent s' = sent s @ [(nat fd, net (pre @ u))]
    else and_then (set_text pre (Lit u)) (\<lambda>_. send fd (At Text 0)) s = Some Undef"
proof (cases "length pre + length u \<le> 4089")
  case True
  then show ?thesis
    using text_send_runs [OF assms(1), of "Lit u" u pre fd] assms(2,3) by (auto simp: and_then_run)
next
  case False
  show ?thesis
  proof (cases "length pre + length u < BUFSIZE")
    case fits: True
    obtain s1 where s1: "set_text pre (Lit u) s = Some (Value () s1)" "keeps {Text} s s1" "str_at (At Text 0) (pre @ u) s1"
      using set_text_runs [OF assms(1), of "Lit u" u pre] assms(2,3) fits by (auto simp: runs_def)
    have "sendMessage (nat fd) (At Text 0) (At Sendbuf 0) s1 = Some Undef"
      using sendMessage_too_long [of s1 Sendbuf "At Text 0" "pre @ u" "nat fd"] s1(2,3) False
      by (auto simp: keeps_def ready_def)
    then show ?thesis using False s1(1) by (simp add: and_then_run send_def)
  next
    case long: False
    obtain s1 where s1: "strcpy (At Text 0) (Lit pre) s = Some (Value () s1)" "keeps {Text} s s1" "str_at (At Text 0) pre s1"
      using strcpy_text [OF assms(1,3)] assms(4) by (auto simp: BUFSIZE_def)
    then have "strcat (At Text 0) (Lit u) s1 = Some Undef"
      using long assms(2) by (intro strcat_overflow [of _ _ pre _ _ u]) (auto simp: keeps_def ready_def)
    then show ?thesis using False s1(1) by (simp add: and_then_run set_text_def)
  qed
qed

theorem text_limit_witness:
  "and_then (set_text ''D '' (Lit (replicate 4088 CHR ''x''))) (\<lambda>_. send 5 (At Text 0)) (fresh_client (\<lambda>_. [])) = Some Undef"
  using text_limit [of "fresh_client (\<lambda>_. [])" "replicate 4088 CHR ''x''" "''D ''" 5]
  by (simp add: ready_def)

lemma word16_of_int32: "word_of_int (to_int32 i) = (word_of_int i :: u16)"
proof -
  have "take_bit 16 (signed_take_bit 31 i) = take_bit 16 i" by (simp add: take_bit_signed_take_bit)
  then show ?thesis by (simp add: to_int32_def word_of_int_eq_iff)
qed

text \<open>The settings of a command line: what each way to write an option stores.\<close>

fun store_client :: "argp_event \<Rightarrow> client_args \<Rightarrow> client_args" where
  "store_client (Opt c v) a =
     (if c = CHR ''m'' then a\<lparr>arg_msg := Some v\<rparr>
      else if c = CHR ''p'' then a\<lparr>arg_port := to_int32 (fst (strtol v))\<rparr>
      else a\<lparr>arg_file := Some v\<rparr>)"
| "store_client _ a = a"

text \<open>The port is a number with nothing after it, or empty.\<close>

fun port_ok :: "argp_event \<Rightarrow> bool" where
  "port_ok (Opt c v) \<longleftrightarrow> c = CHR ''p'' \<longrightarrow> snd (strtol v) = []"
| "port_ok _ \<longleftrightarrow> True"

definition client_defaults :: client_args where
  "client_defaults = \<lparr>arg_nick = None, arg_dst = None, arg_port = 1337, arg_msg = None, arg_file = None\<rparr>"

lemma is_key_client [simp]: "is_key options_client c \<longleftrightarrow> c \<in> {CHR ''f'', CHR ''p'', CHR ''m''}"
  by (auto simp: is_key_def options_client_def)

lemma store_client_words [simp]:
  "arg_nick (fold store_client es a) = arg_nick a" "arg_dst (fold store_client es a) = arg_dst a"
proof (induction es arbitrary: a)
  case (Cons e es)
  { case 1 with Cons show ?case by (cases e) simp_all }
  { case 2 with Cons show ?case by (cases e) simp_all }
qed simp_all

lemma argp_client_items:
  assumes "\<forall>x \<in> set xs. item_ok options_client x" and "\<forall>e \<in> set (given_options options_client xs). port_ok e"
  shows "argp parse_opt_client options_client (prog # command_words xs @ ws) a =
    argp_parse parse_opt_client (fst (getopt options_client ws) @ map Arg (given_words xs @ snd (getopt options_client ws))) 0
      (fold store_client (given_options options_client xs) a)"
proof -
  have "\<exists>c v. item_event options_client x = Opt c v \<and>
      (\<forall>n a. parse_opt_client (KEY_OPT c) v n a = (NO_ERROR, store_client (Opt c v) a))"
    if x: "x \<in> set xs" "\<not> is_word x" for x
  proof -
    obtain c v where cv: "item_event options_client x = Opt c v" "is_key options_client c"
      using item_option [of options_client x] assms(1) x by auto
    then have "port_ok (Opt c v)" using assms(2) x by (force simp: given_options_def)
    with cv show ?thesis by (auto simp: parse_opt_client_def Let_def split: prod.splits)
  qed
  from client_parser.argp_settings [OF assms(1) this] show ?thesis .
qed

text \<open>What is left after the options: the words, and the tests of \<open>parse_args\<close>.\<close>

lemma argp_parse_client_words:
  "argp_parse parse_opt_client (map Arg ws) 0 a = (case ws of
     [] \<Rightarrow> Parsed a
   | [nick] \<Rightarrow> Parsed (a\<lparr>arg_nick := Some nick\<rparr>)
   | [nick, dst] \<Rightarrow> Parsed (a\<lparr>arg_nick := Some nick, arg_dst := Some dst\<rparr>)
   | _ \<Rightarrow> Usage_exit)"
  by (simp add: parse_opt_client_def split: list.splits)

lemma parse_args_client_items:
  assumes "\<forall>x \<in> set xs. item_ok options_client x" and "\<forall>e \<in> set (given_options options_client xs). port_ok e"
    and "a = fold store_client (given_options options_client xs) client_defaults"
  shows "parse_args_client (prog # command_words xs) = (case given_words xs of
      [nick, dst] \<Rightarrow> if arg_file a = None \<and> arg_msg a = None then Parse_failed MINUS_ONE
        else Parsed (a\<lparr>arg_nick := Some nick, arg_dst := Some dst\<rparr>)
    | ws \<Rightarrow> if length ws < 2 then Parse_failed MINUS_ONE else Usage_exit)"
proof -
  have a: "arg_nick a = None" "arg_dst a = None" by (simp_all add: assms(3) client_defaults_def)
  have "argp parse_opt_client options_client (prog # command_words xs) client_defaults =
      argp_parse parse_opt_client (map Arg (given_words xs)) 0 a"
    using argp_client_items [OF assms(1,2), of prog "[]" client_defaults] by (simp add: assms(3))
  then have parse: "parse_args_client (prog # command_words xs) =
      (case argp_parse parse_opt_client (map Arg (given_words xs)) 0 a of
         Parsed args \<Rightarrow>
           (if arg_dst args = None then Parse_failed MINUS_ONE
            else if arg_nick args = None then Parse_failed MINUS_ONE
            else if arg_file args = None \<and> arg_msg args = None then Parse_failed MINUS_ONE
            else Parsed args)
       | r \<Rightarrow> r)"
    by (simp only: parse_args_client_def client_defaults_def)
  consider "given_words xs = []" | v where "given_words xs = [v]" | v w where "given_words xs = [v, w]"
    | u v w ws where "given_words xs = u # v # w # ws"
    by (metis neq_Nil_conv)
  then show ?thesis
    unfolding parse argp_parse_client_words by cases (simp_all add: a)
qed

lemma long_match_client [simp]:
  "long_match options_client ''file'' = Some (Own CHR ''f'')"
  "long_match options_client ''mes'' = Some (Own CHR ''m'')"
  "long_match options_client ''po'' = Some (Own CHR ''p'')"
  "long_match options_client ''p'' = None"
  by (simp_all add: long_match_def long_options_def library_options_def options_client_def)

text \<open>
  C38. \<open>main\<close> of the client. A parsed command line always has a nick, a destination, a file or a
  message, and a port in the range of \<open>int\<close>; the port that is used is the number given modulo
  \<open>2 ^ 16\<close>. The message from a file is its first 4095 bytes up to a NUL, and the file wins over
  \<open>-m\<close>. A destination that is no IPv6 address ends the program with status 0 before anything is
  sent.
\<close>

theorem main_client_runs:
  assumes "\<not> dashed nick" and "\<not> dashed dst"
  shows "(parse_args_client argv = Parsed args \<longrightarrow> arg_nick args \<noteq> None \<and> arg_dst args \<noteq> None \<and>
      (arg_file args \<noteq> None \<or> arg_msg args \<noteq> None) \<and> int32_port args) \<and>
   (in_long i \<longrightarrow> main_client [prog, ''-p'', dec_int i, ''-m'', msg, nick, dst] files os =
      and_then (assignment4 os dst (word_of_int i) nick msg) (\<lambda>_. done_with 0)) \<and>
   (files f = Some (Some c) \<longrightarrow> main_client [prog, nick, dst, ''--file='' @ f, ''-m'', msg] files os =
      and_then (assignment4 os dst 1337 nick (takeWhile (\<lambda>c. c \<noteq> NUL) (take 4095 c))) (\<lambda>_. done_with 0)) \<and>
   (fst (os_pton os dst) \<le> 0 \<longrightarrow> main_client [prog, nick, dst, ''-m'', msg] files os s = Some (Value 0 s))"
proof (intro conjI impI)
  assume p: "parse_args_client argv = Parsed args"
  then have "argp parse_opt_client options_client argv
      \<lparr>arg_nick = None, arg_dst = None, arg_port = 1337, arg_msg = None, arg_file = None\<rparr> = Parsed args"
    by (auto simp: parse_args_client_def split: parse_result.splits if_splits)
  then have port: "int32_port args" by (rule client_parser.argp_inv [rotated]) simp
  then show "- 2147483648 \<le> arg_port args" "arg_port args \<le> 2147483647" by simp_all
  show "arg_nick args \<noteq> None" "arg_dst args \<noteq> None" "arg_file args \<noteq> None \<or> arg_msg args \<noteq> None"
    using p by (auto simp: parse_args_client_def split: parse_result.splits if_splits)
next
  assume "in_long i"
  then have "strtol (dec_int i) = (i, [])" by (rule strtol_dec_int)
  then show "main_client [prog, ''-p'', dec_int i, ''-m'', msg, nick, dst] files os =
      and_then (assignment4 os dst (word_of_int i) nick msg) (\<lambda>_. done_with 0)"
    using parse_args_client_items [of "[Short_apart CHR ''p'' (dec_int i), Short_apart CHR ''m'' msg, Word nick, Word dst]"] assms
    by (simp add: client_defaults_def main_client_def word16_of_int32)
next
  assume "files f = Some (Some c)"
  then show "main_client [prog, nick, dst, ''--file='' @ f, ''-m'', msg] files os =
      and_then (assignment4 os dst 1337 nick (takeWhile (\<lambda>c. c \<noteq> NUL) (take 4095 c))) (\<lambda>_. done_with 0)"
    using parse_args_client_items [of "[Word nick, Word dst, Long_equals ''file'' f, Short_apart CHR ''m'' msg]"] assms
    by (simp add: client_defaults_def main_client_def)
next
  assume "fst (os_pton os dst) \<le> 0"
  then show "main_client [prog, nick, dst, ''-m'', msg] files os s = Some (Value 0 s)"
    using parse_args_client_items [of "[Word nick, Word dst, Short_apart CHR ''m'' msg]"] assms
    by (simp add: client_defaults_def main_client_def assignment4_def parse_ip_def
        and_then_run done_with_run split: prod.splits)
qed

theorem main_client_runs_witness:
  "main_client [''asciiclient'', ''joe'', ''10.0.0.1'', ''-m'', ''hi''] (\<lambda>_. None) example_client_os (fresh_client (\<lambda>_. [])) =
    Some (Value 0 (fresh_client (\<lambda>_. [])))"
  using main_client_runs [where os = example_client_os and dst = "''10.0.0.1''" and nick = "''joe''" and msg = "''hi''"
      and files = "\<lambda>_. None" and s = "fresh_client (\<lambda>_. [])"]
  by (simp add: example_client_os_def)

text \<open>
  C9. The command line of the client. Options written in any way - short or long, abbreviated, the
  value apart or joined - before, between and behind nick and destination and as often as one likes, are
  read back, the last of a kind counts, and the port is the low 32 bits of its number; a message or a
  file is required. Fewer than two words are an error, a third word is a usage error, and so is
  \<open>--p\<close>, which could also be an option of the library.
\<close>

theorem client_command_line:
  assumes "\<forall>x \<in> set xs. item_ok options_client x" and "\<forall>e \<in> set (given_options options_client xs). port_ok e"
    and "a = fold store_client (given_options options_client xs) client_defaults"
  shows "(given_words xs = [nick, dst] \<longrightarrow> parse_args_client (prog # command_words xs) =
      (if arg_file a = None \<and> arg_msg a = None then Parse_failed MINUS_ONE
       else Parsed (a\<lparr>arg_nick := Some nick, arg_dst := Some dst\<rparr>))) \<and>
    (length (given_words xs) < 2 \<longrightarrow> parse_args_client (prog # command_words xs) = Parse_failed MINUS_ONE) \<and>
    (2 < length (given_words xs) \<longrightarrow> parse_args_client (prog # command_words xs) = Usage_exit) \<and>
    parse_args_client (prog # command_words xs @ ''--p'' # ws) = Usage_exit"
proof -
  have "getopt options_client (''--p'' # ws) = ([Bad_option], [])" by (simp add: word_kind_of_def)
  then have "parse_args_client (prog # command_words xs @ ''--p'' # ws) = Usage_exit"
    using argp_client_items [OF assms(1,2), of prog "''--p'' # ws"] by (simp add: parse_args_client_def)
  then show ?thesis
    using parse_args_client_items [OF assms, of prog] by (auto split: list.splits)
qed

theorem client_command_line_witness:
  "parse_args_client [''asciiclient'', ''--po=+7'', ''joe'', ''-mhi'', ''::1'', ''--mes'', ''-x''] =
     Parsed \<lparr>arg_nick = Some ''joe'', arg_dst = Some ''::1'', arg_port = 7, arg_msg = Some ''-x'', arg_file = None\<rparr>"
proof -
  let ?xs = "[Long_equals ''po'' ''+7'', Word ''joe'', Short_joined CHR ''m'' ''hi'', Word ''::1'', Long_apart ''mes'' ''-x'']"
  have port: "strtol ''+7'' = (7, [])" by (simp add: c_eval)
  have "\<forall>x \<in> set ?xs. item_ok options_client x" by simp
  moreover have "\<forall>e \<in> set (given_options options_client ?xs). port_ok e" by (simp add: port)
  ultimately show ?thesis
    using client_command_line [of ?xs _ "''joe''" "''::1''" "''asciiclient''"]
    by (simp add: client_defaults_def port to_int32_id)
qed

end
