(* ===== verification/ClientSafety.thy ===== *)
theory ClientSafety
  imports AsciiClient
begin

text \<open>
  The client of assignment 4 against an arbitrary server, on an arbitrary system: what it can send
  in any run, from the words of its command line on. The parts of the program are composed by the
  rule \<open>behaves_seq\<close>.
\<close>

section \<open>Behaviour of a part of the program\<close>

definition sized :: "client \<Rightarrow> bool" where
  "sized s \<longleftrightarrow> (\<forall>b. length (mem s b) = BUFSIZE)"

text \<open>
  What is sent last if the program ends with a status: nothing after a failed system call, a
  report if \<open>checkMessage\<close> ends the program.
\<close>

definition error_report :: "int \<Rightarrow> (nat \<times> string) list \<Rightarrow> bool" where
  "error_report c e \<longleftrightarrow> c = 1 \<and> e = [] \<or> c = - 1 \<and> (\<exists>fd t. e = [(fd, net (''E '' @ t))])"

text \<open>If a signal ends the program, that may have happened in the middle of such a report.\<close>

definition last_report :: "(nat \<times> string) list \<Rightarrow> bool" where
  "last_report e \<longleftrightarrow> e = [] \<or> (\<exists>fd t. e = [(fd, net (''E '' @ t))])"

text \<open>An end of the program, after a part of one of the sequences \<open>L\<close> and a report.\<close>

definition ended :: "client \<Rightarrow> client \<Rightarrow> (nat \<times> string) list set \<Rightarrow> ((nat \<times> string) list \<Rightarrow> bool) \<Rightarrow> bool" where
  "ended s s' L E \<longleftrightarrow> sized s' \<and> (\<exists>l \<in> L. \<exists>k e. sent s' = sent s @ take k l @ e \<and> E e)"

text \<open>
  A run that stays defined keeps the sizes; if it returns, it has handed over one of the sequences
  \<open>L\<close>, and if it ends the program, a part of one and its report. Every run of \<open>m\<close> from \<open>s\<close> is of
  this kind.
\<close>

fun conforms :: "client \<Rightarrow> (nat \<times> string) list set \<Rightarrow> ('a \<Rightarrow> client \<Rightarrow> bool) \<Rightarrow> 'a run \<Rightarrow> bool" where
  "conforms s L Q (Value x s') \<longleftrightarrow> sized s' \<and> (\<exists>l \<in> L. sent s' = sent s @ l) \<and> Q x s'"
| "conforms s L Q (Exited c s') \<longleftrightarrow> ended s s' L (error_report c)"
| "conforms s L Q (Killed s') \<longleftrightarrow> ended s s' L last_report"
| "conforms s L Q Undef \<longleftrightarrow> True"

definition behaves :: "'a prog \<Rightarrow> client \<Rightarrow> (nat \<times> string) list set \<Rightarrow> ('a \<Rightarrow> client \<Rightarrow> bool) \<Rightarrow> bool" where
  "behaves m s L Q \<longleftrightarrow> (\<forall>r. m s = Some r \<longrightarrow> conforms s L Q r)"

lemma behavesD: "behaves m s L Q \<Longrightarrow> m s = Some r \<Longrightarrow> conforms s L Q r"
  by (simp add: behaves_def)

definition after_all :: "(nat \<times> string) list set \<Rightarrow> (nat \<times> string) list set \<Rightarrow> (nat \<times> string) list set" where
  "after_all L M = {a @ b | a b. a \<in> L \<and> b \<in> M}"

lemma after_all_quiet [simp]: "after_all {[]} M = M"
  by (auto simp: after_all_def)

text \<open>What ends after \<open>l\<close> has been sent, and a part that ends before the rest.\<close>

lemma ended_after:
  assumes "ended t u M E" and "l \<in> L" and "sent t = sent s @ l"
  shows "ended s u (after_all L M) E"
proof -
  obtain l' k e where u: "sized u" "l' \<in> M" "sent u = sent t @ take k l' @ e" "E e"
    using assms(1) by (auto simp: ended_def)
  have "sent u = sent s @ take (length l + k) (l @ l') @ e" using u(3) assms(3) by simp
  moreover have "l @ l' \<in> after_all L M" using assms(2) u(2) by (auto simp: after_all_def)
  ultimately show ?thesis using u(1,4) unfolding ended_def by blast
qed

lemma ended_before:
  assumes "ended s t L E" and "M \<noteq> {}"
  shows "ended s t (after_all L M) E"
proof -
  obtain l k e where l: "l \<in> L" "sent t = sent s @ take k l @ e" "E e" "sized t"
    using assms(1) by (auto simp: ended_def)
  obtain l' where l': "l' \<in> M" using assms(2) by auto
  have "take k l = take (min k (length l)) (l @ l')" by (simp add: min_def)
  then have "sent t = sent s @ take (min k (length l)) (l @ l') @ e" using l(2) by simp
  moreover have "l @ l' \<in> after_all L M" using l(1) l' by (auto simp: after_all_def)
  ultimately show ?thesis using l(3,4) unfolding ended_def by blast
qed

lemma ended_mono: "ended s t L E \<Longrightarrow> L \<subseteq> M \<Longrightarrow> ended s t M E"
  by (auto simp: ended_def)

lemma ended_quiet: "ended s t {[]} E \<Longrightarrow> L \<noteq> {} \<Longrightarrow> ended s t L E"
  using ended_before [of s t "{[]}" E L] by simp

lemma behaves_seq:
  assumes "behaves m s L P" and "\<And>x t. sized t \<Longrightarrow> P x t \<Longrightarrow> behaves (f x) t M Q" and "M \<noteq> {}"
  shows "behaves (and_then m f) s (after_all L M) Q"
  unfolding behaves_def
proof (intro allI impI)
  fix r
  assume r: "and_then m f s = Some r"
  then obtain p where p: "m s = Some p" by (cases "m s") (auto simp: and_then_run)
  note first = behavesD [OF assms(1) p]
  show "conforms s (after_all L M) Q r"
  proof (cases p)
    case (Value x t)
    then obtain l where l: "l \<in> L" "sent t = sent s @ l" "sized t" "P x t" using first by auto
    have "f x t = Some r" using r p Value by (simp add: and_then_run)
    with behavesD [OF assms(2) [OF l(3,4)]] have "conforms t M Q r" .
    with l show ?thesis by (cases r) (auto simp: after_all_def ended_after [unfolded after_all_def])
  qed (use r p first in \<open>auto simp: and_then_run intro: ended_before [OF _ assms(3)]\<close>)
qed

lemma behaves_weaken:
  assumes "behaves m s L P" and "\<And>x t. sized t \<Longrightarrow> P x t \<Longrightarrow> Q x t" and "L \<subseteq> M"
  shows "behaves m s M Q"
  unfolding behaves_def
proof (intro allI impI)
  fix r
  assume "m s = Some r"
  with behavesD [OF assms(1)] have "conforms s L P r" .
  with assms(2,3) show "conforms s M Q r" by (cases r) (auto intro: ended_mono)
qed

lemma behaves_no_value:
  assumes "behaves m s {[]} P" and "\<And>x s'. m s \<noteq> Some (Value x s')" and "L \<noteq> {}"
  shows "behaves m s L Q"
  unfolding behaves_def
proof (intro allI impI)
  fix r
  assume r: "m s = Some r"
  with behavesD [OF assms(1)] have "conforms s {[]} P r" .
  with r assms(2,3) show "conforms s L Q r" by (cases r) (auto intro: ended_quiet)
qed

section \<open>Parts that send nothing\<close>

definition silent :: "'a prog \<Rightarrow> bool" where
  "silent m \<longleftrightarrow> (\<forall>s. sized s \<longrightarrow> behaves m s {[]} (\<lambda>_ _. True))"

named_theorems silent_intros \<open>which parts send nothing but a report\<close>

lemma silent_seq [silent_intros]:
  assumes "silent m" and "\<And>x. silent (f x)"
  shows "silent (and_then m f)"
  unfolding silent_def
proof (intro allI impI)
  fix s
  assume "sized s"
  then show "behaves (and_then m f) s {[]} (\<lambda>_ _. True)"
    using behaves_seq [of m s "{[]}" "\<lambda>_ _. True" f "{[]}" "\<lambda>_ _. True"] assms by (simp add: silent_def)
qed

lemma silent_then:
  "silent m \<Longrightarrow> sized s \<Longrightarrow> (\<And>x t. sized t \<Longrightarrow> behaves (f x) t M Q) \<Longrightarrow> M \<noteq> {} \<Longrightarrow> behaves (and_then m f) s M Q"
  using behaves_seq [of m s "{[]}" "\<lambda>_ _. True" f M Q] by (simp add: silent_def)

fun quiet :: "client \<Rightarrow> 'a run \<Rightarrow> bool" where
  "quiet s (Value x s') \<longleftrightarrow> sized s' \<and> sent s' = sent s"
| "quiet s (Exited c s') \<longleftrightarrow> c = 1 \<and> sized s' \<and> sent s' = sent s"
| "quiet s (Killed s') \<longleftrightarrow> False"
| "quiet s Undef \<longleftrightarrow> True"

lemma silentI:
  assumes "\<And>s r. sized s \<Longrightarrow> m s = Some r \<Longrightarrow> quiet s r"
  shows "silent m"
  unfolding silent_def behaves_def
proof (intro allI impI)
  fix s r
  assume "sized s" and "m s = Some r"
  from assms [OF this] show "conforms s {[]} (\<lambda>_ _. True) r"
    by (cases r) (auto simp: error_report_def ended_def)
qed

lemma silent_basic [silent_intros]:
  "silent (done_with x)" "silent (exit_with 1)" "silent undefined_run" "silent (get_char p)" "silent (get_string p)"
  "silent (get_bytes p n)" "silent (printf t)" "silent (close_fd fd)" "silent (zero_array b)"
  "silent (configure os fd' t')"
  by (rule silentI, auto simp: run_eval get_char_def get_string_def get_bytes_def printf_def close_fd_def
      configure_def zero_array_def sized_def split: list.splits if_splits)+

lemma silent_put [silent_intros]: "silent (put p cs)"
  by (rule silentI) (auto simp: put_def sized_def split: cptr.splits if_splits)

lemma silent_if [silent_intros]: "silent m \<Longrightarrow> silent n \<Longrightarrow> silent (if b then m else n)"
  by simp

lemma silent_option [silent_intros]: "silent m \<Longrightarrow> (\<And>a. silent (f a)) \<Longrightarrow> silent (case x of None \<Rightarrow> m | Some a \<Rightarrow> f a)"
  by (cases x) simp_all

lemma silent_prod [silent_intros]: "(\<And>a b. silent (f a b)) \<Longrightarrow> silent (case x of (a, b) \<Rightarrow> f a b)"
  by (cases x) simp

lemma silent_guarded [silent_intros]: "silent m \<Longrightarrow> silent (\<lambda>s. if P s then m s else Some Undef)"
  by (auto simp: silent_def behaves_def)

lemma silent_strings [silent_intros]:
  "silent (strlen p)" "silent (strchr p c)" "silent (strcpy d p)" "silent (strcat d p)" "silent (memset0 p n)"
  unfolding strlen_def strchr_def strcpy_def strcat_def memset0_def by (intro silent_intros)+

lemma silent_strncpy [silent_intros]: "silent (strncpy d p n)"
proof (rule silentI)
  fix s r
  assume s: "sized s" and run: "strncpy d p n s = Some r"
  have "r = Undef \<or> (\<exists>cs. put d cs s = Some r)"
    using run unfolding strncpy_def Let_def by (auto split: if_splits)
  then show "quiet s r"
    using s by (cases d) (auto simp: put_def sized_def split: if_splits)
qed

lemma silent_read_fd [silent_intros]: "silent (read_fd fd p n)"
proof (rule silentI)
  fix s r
  assume s: "sized s" and run: "read_fd fd p n s = Some r"
  show "quiet s r"
    using s run
    by (auto simp: read_fd_def put_def and_then_def run_eval sized_def deliver_def
        split: if_splits list.splits arrival.splits cptr.splits)
qed

text \<open>For the loops, whose induction rules speak of the runs that end.\<close>

lemma silent_runs:
  "silent m \<longleftrightarrow> (\<forall>s r. m s = Some r \<longrightarrow> sized s \<longrightarrow> behaves (\<lambda>_. Some r) s {[]} (\<lambda>_ _. True))"
  unfolding silent_def behaves_def by auto

lemma silent_read_more [silent_intros]: "silent (read_more fd p n)"
  unfolding silent_runs
proof (intro allI)
  fix s r
  show "read_more fd p n s = Some r \<longrightarrow> sized s \<longrightarrow> behaves (\<lambda>_. Some r) s {[]} (\<lambda>_ _. True)"
  proof (rule impI, erule read_more.raw_induct [rotated])
    fix loop fd p n s r
    assume IH: "\<And>fd p n s r. loop fd p n s = Some r \<Longrightarrow> sized s \<longrightarrow> behaves (\<lambda>_. Some r) s {[]} (\<lambda>_ _. True)"
      and body: "and_then (strlen p) (\<lambda>k. if k < unat n then
         and_then (strlen (At Fragbuf 0)) (\<lambda>k.
         and_then (read_fd fd (At Fragbuf 0) (unat (n - of_nat k))) (\<lambda>r.
         if r < 0 then done_with ()
         else and_then (strcat p (At Fragbuf 0)) (\<lambda>_ s. loop fd p n s)))
       else done_with ()) s = Some r"
    have "silent (\<lambda>s. loop fd p n s)" for fd p n
      using IH by (simp add: silent_runs)
    then have "silent (and_then (strlen p) (\<lambda>k. if k < unat n then
         and_then (strlen (At Fragbuf 0)) (\<lambda>k.
         and_then (read_fd fd (At Fragbuf 0) (unat (n - of_nat k))) (\<lambda>r.
         if r < 0 then done_with ()
         else and_then (strcat p (At Fragbuf 0)) (\<lambda>_ s. loop fd p n s)))
       else done_with ()))"
      by (intro silent_intros)
    then show "sized s \<longrightarrow> behaves (\<lambda>_. Some r) s {[]} (\<lambda>_ _. True)"
      using body by (simp add: silent_runs)
  qed
qed

section \<open>Reports\<close>

lemma strcpy_str:
  assumes "strcpy (At b i) p s = Some (Value () s')" and "str_at p t s"
  shows "str_at (At b i) t s'" and "b' \<noteq> b \<Longrightarrow> mem s' b' = mem s b'"
proof -
  have fits: "i + length t < length (mem s b)"
    and s': "s' = with_block b (take i (mem s b) @ t @ NUL # drop (i + length t + 1) (mem s b)) s"
    using assms(1) unfolding strcpy_eq [OF assms(2)] by (auto split: if_splits)
  show "str_at (At b i) t s'"
    using assms(2) fits by (intro str_atI) (auto simp: s' str_at_def)
  show "b' \<noteq> b \<Longrightarrow> mem s' b' = mem s b'" by (simp add: s')
qed

lemma strcat_str:
  assumes "strcat (At b i) p s = Some (Value () s')" and "str_at (At b i) u s" and "str_at p t s"
  shows "str_at (At b i) (u @ t) s'" and "b' \<noteq> b \<Longrightarrow> mem s' b' = mem s b'"
proof -
  have fits: "i + length u + length t < length (mem s b)"
    and s': "s' = with_block b (take i (mem s b) @ u @ t @ NUL # drop (i + length u + length t + 1) (mem s b)) s"
    using assms(1) str_at_prefix [OF assms(2)]
    unfolding strcat_strcpy [OF assms(2)] strcpy_eq [OF assms(3)] by (auto split: if_splits)
  show "str_at (At b i) (u @ t) s'"
    using assms(2,3) fits by (intro str_atI) (auto simp: s' str_at_def)
  show "b' \<noteq> b \<Longrightarrow> mem s' b' = mem s b'" by (simp add: s')
qed

text \<open>A string function that returns has found a string.\<close>

lemma get_string_found: "get_string p s = Some (Value t s') \<Longrightarrow> str_at p t s \<and> s' = s"
proof -
  assume run: "get_string p s = Some (Value t s')"
  then have found: "NUL \<in> set (view p s)" "t = takeWhile (\<lambda>c. c \<noteq> NUL) (view p s)" "s' = s"
    by (auto simp: get_string_def split: if_splits)
  obtain rest where "dropWhile (\<lambda>c. c \<noteq> NUL) (view p s) = NUL # rest"
    using found(1) by (cases "dropWhile (\<lambda>c. c \<noteq> NUL) (view p s)") (auto simp: dropWhile_eq_Nil_conv dropWhile_eq_Cons_conv)
  then have "view p s = t @ NUL # rest" using found(2) takeWhile_dropWhile_id by metis
  moreover have "NUL \<notin> set t" using found(2) by (auto dest: set_takeWhileD)
  ultimately show ?thesis using found(3) by (auto intro: str_atI)
qed

lemma strcat_found:
  assumes "strcat d p s = Some (Value () s')"
  shows "\<exists>u t. str_at d u s \<and> str_at p t s"
proof -
  obtain u where u: "get_string d s = Some (Value u s)"
    using assms get_string_found [of d s]
    by (cases "get_string d s") (auto simp: strcat_def strlen_def and_then_def done_with_def split: run.splits)
  obtain t where "get_string p s = Some (Value t s)"
    using assms u get_string_found [of p s]
    by (cases "get_string p s") (auto simp: strcat_def strlen_def strcpy_def and_then_def done_with_def split: run.splits)
  then show ?thesis using get_string_found [OF u] get_string_found by blast
qed

lemma behaves_post:
  assumes "silent m" and "sized s" and "\<And>x s'. m s = Some (Value x s') \<Longrightarrow> Q x s'"
  shows "behaves m s {[]} Q"
  unfolding behaves_def
proof (intro allI impI)
  fix r
  assume r: "m s = Some r"
  have "behaves m s {[]} (\<lambda>_ _. True)" using assms(1,2) by (simp add: silent_def)
  from behavesD [OF this r] show "conforms s {[]} Q r" using assms(3) r by (cases r) simp_all
qed

lemma write_call_logs:
  assumes "sized s"
  shows "\<exists>v s'. (write_call fd cs s = Some (Value v s') \<or> write_call fd cs s = Some (Killed s')) \<and>
    sized s' \<and> sent s' = sent s @ [(fd, cs)]"
  using assms by (auto simp: write_call_def Let_def sized_def split: list.split write_answer.split)

lemma sendMessage_sends:
  assumes "sized s" and "str_at m t s" and "\<And>b. in_block b buf \<Longrightarrow> \<not> in_block b m"
  shows "sendMessage fd m buf s = Some Undef \<or>
    (\<exists>v s'. (sendMessage fd m buf s = Some (Value v s') \<or> sendMessage fd m buf s = Some (Killed s')) \<and>
      sized s' \<and> sent s' = sent s @ [(fd, net t)])"
proof (cases "\<exists>b. buf = At b 0")
  case True
  then obtain b where b: "buf = At b 0" by blast
  have len: "length (mem s b) = BUFSIZE" using assms(1) by (simp add: sized_def)
  have other: "\<not> in_block b m" using assms(3) b by simp
  show ?thesis
  proof (cases "length t < 4090")
    case True
    then have fits: "length (net t) \<le> BUFSIZE"
      using length_dec_bounds(1) [of "length t"] by (simp add: length_net BUFSIZE_def)
    have "sized (with_block b (padded (net t)) s)" using assms(1) fits by (simp add: sized_def)
    moreover have "sendMessage fd m buf s = write_call fd (net t) (with_block b (padded (net t)) s)"
      unfolding b by (rule sendMessage_fits [OF len assms(2) other True])
    ultimately show ?thesis using write_call_logs [of "with_block b (padded (net t)) s" fd "net t"] by auto
  next
    case False
    then show ?thesis unfolding b by (intro disjI1 sendMessage_too_long [OF len assms(2) other]) simp
  qed
next
  case False
  have "memset0 buf BUFSIZE s = Some Undef"
    using False assms(1) by (cases buf) (simp_all add: memset0_def put_def sized_def)
  then show ?thesis by (simp add: sendMessage_def writeNet_def and_then_run)
qed

lemma behaves_quiet:
  "behaves m s {[]} P \<Longrightarrow> (\<And>x t. sized t \<Longrightarrow> P x t \<Longrightarrow> behaves (f x) t M Q) \<Longrightarrow> M \<noteq> {} \<Longrightarrow>
    behaves (and_then m f) s M Q"
  using behaves_seq [of m s "{[]}" P f M Q] by simp

lemma behaves_done: "sized s \<Longrightarrow> Q x s \<Longrightarrow> behaves (done_with x) s {[]} Q"
  by (simp add: behaves_def done_with_def)

lemma silentD: "silent m \<Longrightarrow> sized s \<Longrightarrow> behaves m s {[]} (\<lambda>_ _. True)"
  by (simp add: silent_def)

text \<open>The report that \<open>checkMessage\<close> puts together starts with \<open>E\<close>.\<close>

definition report_at :: "unit \<Rightarrow> client \<Rightarrow> bool" where
  "report_at _ s \<longleftrightarrow> (\<exists>x. str_at (At Errmsg 0) (''E '' @ x) s)"

lemma strcat_report:
  assumes "sized s" and "report_at u s"
  shows "behaves (strcat (At Errmsg 0) p) s {[]} report_at"
proof (rule behaves_post [OF silent_strings(4) assms(1)])
  fix x s'
  assume "strcat (At Errmsg 0) p s = Some (Value x s')"
  then have run: "strcat (At Errmsg 0) p s = Some (Value () s')" by simp
  obtain y where y: "str_at (At Errmsg 0) (''E '' @ y) s" using assms(2) by (auto simp: report_at_def)
  obtain t where "str_at p t s" using strcat_found [OF run] by blast
  from strcat_str(1) [OF run y this] show "report_at x s'" by (auto simp: report_at_def)
qed

lemma strcats_report:
  "sized s \<Longrightarrow> report_at u s \<Longrightarrow> behaves (steps (map (strcat (At Errmsg 0)) ps)) s {[]} report_at"
proof (induction ps arbitrary: s u)
  case Nil
  then show ?case by (simp add: behaves_done report_at_def)
next
  case (Cons p ps)
  then show ?case by (auto intro!: behaves_quiet [OF strcat_report])
qed

lemma report_then_exit:
  assumes "sized s" and "report_at u s" and "\<not> in_block Errmsg buf"
  shows "behaves (and_then (sendMessage fd (At Errmsg 0) buf) (\<lambda>_.
     and_then (get_string (At Errmsg 2)) (\<lambda>t.
     and_then (printf (''Error: '' @ t)) (\<lambda>_. exit_with (- 1))))) s {[]} Q"
proof -
  obtain x where x: "str_at (At Errmsg 0) (''E '' @ x) s" using assms(2) by (auto simp: report_at_def)
  have other: "in_block b buf \<Longrightarrow> \<not> in_block b (At Errmsg 0)" for b using assms(3) by (cases buf) auto
  have last: "error_report (- 1) [(fd, net (''E '' @ x))]" "last_report [(fd, net (''E '' @ x))]"
    unfolding error_report_def last_report_def by blast+
  consider "sendMessage fd (At Errmsg 0) buf s = Some Undef"
    | v t where "sendMessage fd (At Errmsg 0) buf s = Some (Value v t)" "sized t" "sent t = sent s @ [(fd, net (''E '' @ x))]"
    | t where "sendMessage fd (At Errmsg 0) buf s = Some (Killed t)" "sized t" "sent t = sent s @ [(fd, net (''E '' @ x))]"
    using sendMessage_sends [OF assms(1) x other] by blast
  then show ?thesis
  proof cases
    case (2 v t)
    then show ?thesis using last
      by (auto simp: behaves_def ended_def and_then_run get_string_def and_then_def printf_def exit_with_def sized_def
          split: if_splits)
  qed (use last in \<open>auto simp: behaves_def ended_def and_then_run\<close>)
qed

lemma silent_checkMessage [silent_intros]:
  assumes "\<not> in_block Errmsg actual"
  shows "silent (checkMessage fd expected actual)"
proof -
  let ?pieces = "[Lit (''expected: '' @ [CHR 0x22]), expected,
    Lit ([CHR 0x22] @ '' but received: '' @ [CHR 0x22]), actual, Lit [CHR 0x22]]"
  have "behaves (steps (zero_array Errmsg # strcpy (At Errmsg 0) (Lit ''E '') # map (strcat (At Errmsg 0)) ?pieces))
      s {[]} report_at" if s: "sized s" for s
    unfolding steps.simps(2)
  proof (rule behaves_quiet [OF silentD [OF silent_basic(9) s]])
    fix t assume t: "sized t"
    have "behaves (strcpy (At Errmsg 0) (Lit ''E '')) t {[]} report_at"
      using strcpy_str(1) [of Errmsg 0 "Lit ''E ''" t _ "''E ''"]
      by (intro behaves_post silent_strings t) (auto simp: report_at_def intro!: exI [of _ "[]"])
    then show "behaves (and_then (strcpy (At Errmsg 0) (Lit ''E '')) (\<lambda>_. steps (map (strcat (At Errmsg 0)) ?pieces)))
        t {[]} report_at"
      by (rule behaves_quiet [OF _ strcats_report]) simp_all
  qed simp
  then have report: "silent (and_then (steps (zero_array Errmsg # strcpy (At Errmsg 0) (Lit ''E '') # map (strcat (At Errmsg 0)) ?pieces))
      (\<lambda>_. and_then (sendMessage fd (At Errmsg 0) actual) (\<lambda>_.
       and_then (get_string (At Errmsg 2)) (\<lambda>t.
       and_then (printf (''Error: '' @ t)) (\<lambda>_. exit_with (- 1 :: int) :: int prog)))))"
    unfolding silent_def by (intro allI impI behaves_quiet [OF _ report_then_exit]) (simp_all add: assms)
  show ?thesis
    unfolding checkMessage_def by (rule report [unfolded list.map] silent_intros)+
qed

section \<open>Receiving\<close>

lemma silent_copy_net [silent_intros]:
  "\<not> in_block Errmsg src \<Longrightarrow> silent (copy_net dest n src fd l digits strLength)"
  unfolding copy_net_def by (intro silent_intros)

lemma silent_take_net [silent_intros]:
  "\<not> in_block Errmsg src \<Longrightarrow> silent (take_net dest n src fd l digits strLength)"
  unfolding take_net_def by (intro silent_intros)

lemma silent_readNet [silent_intros]:
  "\<not> in_block Errmsg src \<Longrightarrow> silent (readNet dest n src fd l)"
  unfolding readNet_def by (intro silent_intros)

lemma silent_recv_loop [silent_intros]: "silent (recv_loop fd d l k)"
  unfolding silent_runs
proof (intro allI)
  fix s r
  show "recv_loop fd d l k s = Some r \<longrightarrow> sized s \<longrightarrow> behaves (\<lambda>_. Some r) s {[]} (\<lambda>_ _. True)"
  proof (rule impI, erule recv_loop.raw_induct [rotated])
    fix loop fd d l k s r
    assume IH: "\<And>fd d l k s r. loop fd d l k s = Some r \<Longrightarrow> sized s \<longrightarrow> behaves (\<lambda>_. Some r) s {[]} (\<lambda>_ _. True)"
      and body: "and_then (get_char (At Netbuf 0)) (\<lambda>c. if c \<noteq> NUL then
        and_then (readNet (At Netbuf 0) BUFSIZE (At Netbuf 0) fd l) (\<lambda>rest.
        and_then (strcpy (ptr_add d l) (At Netbuf 0)) (\<lambda>_.
        and_then (strlen (At Netbuf 0)) (\<lambda>n.
        and_then (strcpy (ptr_add d (l + n + 1)) (At Netbuf 0)) (\<lambda>_.
        and_then (strcpy (At Netbuf 0) rest) (\<lambda>_ s. loop fd d (l + n + 1) (Suc k) s)))))
      else done_with (int k)) s = Some r"
    have "silent (\<lambda>s. loop fd d l k s)" for fd d l k
      using IH by (simp add: silent_runs)
    then have "silent (and_then (get_char (At Netbuf 0)) (\<lambda>c. if c \<noteq> NUL then
        and_then (readNet (At Netbuf 0) BUFSIZE (At Netbuf 0) fd l) (\<lambda>rest.
        and_then (strcpy (ptr_add d l) (At Netbuf 0)) (\<lambda>_.
        and_then (strlen (At Netbuf 0)) (\<lambda>n.
        and_then (strcpy (ptr_add d (l + n + 1)) (At Netbuf 0)) (\<lambda>_.
        and_then (strcpy (At Netbuf 0) rest) (\<lambda>_ s. loop fd d (l + n + 1) (Suc k) s)))))
      else done_with (int k)))"
      by (intro silent_intros) simp
    then show "sized s \<longrightarrow> behaves (\<lambda>_. Some r) s {[]} (\<lambda>_ _. True)"
      using body by (simp add: silent_runs)
  qed
qed

lemma silent_recvMessage [silent_intros]: "silent (recvMessage fd d)"
  unfolding recvMessage_def by (intro silent_intros)

section \<open>The steps of the protocol\<close>

text \<open>The steps pass on a position in \<open>recvbuf\<close>.\<close>

definition at_net :: "nets \<Rightarrow> client \<Rightarrow> bool" where
  "at_net st _ \<longleftrightarrow> in_block Recvbuf (snd st)"

lemma at_net_other: "at_net st s \<Longrightarrow> \<not> in_block Errmsg (snd st)"
  by (cases "snd st") (auto simp: at_net_def)

lemma behaves_next_net: "sized s \<Longrightarrow> at_net st u \<Longrightarrow> behaves (next_net st) s {[]} at_net"
proof (rule behaves_post)
  show "silent (next_net st)"
    unfolding next_net_def updateNets_def by (intro silent_intros)
  show "next_net st s = Some (Value x s') \<Longrightarrow> at_net x s'" if "at_net st u" for x s'
    using that
    by (cases "snd st") (auto simp: next_net_def updateNets_def at_net_def and_then_def done_with_def strlen_def
        split: prod.splits run.splits if_splits bind_splits)
qed

lemma behaves_expect: "sized s \<Longrightarrow> at_net st u \<Longrightarrow> behaves (expect fd e st) s {[]} at_net"
  using at_net_other [of st u] unfolding expect_def
  by (cases st) (auto intro!: behaves_quiet [OF silentD [OF silent_checkMessage]] behaves_next_net)

lemma behaves_more_nets: "sized s \<Longrightarrow> at_net st u \<Longrightarrow> behaves (more_nets fd st) s {[]} at_net"
  unfolding more_nets_def
  by (cases st) (auto simp: at_net_def intro!: behaves_quiet [OF silentD [OF silent_recvMessage]] behaves_done)

lemma silent_not_prefixed [silent_intros]: "silent (not_prefixed c p)"
  unfolding not_prefixed_def by (intro silent_intros)

lemma behaves_take_token: "sized s \<Longrightarrow> at_net st u \<Longrightarrow> behaves (take_token fd c e src st) s {[]} at_net"
  using at_net_other [of st u] unfolding take_token_def
  by (cases st) (auto intro!: behaves_quiet [OF silentD [OF silent_not_prefixed]] behaves_quiet [OF silentD [OF silent_checkMessage]]
      behaves_quiet [OF silentD [OF silent_strings(3)]] behaves_quiet [OF behaves_done] behaves_next_net)

text \<open>The message that is put together in \<open>text\<close>; \<open>c_string\<close> is what a C string holds.\<close>

definition c_string :: "string \<Rightarrow> string" where
  "c_string t = takeWhile (\<lambda>c. c \<noteq> NUL) t"

lemma c_string_free [simp]: "NUL \<notin> set t \<Longrightarrow> c_string t = t"
  by (auto simp: c_string_def takeWhile_eq_all_conv)

lemma str_at_Lit_iff: "str_at (Lit t) u s \<longleftrightarrow> u = c_string t"
proof
  assume "str_at (Lit t) u s"
  then obtain rest where u: "NUL \<notin> set u" "t @ [NUL] = u @ NUL # rest" by (auto simp: str_at_def)
  have "takeWhile (\<lambda>c. c \<noteq> NUL) (t @ [NUL]) = c_string t"
    unfolding c_string_def by (induction t) auto
  then show "u = c_string t" using takeWhile_str [OF u(1)] u(2) by simp
next
  assume u: "u = c_string t"
  have "\<exists>rest. t @ [NUL] = c_string t @ NUL # rest"
    unfolding c_string_def by (induction t) auto
  then show "str_at (Lit t) u s"
    unfolding u c_string_def by (auto simp: str_at_def dest: set_takeWhileD)
qed

definition text_is :: "(string \<Rightarrow> bool) \<Rightarrow> unit \<Rightarrow> client \<Rightarrow> bool" where
  "text_is P _ s \<longleftrightarrow> (\<exists>t. P t \<and> str_at (At Text 0) t s)"

lemma strcpy_to_text:
  "NUL \<notin> set t \<Longrightarrow> sized s \<Longrightarrow> behaves (strcpy (At Text 0) (Lit t)) s {[]} (text_is (\<lambda>u. u = t))"
  using strcpy_str(1) [of Text 0 "Lit t" s _ t]
  by (intro behaves_post silent_strings) (auto simp: text_is_def)

lemma strcat_to_text:
  assumes "sized s" and "text_is (\<lambda>u. u = t) x s" and "\<And>u. str_at p u s \<Longrightarrow> P u"
  shows "behaves (strcat (At Text 0) p) s {[]} (text_is (\<lambda>w. \<exists>u. w = t @ u \<and> P u))"
proof (rule behaves_post [OF silent_strings(4) assms(1)])
  fix y s'
  assume "strcat (At Text 0) p s = Some (Value y s')"
  then have run: "strcat (At Text 0) p s = Some (Value () s')" by simp
  obtain u where u: "str_at p u s" using strcat_found [OF run] by blast
  have "str_at (At Text 0) t s" using assms(2) by (simp add: text_is_def)
  from strcat_str(1) [OF run this u] show "text_is (\<lambda>w. \<exists>u. w = t @ u \<and> P u) y s'"
    using assms(3) [OF u] by (auto simp: text_is_def)
qed

lemma text_done: "sized s \<Longrightarrow> text_is P x s \<Longrightarrow> behaves (done_with ()) s {[]} (text_is P)"
  by (simp add: behaves_done text_is_def)

lemma behaves_set_text:
  assumes "sized s" and "NUL \<notin> set pre" and "\<And>s u. str_at p u s \<Longrightarrow> P u"
  shows "behaves (set_text pre p) s {[]} (text_is (\<lambda>w. \<exists>u. w = pre @ u \<and> P u))"
  unfolding set_text_def steps.simps
  by (rule behaves_quiet [OF strcpy_to_text], rule assms, rule assms, rule behaves_quiet [OF strcat_to_text [where P = P]])
    (auto intro: text_done assms(3))

lemma behaves_send:
  assumes "sized s" and "str_at m t s" and "\<not> in_block Sendbuf m"
  shows "behaves (send fd m) s {[(nat fd, net t)]} (\<lambda>_ _. True)"
proof -
  have "last_report []" by (simp add: last_report_def)
  then show ?thesis
    using sendMessage_sends [OF assms(1,2), of "At Sendbuf 0" "nat fd"] assms(3)
    by (auto simp: send_def behaves_def ended_def and_then_run done_with_def intro!: exI [of _ 1])
qed

lemma behaves_send_text:
  assumes "sized s" and "text_is P x s"
  shows "behaves (send fd (At Text 0)) s {[(nat fd, net t)] | t. P t} (\<lambda>_ _. True)"
proof -
  obtain t where t: "P t" "str_at (At Text 0) t s" using assms(2) by (auto simp: text_is_def)
  show ?thesis
    by (rule behaves_weaken [OF behaves_send [OF assms(1) t(2)]]) (use t(1) in auto)
qed

section \<open>The phases\<close>

text \<open>One message of the protocol: on \<open>fd\<close>, a netstring that is one of \<open>P\<close>.\<close>

abbreviation one_message :: "int \<Rightarrow> (string \<Rightarrow> bool) \<Rightarrow> (nat \<times> string) list set" where
  "one_message fd P \<equiv> {[(nat fd, net t)] | t. P t}"

lemma send_then:
  "sized s \<Longrightarrow> text_is P u s \<Longrightarrow> (\<And>t. sized t \<Longrightarrow> behaves m t M Q) \<Longrightarrow> M \<noteq> {} \<Longrightarrow>
    behaves (and_then (send fd (At Text 0)) (\<lambda>_. m)) s (after_all (one_message fd P) M) Q"
  by (rule behaves_seq [OF behaves_send_text]) auto

lemma after_all_last [simp]: "after_all L {[]} = L"
  by (auto simp: after_all_def)

lemma send_last:
  "sized s \<Longrightarrow> text_is P u s \<Longrightarrow> (\<And>t. sized t \<Longrightarrow> behaves m t {[]} Q) \<Longrightarrow>
    behaves (and_then (send fd (At Text 0)) (\<lambda>_. m)) s (one_message fd P) Q"
  using send_then [of s P u m "{[]}" Q fd] by simp

lemma behaves_hello:
  assumes "sized s"
  shows "behaves (hello_phase fd) s (one_message fd (\<lambda>t. t = ''C GRNVS V:1.0'')) at_net"
proof -
  have "str_at (Lit ''C GRNVS V:1.0'') ''C GRNVS V:1.0'' s" by (simp add: str_at_Lit_iff)
  then have "behaves (hello_phase fd) s (after_all {[(nat fd, net ''C GRNVS V:1.0'')]} {[]}) at_net"
    unfolding hello_phase_def using assms
    by (intro behaves_seq [OF behaves_send] behaves_quiet [OF silentD [OF silent_recvMessage]] behaves_expect [where u = s])
      (auto simp: at_net_def)
  then show ?thesis by (rule behaves_weaken) (auto simp: after_all_def)
qed

text \<open>A message is put together and sent.\<close>

lemma behaves_text_send:
  assumes "sized s" and "NUL \<notin> set pre" and "\<And>s u. str_at p u s \<Longrightarrow> P u" and "P v"
    and m: "\<And>t. sized t \<Longrightarrow> behaves m t M Q" and "M \<noteq> {}"
  shows "behaves (and_then (set_text pre p) (\<lambda>_. and_then (send fd (At Text 0)) (\<lambda>_. m))) s
    (after_all (one_message fd (\<lambda>w. \<exists>u. w = pre @ u \<and> P u)) M) Q"
proof (rule behaves_quiet [OF behaves_set_text [OF assms(1,2), where P = P]])
  show "after_all (one_message fd (\<lambda>w. \<exists>u. w = pre @ u \<and> P u)) M \<noteq> {}"
    using assms(4,6) by (auto simp: after_all_def)
next
  fix x t
  assume "sized t" "text_is (\<lambda>w. \<exists>u. w = pre @ u \<and> P u) x t"
  then show "behaves (and_then (send fd (At Text 0)) (\<lambda>_. m)) t (after_all (one_message fd (\<lambda>w. \<exists>u. w = pre @ u \<and> P u)) M) Q"
    by (rule send_then [OF _ _ m assms(6)])
qed (rule assms(3))

lemma behaves_register:
  assumes "sized s" and "at_net st u"
  shows "behaves (register_phase fd nick st) s (one_message fd (\<lambda>t. t = ''C '' @ c_string nick)) at_net"
proof -
  have "behaves (register_phase fd nick st) s
      (after_all (one_message fd (\<lambda>w. \<exists>u. w = ''C '' @ u \<and> u = c_string nick)) {[]}) at_net"
    unfolding register_phase_def
  proof (rule behaves_text_send)
    fix t
    assume "sized t"
    then show "behaves (and_then (more_nets fd st) (\<lambda>(n, cur). take_token fd CHR ''S'' ''S <token>'' cur (n, cur))) t {[]} at_net"
      using assms(2) by (intro behaves_quiet [OF behaves_more_nets]) (auto intro: behaves_take_token)
  qed (use assms(1) in \<open>auto simp: str_at_Lit_iff\<close>)
  then show ?thesis by (rule behaves_weaken) auto
qed

lemma behaves_listen:
  assumes "sized s"
  shows "behaves (listen_phase os fd) s {[]} (\<lambda>(sdL, p) _. p = (case os_sockname os of None \<Rightarrow> 0 | Some p \<Rightarrow> p))"
proof (rule behaves_post [OF _ assms])
  show "silent (listen_phase os fd)"
    unfolding listen_phase_def Let_def by (intro silent_intros)
qed (auto simp: listen_phase_def Let_def and_then_def close_fd_def configure_def exit_with_def done_with_def split: if_splits)

lemma behaves_accept:
  assumes "sized s"
  shows "behaves (accept_phase os fd sdL port) s (one_message fd (\<lambda>t. t = ''C '' @ dec (unat port))) (\<lambda>d _. d = os_accept os)"
proof -
  let ?digits = "\<lambda>s. text_is (\<lambda>u. u = ''C '') () s \<and> str_at (At Sendbuf 0) (dec (unat port)) s"
  have port: "behaves (put (At Sendbuf 0) (dec (unat port) @ [NUL])) t {[]} (\<lambda>_. ?digits)"
    if "sized t" "text_is (\<lambda>u. u = ''C '') x t" for t x
    using that by (intro behaves_post silent_put)
      (auto simp: put_def text_is_def str_at_def NUL_not_dec split: if_splits)
  let ?accept = "let sdD = os_accept os in
      if sdD < 0 then and_then (close_fd fd) (\<lambda>_. and_then (close_fd sdL) (\<lambda>_. exit_with 1))
      else and_then (configure os sdD 2) (\<lambda>_. done_with sdD)"
  have "silent ?accept"
    unfolding Let_def by (intro silent_intros)
  then have accept: "behaves ?accept s {[]} (\<lambda>d _. d = os_accept os)" if "sized s" for s
    by (rule behaves_post [OF _ that])
      (auto simp: Let_def and_then_def close_fd_def configure_def exit_with_def done_with_def split: if_splits)
  show ?thesis
    unfolding accept_phase_def
  proof (rule behaves_quiet [OF strcpy_to_text], simp, rule assms, rule behaves_quiet [OF port], assumption+, goal_cases)
    case (1 x t y u)
    then have "behaves (strcat (At Text 0) (At Sendbuf 0)) u {[]} (text_is (\<lambda>w. \<exists>v. w = ''C '' @ v \<and> v = dec (unat port)))"
      using str_at_unique by (intro strcat_to_text [where x = "()"]) auto
    then show ?case
    proof (rule behaves_quiet)
      fix z v
      assume "sized v" "text_is (\<lambda>w. \<exists>v. w = ''C '' @ v \<and> v = dec (unat port)) z v"
      then have "text_is (\<lambda>w. w = ''C '' @ dec (unat port)) z v" by simp
      from send_last [OF \<open>sized v\<close> this accept]
      show "behaves (and_then (send fd (At Text 0)) (\<lambda>_. ?accept)) v
        (one_message fd (\<lambda>t. t = ''C '' @ dec (unat port))) (\<lambda>d _. d = os_accept os)" .
    qed auto
  qed auto
qed

lemma behaves_data:
  assumes "sized s"
  shows "behaves (data_phase fd nick msg) s
    {[(nat fd, net (''D '' @ c_string nick)), (nat fd, net (''D '' @ c_string msg))]} at_net"
proof -
  let ?D = "\<lambda>x. one_message fd (\<lambda>w. \<exists>u. w = ''D '' @ u \<and> u = c_string x)"
  have start: "at_net (n, At Recvbuf 0) s" for n s by (simp add: at_net_def)
  have last: "behaves (and_then (more_nets fd st) (\<lambda>st. take_token fd CHR ''T'' ''T <dtoken>'' (At Recvbuf 0) st)) s {[]} at_net"
    if "sized s" "at_net st u" for s st u
    by (rule behaves_quiet [OF behaves_more_nets [OF that]]) (auto intro: behaves_take_token)
  have message: "behaves (and_then (set_text ''D '' (Lit msg)) (\<lambda>_. and_then (send fd (At Text 0)) (\<lambda>_.
      and_then (more_nets fd st) (\<lambda>st. take_token fd CHR ''T'' ''T <dtoken>'' (At Recvbuf 0) st)))) s
      (after_all (?D msg) {[]}) at_net" if "sized s" "at_net st u" for s st u
    by (rule behaves_text_send) (use that last in \<open>auto simp: str_at_Lit_iff\<close>)
  have token: "behaves (and_then (set_text ''T '' (At Token 0)) (\<lambda>_. and_then (expect fd (At Text 0) st) (\<lambda>st.
      and_then (set_text ''D '' (Lit msg)) (\<lambda>_. and_then (send fd (At Text 0)) (\<lambda>_.
      and_then (more_nets fd st) (\<lambda>st. take_token fd CHR ''T'' ''T <dtoken>'' (At Recvbuf 0) st)))))) s
      (after_all (?D msg) {[]}) at_net" if "sized s" "at_net st u" for s st u
    by (rule behaves_quiet [OF behaves_set_text [where P = "\<lambda>_. True"]], rule that, simp, simp,
        rule behaves_quiet [OF behaves_expect], assumption, rule that, rule message, assumption+)
      (auto simp: after_all_def)
  have "behaves (data_phase fd nick msg) s (after_all (?D nick) (after_all (?D msg) {[]})) at_net"
    unfolding data_phase_def
  proof (rule behaves_quiet [OF silentD [OF silent_recvMessage assms]],
      rule behaves_quiet [OF behaves_expect [OF _ start]], assumption, rule behaves_text_send)
    fix n t st u v
    assume *: "at_net st u" "sized v"
    show "behaves (and_then (more_nets fd st) (\<lambda>st. and_then (set_text ''T '' (At Token 0)) (\<lambda>_.
      and_then (expect fd (At Text 0) st) (\<lambda>st.
      and_then (set_text ''D '' (Lit msg)) (\<lambda>_. and_then (send fd (At Text 0)) (\<lambda>_.
      and_then (more_nets fd st) (\<lambda>st. take_token fd CHR ''T'' ''T <dtoken>'' (At Recvbuf 0) st))))))) v
      (after_all (?D msg) {[]}) at_net"
      by (rule behaves_quiet [OF behaves_more_nets [OF *(2,1)]], rule token, assumption+) (auto simp: after_all_def)
  qed (auto simp: str_at_Lit_iff after_all_def)
  then show ?thesis by (rule behaves_weaken) (auto simp: after_all_def)
qed

lemma behaves_finish:
  assumes "sized s" and "at_net st u"
  shows "behaves (finish_phase fd msg st) s (one_message fd (\<lambda>w. \<exists>t. w = ''C '' @ t)) at_net"
proof -
  let ?C = "one_message fd (\<lambda>w. \<exists>t. w = ''C '' @ t \<and> True)"
  have ack: "behaves (and_then (more_nets fd st) (\<lambda>st. and_then (strcpy (At Text 0) (Lit ''S ACK'')) (\<lambda>_.
      expect fd (At Text 0) st))) s {[]} at_net" if "sized s" "at_net st u" for s st u
    by (rule behaves_quiet [OF behaves_more_nets [OF that]], rule behaves_quiet [OF silentD [OF silent_strings(3)]])
      (auto intro: behaves_expect)
  have token: "behaves (and_then (set_text ''C '' (At Token 0)) (\<lambda>_. and_then (send fd (At Text 0)) (\<lambda>_.
      and_then (more_nets fd st) (\<lambda>st. and_then (strcpy (At Text 0) (Lit ''S ACK'')) (\<lambda>_.
      expect fd (At Text 0) st))))) s (after_all ?C {[]}) at_net" if "sized s" "at_net st u" for s st u
    by (rule behaves_text_send [where P = "\<lambda>_. True"]) (use that ack in auto)
  have "behaves (finish_phase fd msg st) s (after_all ?C {[]}) at_net"
    unfolding finish_phase_def
    by (rule behaves_quiet [OF behaves_more_nets [OF assms]], rule behaves_quiet [OF silentD [OF silent_strings(3)]],
        assumption, rule behaves_quiet [OF silentD [OF silent_put]], assumption,
        rule behaves_quiet [OF behaves_expect], assumption+, rule token, assumption+)
      auto
  then show ?thesis by (rule behaves_weaken) auto
qed

section \<open>The program\<close>

text \<open>
  All messages of a run, on the control connection \<open>fd\<close> and the data connection \<open>fd'\<close>; the data
  token is what the server wants.
\<close>

definition protocol :: "os_client \<Rightarrow> string \<Rightarrow> string \<Rightarrow> string \<Rightarrow> (nat \<times> string) list" where
  "protocol os nick msg dtok = (let control = nat (os_control os); data = nat (os_accept os) in
     [(control, net ''C GRNVS V:1.0''), (control, net (''C '' @ c_string nick)),
      (control, net (''C '' @ dec (unat (case os_sockname os of None \<Rightarrow> 0 | Some p \<Rightarrow> p)))),
      (data, net (''D '' @ c_string nick)), (data, net (''D '' @ c_string msg)), (control, net (''C '' @ dtok))])"

lemma zero_arrays_sized:
  "sized s \<Longrightarrow> behaves (steps [zero_array Recvbuf, zero_array Sendbuf, zero_array Token, zero_array Text]) s {[]} (\<lambda>_ _. True)"
  unfolding steps.simps by (rule silentD) (intro silent_intros)

lemma behaves_finished:
  assumes "sized s" and "at_net st u"
  shows "behaves (and_then (close_fd a) (\<lambda>_. and_then (close_fd b) (\<lambda>_.
    and_then (finish_phase fd msg st) (\<lambda>_. close_fd fd)))) s (one_message fd (\<lambda>w. \<exists>t. w = ''C '' @ t)) (\<lambda>_ _. True)"
proof -
  have "behaves (and_then (finish_phase fd msg st) (\<lambda>_. close_fd fd)) s
      (after_all (one_message fd (\<lambda>w. \<exists>t. w = ''C '' @ t)) {[]}) (\<lambda>_ _. True)" if "sized s" for s
    by (rule behaves_seq [OF behaves_finish [OF that assms(2)] silentD]) (auto intro: silent_intros)
  then have close: "behaves (and_then (finish_phase fd msg st) (\<lambda>_. close_fd fd)) s
      (one_message fd (\<lambda>w. \<exists>t. w = ''C '' @ t)) (\<lambda>_ _. True)" if "sized s" for s
    using that by simp
  show ?thesis
    by (rule behaves_quiet [OF silentD [OF silent_basic(8) assms(1)]],
        rule behaves_quiet [OF silentD [OF silent_basic(8)]], assumption, rule close) auto
qed

text \<open>The program from each of its phases on, and the messages that may follow.\<close>

abbreviation from_data :: "int \<Rightarrow> string \<Rightarrow> string \<Rightarrow> int \<Rightarrow> int \<Rightarrow> unit prog" where
  "from_data sdC nick msg sdL sdD \<equiv> and_then (data_phase sdD nick msg) (\<lambda>st.
     and_then (close_fd sdL) (\<lambda>_. and_then (close_fd sdD) (\<lambda>_. and_then (finish_phase sdC msg st) (\<lambda>_. close_fd sdC))))"

abbreviation from_listen :: "os_client \<Rightarrow> string \<Rightarrow> string \<Rightarrow> unit prog" where
  "from_listen os nick msg \<equiv> and_then (listen_phase os (os_control os)) (\<lambda>(sdL, port).
     and_then (accept_phase os (os_control os) sdL port) (from_data (os_control os) nick msg sdL))"

abbreviation from_hello :: "os_client \<Rightarrow> string \<Rightarrow> string \<Rightarrow> unit prog" where
  "from_hello os nick msg \<equiv> and_then (hello_phase (os_control os)) (\<lambda>st.
     and_then (register_phase (os_control os) nick st) (\<lambda>st. from_listen os nick msg))"

abbreviation data_messages :: "os_client \<Rightarrow> string \<Rightarrow> string \<Rightarrow> (nat \<times> string) list set" where
  "data_messages os nick msg \<equiv> after_all
     {[(nat (os_accept os), net (''D '' @ c_string nick)), (nat (os_accept os), net (''D '' @ c_string msg))]}
     (one_message (os_control os) (\<lambda>w. \<exists>t. w = ''C '' @ t))"

abbreviation accept_messages :: "os_client \<Rightarrow> string \<Rightarrow> string \<Rightarrow> (nat \<times> string) list set" where
  "accept_messages os nick msg \<equiv> after_all (one_message (os_control os)
     (\<lambda>t. t = ''C '' @ dec (unat (case os_sockname os of None \<Rightarrow> 0 | Some p \<Rightarrow> p)))) (data_messages os nick msg)"

abbreviation register_messages :: "os_client \<Rightarrow> string \<Rightarrow> string \<Rightarrow> (nat \<times> string) list set" where
  "register_messages os nick msg \<equiv>
     after_all (one_message (os_control os) (\<lambda>t. t = ''C '' @ c_string nick)) (accept_messages os nick msg)"

lemma messages_nonempty: "data_messages os nick msg \<noteq> {}" "accept_messages os nick msg \<noteq> {}"
    "register_messages os nick msg \<noteq> {}"
  by (auto simp: after_all_def)

lemma behaves_from_data:
  assumes "sized s"
  shows "behaves (from_data (os_control os) nick msg sdL (os_accept os)) s (data_messages os nick msg) (\<lambda>_ _. True)"
  by (rule behaves_seq [OF behaves_data [OF assms]], rule behaves_finished, assumption+) auto

lemma behaves_from_listen:
  assumes "sized s"
  shows "behaves (from_listen os nick msg) s (accept_messages os nick msg) (\<lambda>_ _. True)"
proof -
  have "behaves (and_then (accept_phase os (os_control os) sdL (case os_sockname os of None \<Rightarrow> 0 | Some p \<Rightarrow> p))
      (from_data (os_control os) nick msg sdL)) s (accept_messages os nick msg) (\<lambda>_ _. True)" if "sized s" for s sdL
    by (rule behaves_seq [OF behaves_accept [OF that]], hypsubst, erule behaves_from_data, rule messages_nonempty)
  then show ?thesis
    by (intro behaves_quiet [OF behaves_listen [OF assms]]) (simp_all only: split_beta messages_nonempty not_False_eq_True)
qed

lemma behaves_from_hello:
  assumes "sized s"
  shows "behaves (from_hello os nick msg) s {protocol os nick msg dtok | dtok. True} (\<lambda>_ _. True)"
proof -
  let ?hello = "after_all (one_message (os_control os) (\<lambda>t. t = ''C GRNVS V:1.0'')) (register_messages os nick msg)"
  have register: "behaves (and_then (register_phase (os_control os) nick st) (\<lambda>st. from_listen os nick msg)) t
      (register_messages os nick msg) (\<lambda>_ _. True)" if "sized t" "at_net st t" for st t
    by (rule behaves_seq [OF behaves_register [OF that]], rule behaves_from_listen, assumption, rule messages_nonempty)
  have "behaves (from_hello os nick msg) s ?hello (\<lambda>_ _. True)"
    by (rule behaves_seq [OF behaves_hello [OF assms]], rule register, assumption+, rule messages_nonempty)
  moreover have "?hello = {protocol os nick msg dtok | dtok. True}"
    by (auto simp: protocol_def Let_def after_all_def) blast
  ultimately show ?thesis by simp
qed

lemma behaves_assignment4:
  assumes "sized s" and "0 \<le> fst (parse_ip os ipaddr)"
  shows "behaves (assignment4 os ipaddr port nick msg) s {protocol os nick msg dtok | dtok. True} (\<lambda>_ _. True)"
proof -
  let ?C = "os_control os"
  have exits: "behaves (exit_with 1) t {protocol os nick msg dtok | dtok. True} (\<lambda>_ _. True)"
    "behaves (and_then (close_fd ?C) (\<lambda>_. exit_with 1)) t {protocol os nick msg dtok | dtok. True} (\<lambda>_ _. True)"
    if "sized t" for t
    by (rule behaves_no_value [OF silentD [OF _ that]], intro silent_intros,
        simp add: exit_with_def and_then_def close_fd_def, blast)+
  have connected: "behaves (if 0 > ?C then exit_with 1
     else if \<not> os_connect os (snd (parse_ip os ipaddr)) port then and_then (close_fd ?C) (\<lambda>_. exit_with 1)
     else from_hello os nick msg) t {protocol os nick msg dtok | dtok. True} (\<lambda>_ _. True)" if "sized t" for t
    using behaves_from_hello [OF that] exits [OF that] by (simp only: split: if_split) blast
  obtain r a where ip: "parse_ip os ipaddr = (r, a)" by fastforce
  show ?thesis
    using assms(2) unfolding assignment4_def ip Let_def prod.case
    by (simp only: fst_conv not_less [symmetric] if_False)
      (rule behaves_quiet [OF zero_arrays_sized [OF assms(1)]], rule connected [unfolded ip snd_conv], assumption, auto)
qed

section \<open>Properties\<close>

text \<open>
  C2. What the client can say, whatever the server and the system do. If the address is valid, a
  run of \<open>assignment4\<close> that returns has handed to \<open>write\<close> exactly the messages of the protocol, in order and on
  the right connections, for its nick, its message, the port of its listening socket and some
  data token. A run that ends the program has handed over a part of them from the start on: with status 1
  (a failed system call) nothing else, with status - 1 exactly one netstring more, a report that
  starts with E; if it is killed by the signal of a broken connection, possibly such a report. What the
  system does with each write (takes it, takes a part, refuses it) makes no difference. Nothing is said of a run that never ends or that leaves what C defines
  (the bounds of an array, or an overlapping copy beyond what the library can move).
\<close>

theorem assignment4_sends:
  assumes "sized s" and "0 \<le> fst (parse_ip os ipaddr)" and "assignment4 os ipaddr port nick msg s = Some r"
  shows "case r of
      Value x s' \<Rightarrow> \<exists>dtok. sent s' = sent s @ protocol os nick msg dtok
    | Exited c s' \<Rightarrow> \<exists>dtok k e. sent s' = sent s @ take k (protocol os nick msg dtok) @ e \<and> error_report c e
    | Killed s' \<Rightarrow> \<exists>dtok k e. sent s' = sent s @ take k (protocol os nick msg dtok) @ e \<and> last_report e
    | Undef \<Rightarrow> True"
  using behavesD [OF behaves_assignment4 [OF assms(1,2)] assms(3)]
  by (cases r) (auto simp: ended_def)

lemma sized_fresh: "sized (fresh_client server)"
  by (simp add: sized_def fresh_client_def)

theorem assignment4_sends_witness:
  "\<exists>r. assignment4 (example_client_os\<lparr>os_connect := \<lambda>_ _. False\<rparr>) ''::1'' 1337 ''joe'' ''hi'' (fresh_client example_server) = Some r \<and>
    (\<exists>s'. r = Exited 1 s' \<and> (\<exists>dtok k e. sent s' =
      take k (protocol (example_client_os\<lparr>os_connect := \<lambda>_ _. False\<rparr>) ''joe'' ''hi'' dtok) @ e \<and> error_report 1 e))"
proof -
  let ?os = "example_client_os\<lparr>os_connect := \<lambda>_ _. False\<rparr>"
  obtain s' where run: "assignment4 ?os ''::1'' 1337 ''joe'' ''hi'' (fresh_client example_server) = Some (Exited 1 s')"
    by (simp add: assignment4_def parse_ip_def example_client_os_def and_then_def zero_array_def close_fd_def
        exit_with_def done_with_def)
  have ip: "0 \<le> fst (parse_ip ?os ''::1'')" by (simp add: parse_ip_def example_client_os_def)
  have "sent (fresh_client example_server) = []" by (simp add: fresh_client_def)
  with assignment4_sends [OF sized_fresh ip run] run show ?thesis by auto
qed

text \<open>The message a command line asks for: the front of a file that can be read, or else the argument of \<open>-m\<close>.\<close>

definition message_of :: "(string \<Rightarrow> string option option) \<Rightarrow> client_args \<Rightarrow> string option" where
  "message_of files a = (case arg_file a of
     Some f \<Rightarrow> (case files f of Some (Some c) \<Rightarrow> Some (takeWhile (\<lambda>c. c \<noteq> NUL) (take 4095 c)) | _ \<Rightarrow> None)
   | None \<Rightarrow> arg_msg a)"

lemma message_of_words [simp]: "message_of files (a\<lparr>arg_nick := n, arg_dst := d\<rparr>) = message_of files a"
  by (simp add: message_of_def split: option.split)

lemma main_client_message:
  assumes "parse_args_client argv = Parsed args" and "arg_file args \<noteq> None \<or> arg_msg args \<noteq> None"
  shows "main_client argv files os = (case message_of files args of
      None \<Rightarrow> done_with (- 1)
    | Some msg \<Rightarrow> and_then (assignment4 os (the (arg_dst args)) (word_of_int (arg_port args)) (the (arg_nick args)) msg)
        (\<lambda>_. done_with 0))"
  using assms by (auto simp: main_client_def message_of_def Let_def split: option.splits)

lemma assignment4_bad_address:
  "fst (os_pton os dst) \<le> 0 \<Longrightarrow> assignment4 os dst port nick msg s = Some (Value () s)"
  by (simp add: assignment4_def parse_ip_def done_with_def)

text \<open>
  C16. What the whole program sends, from the words of its command line on. With two words (the nick and
  the destination), options in any spelling and order, and a message (from \<open>-m\<close>, or the front of a
  readable file, which wins), every run of \<open>main\<close> that ends and stays defined is one of these: it returns 0 and has
  handed to \<open>write\<close> exactly the messages of the protocol, in order and on the right connections, with this
  nick and this message; it ends with status 1 and has handed over a part of them from the start on; it ends
  with status - 1 and the part is followed by exactly one report that starts with E; or it is killed by the signal
  of a broken connection. If the destination is no IPv6 address, main returns 0, and without a message - 1, with
  nothing sent and nothing changed; the same - 1 for less than two words, and status 64 for more.
\<close>

theorem main_client_sends:
  assumes "\<forall>x \<in> set xs. item_ok options_client x" and "\<forall>e \<in> set (given_options options_client xs). port_ok e"
    and "a = fold store_client (given_options options_client xs) client_defaults" and "sized s"
  shows "case given_words xs of
      [nick, dst] \<Rightarrow> (case message_of files a of
          None \<Rightarrow> main_client (prog # command_words xs) files os s = Some (Value (- 1) s)
        | Some msg \<Rightarrow>
            if fst (os_pton os dst) \<le> 0 then main_client (prog # command_words xs) files os s = Some (Value 0 s)
            else \<forall>r. main_client (prog # command_words xs) files os s = Some r \<longrightarrow> (case r of
                Value x s' \<Rightarrow> x = 0 \<and> (\<exists>dtok. sent s' = sent s @ protocol os nick msg dtok)
              | Exited c s' \<Rightarrow> \<exists>dtok k e. sent s' = sent s @ take k (protocol os nick msg dtok) @ e \<and> error_report c e
              | Killed s' \<Rightarrow> \<exists>dtok k e. sent s' = sent s @ take k (protocol os nick msg dtok) @ e \<and> last_report e
              | Undef \<Rightarrow> True))
    | ws \<Rightarrow> main_client (prog # command_words xs) files os s =
        Some (if length ws < 2 then Value (- 1) s else Exited 64 s)"
proof -
  let ?main = "main_client (prog # command_words xs) files os"
  note parse = parse_args_client_items [OF assms(1-3), of prog]
  have words: "?main s = Some (if length (given_words xs) < 2 then Value (- 1) s else Exited 64 s)"
    if "\<And>nick dst. given_words xs \<noteq> [nick, dst]"
    using that parse by (auto simp: main_client_def done_with_def exit_with_def split: list.splits)
  have two: "case message_of files a of None \<Rightarrow> ?main s = Some (Value (- 1) s)
      | Some msg \<Rightarrow> if fst (os_pton os dst) \<le> 0 then ?main s = Some (Value 0 s)
          else \<forall>r. ?main s = Some r \<longrightarrow> (case r of
              Value x s' \<Rightarrow> x = 0 \<and> (\<exists>dtok. sent s' = sent s @ protocol os nick msg dtok)
            | Exited c s' \<Rightarrow> \<exists>dtok k e. sent s' = sent s @ take k (protocol os nick msg dtok) @ e \<and> error_report c e
            | Killed s' \<Rightarrow> \<exists>dtok k e. sent s' = sent s @ take k (protocol os nick msg dtok) @ e \<and> last_report e
            | Undef \<Rightarrow> True)"
    if given: "given_words xs = [nick, dst]" for nick dst
  proof (cases "message_of files a")
    case None
    then show ?thesis
      using parse given main_client_message [of "prog # command_words xs" "a\<lparr>arg_nick := Some nick, arg_dst := Some dst\<rparr>" files os]
      by (cases "arg_file a = None \<and> arg_msg a = None")
        (auto simp: message_of_def main_client_def done_with_def split: option.splits)
  next
    case (Some msg)
    then have "arg_file a \<noteq> None \<or> arg_msg a \<noteq> None" by (auto simp: message_of_def)
    then have main: "?main = and_then (assignment4 os dst (word_of_int (arg_port a)) nick msg) (\<lambda>_. done_with 0)"
      using parse given Some main_client_message [of "prog # command_words xs" "a\<lparr>arg_nick := Some nick, arg_dst := Some dst\<rparr>" files os]
      by simp
    have good: "behaves ?main s (after_all {protocol os nick msg dtok | dtok. True} {[]}) (\<lambda>x _. x = 0)"
      if "0 < fst (os_pton os dst)"
      unfolding main using that assms(4)
      by (intro behaves_seq [OF behaves_assignment4] behaves_done) (auto simp: parse_ip_def)
    have "case r of
        Value x s' \<Rightarrow> x = 0 \<and> (\<exists>dtok. sent s' = sent s @ protocol os nick msg dtok)
      | Exited c s' \<Rightarrow> \<exists>dtok k e. sent s' = sent s @ take k (protocol os nick msg dtok) @ e \<and> error_report c e
      | Killed s' \<Rightarrow> \<exists>dtok k e. sent s' = sent s @ take k (protocol os nick msg dtok) @ e \<and> last_report e
      | Undef \<Rightarrow> True" if "?main s = Some r" "0 < fst (os_pton os dst)" for r
      using behavesD [OF good [OF that(2)] that(1)] by (cases r) (auto simp: ended_def)
    then show ?thesis
      using Some assignment4_bad_address [of os dst] by (auto simp: main and_then_run done_with_run)
  qed
  show ?thesis
  proof (cases "\<exists>nick dst. given_words xs = [nick, dst]")
    case True
    then obtain nick dst where given: "given_words xs = [nick, dst]" by blast
    show ?thesis unfolding given list.case by (rule two [OF given])
  next
    case False
    then show ?thesis using words by (auto split: list.split)
  qed
qed

theorem main_client_sends_witness:
  "\<exists>s'. main_client [''asciiclient'', ''-mhi'', ''joe'', ''::1''] (\<lambda>_. None) (example_client_os\<lparr>os_connect := \<lambda>_ _. False\<rparr>)
      (fresh_client example_server) = Some (Exited 1 s') \<and>
    (\<exists>dtok k e. sent s' = take k (protocol example_client_os ''joe'' ''hi'' dtok) @ e \<and> error_report 1 e)"
proof -
  let ?os = "example_client_os\<lparr>os_connect := \<lambda>_ _. False\<rparr>" and ?xs = "[Short_joined CHR ''m'' ''hi'', Word ''joe'', Word ''::1'']"
  let ?s = "fresh_client example_server" and ?argv = "[''asciiclient'', ''-mhi'', ''joe'', ''::1'']"
  obtain s' where run: "main_client ?argv (\<lambda>_. None) ?os ?s = Some (Exited 1 s')"
    using parse_args_client_items [of ?xs]
    by (simp add: main_client_def client_defaults_def assignment4_def parse_ip_def close_fd_def
        example_client_os_def and_then_def zero_array_def exit_with_def done_with_def)
  have "\<forall>x \<in> set ?xs. item_ok options_client x" "\<forall>e \<in> set (given_options options_client ?xs). port_ok e" by simp_all
  from main_client_sends [OF this refl sized_fresh [of example_server], where files = "\<lambda>_. None" and prog = "''asciiclient''" and os = ?os] run
  have "\<exists>dtok k e. sent s' = sent ?s @ take k (protocol ?os ''joe'' ''hi'' dtok) @ e \<and> error_report 1 e"
    by (auto simp: message_of_def client_defaults_def example_client_os_def)
  then show ?thesis using run by (simp add: protocol_def fresh_client_def example_client_os_def)
qed

end
