(* ===== verification/Jni.thy ===== *)
theory Jni
  imports Raw Checksum Hexdump
begin

text \<open>
  The native methods of assignment 3, \<open>assignment3/deps/GRNVS_RAW.c\<close>: they copy Java arrays
  into arrays on the C stack of fixed size and call \<open>libraw\<close> (the copy in
  \<open>assignment3/deps/libraw\<close> is identical to the one modelled). A Java \<open>int\<close> is an
  \<^typ>\<open>int\<close> in the range of 32 bits, a Java byte array a list of bytes, the contents of
  an uninitialised stack array a parameter.
\<close>

section \<open>Array regions\<close>

text \<open>
  \<open>GetByteArrayRegion\<close> and \<open>SetByteArrayRegion\<close> copy \<open>len\<close> bytes from or to the offset
  \<open>off\<close> of a Java array; if the region is not inside the array they leave everything as it is
  and an exception pending (the second component). The buffer on the C side is not checked:
  writing past it is undefined.
\<close>

definition region_ok :: "u8 list \<Rightarrow> int \<Rightarrow> int \<Rightarrow> bool" where
  "region_ok a off len \<longleftrightarrow> 0 \<le> off \<and> 0 \<le> len \<and> off + len \<le> int (length a)"

definition get_region :: "u8 list \<Rightarrow> int \<Rightarrow> int \<Rightarrow> u8 list \<Rightarrow> (u8 list \<times> bool) outcome" where
  "get_region a off len buf =
     (if \<not> region_ok a off len then Return (buf, True)
      else if length buf < nat len then Undefined
      else Return (take (nat len) (drop (nat off) a) @ drop (nat len) buf, False))"

definition set_region :: "u8 list \<Rightarrow> int \<Rightarrow> int \<Rightarrow> u8 list option \<Rightarrow> (u8 list \<times> bool) outcome" where
  "set_region a off len src =
     (if \<not> region_ok a off len then Return (a, True)
      else case src of
        None \<Rightarrow> if len = 0 then Return (a, False) else Undefined
      | Some buf \<Rightarrow> if length buf < nat len then Undefined
          else Return (take (nat off) a @ take (nat len) buf @ drop (nat off + nat len) a, False))"

text \<open>A \<open>jint\<close> passed as a \<open>size_t\<close>.\<close>

definition size_of_int :: "int \<Rightarrow> nat" where
  "size_of_int i = nat (i mod 18446744073709551616)"

section \<open>The methods\<close>

definition java_getSocket :: "os_open \<Rightarrow> string \<Rightarrow> int \<Rightarrow> raw_state \<Rightarrow> (int \<times> bool \<times> raw_state) outcome" where
  "java_getSocket os dev level st =
     bind_outcome (grnvs_open os dev level st) (\<lambda>(sock, st). Return (sock, sock < 0, st))"

definition java_write ::
  "raw_state \<Rightarrow> u8 list \<Rightarrow> int \<Rightarrow> u8 list \<Rightarrow> int \<Rightarrow> write_result list \<Rightarrow> (int \<times> transmission list \<times> bool) outcome" where
  "java_write st stack fd buffer len answers =
     bind_outcome (get_region buffer 0 len stack) (\<lambda>(buf, exc).
     bind_outcome (grnvs_write st fd buf (size_of_int len) answers) (\<lambda>(n, txs).
     Return (n, txs, exc)))"

text \<open>\<open>hexdump_\<close>: the text printed on standard error and the new contents of the static string.\<close>

definition java_hexdump :: "string \<Rightarrow> u8 list \<Rightarrow> u8 list \<Rightarrow> int \<Rightarrow> (string \<times> bool) outcome" where
  "java_hexdump static_str stack buffer len =
     bind_outcome (get_region buffer 0 len stack) (\<lambda>(buf, exc).
     case hexdump static_str buf len of None \<Rightarrow> Undefined | Some out \<Rightarrow> Return (out, exc))"

record java_read_result =
  jr_len :: int
  jr_array :: "u8 list"
  jr_timeout :: "int option"
  jr_pending :: bool
  jr_rounds :: "read_round list"

text \<open>
  The timeout object is its \<open>int\<close>; \<open>None\<close> is \<open>null\<close>. \<open>grnvs_read\<close> works on it through a
  pointer to unsigned. \<open>methods\<close> says whether the object has the two methods; if not, the
  failed lookup leaves an exception pending. The code calls the two methods, which return \<open>int\<close> and \<open>void\<close>, with
  \<open>CallObjectMethod\<close>; the JNI does not promise that this works, but the usual Java machine hands the \<open>int\<close>
  through, and that is what is modelled.
\<close>

definition java_read ::
  "raw_state \<Rightarrow> bool \<Rightarrow> u8 list \<Rightarrow> int option \<Rightarrow> read_round list \<Rightarrow> java_read_result outcome" where
  "java_read st methods buffer time rounds =
     (if time \<noteq> None \<and> \<not> methods then
        Return \<lparr>jr_len = - 1, jr_array = buffer, jr_timeout = time, jr_pending = True, jr_rounds = rounds\<rparr>
      else let buf = replicate 1514 0; maxlen = (if 1514 < length buffer then 1514 else length buffer)
      in bind_outcome (grnvs_read st maxlen (map_option word_of_int time) rounds) (\<lambda>r.
         bind_outcome (set_region buffer 0 (ret r) (Some (data r @ drop (length (data r)) buf))) (\<lambda>(a, exc).
         Return \<lparr>jr_len = ret r, jr_array = a, jr_timeout = map_option sint (timeout_left r),
           jr_pending = exc, jr_rounds = rounds_left r\<rparr>)))"

definition java_close :: "raw_state \<Rightarrow> int \<Rightarrow> int \<times> raw_state" where
  "java_close st close_result = grnvs_close st close_result"

text \<open>The address getters return a new array, or \<open>None\<close> for \<open>null\<close>.\<close>

definition java_mac :: "raw_state \<Rightarrow> u8 list option outcome" where
  "java_mac st = (case grnvs_get_hwaddr st of
     None \<Rightarrow> Return None
   | Some m \<Rightarrow> bind_outcome (set_region (zeros 6) 0 6 (Some m)) (\<lambda>(a, _). Return (Some a)))"

definition java_ip :: "raw_state \<Rightarrow> u8 list option outcome" where
  "java_ip st = bind_outcome (set_region (zeros 4) 0 4 (Some (grnvs_get_ipaddr st))) (\<lambda>(a, _). Return (Some a))"

definition java_ip6 :: "raw_state \<Rightarrow> u8 list option outcome" where
  "java_ip6 st = bind_outcome (set_region (zeros 16) 0 16 (grnvs_get_ip6addr st)) (\<lambda>(a, _). Return (Some a))"

text \<open>
  \<open>checksum_\<close> on a machine of the byte order \<open>big\<close>: in the 40 bytes of the header the addresses
  are the bytes 8 to 23 and 24 to 39.
\<close>

definition ip6_hdr_of :: "u8 list \<Rightarrow> ip6_hdr" where
  "ip6_hdr_of h = \<lparr>ip6_src = take 16 (drop 8 h), ip6_dst = take 16 (drop 24 h)\<rparr>"

definition java_checksum ::
  "bool \<Rightarrow> u8 list \<Rightarrow> u8 list \<Rightarrow> u8 list \<Rightarrow> int \<Rightarrow> u8 list \<Rightarrow> int \<Rightarrow> int \<Rightarrow> (u8 list \<times> bool) outcome" where
  "java_checksum big hstack pstack hdr hdr_offset payload payload_offset payload_length =
     bind_outcome (get_region hdr hdr_offset 40 hstack) (\<lambda>(h, exc1).
     bind_outcome (get_region payload payload_offset payload_length pstack) (\<lambda>(p, exc2).
     case icmp6_checksum big (ip6_hdr_of h) p (size_of_int payload_length) of
       None \<Rightarrow> Undefined
     | Some c \<Rightarrow> Return (store16 big c, exc1 \<or> exc2)))"

section \<open>Properties\<close>

lemma size_of_int_id: "0 \<le> i \<Longrightarrow> i < 2 ^ 31 \<Longrightarrow> size_of_int i = nat i"
  by (simp add: size_of_int_def)

lemma get_region_inside:
  "region_ok a off len \<Longrightarrow> nat len \<le> length buf \<Longrightarrow>
    get_region a off len buf = Return (take (nat len) (drop (nat off) a) @ drop (nat len) buf, False)"
  by (simp add: get_region_def)

text \<open>
  C39. A read through the binding puts the received bytes at the front of the Java array and leaves
  the rest alone, whatever the size of the array: no exception, no access outside the stack
  buffer. The length returned is that of the data, and the timeout object is set to what
  \<open>grnvs_read\<close> left.
\<close>

theorem java_read_fills_array:
  assumes "java_read st methods buffer time rounds = Return jr" and "methods \<or> time = None"
  shows "\<exists>r. grnvs_read st (min 1514 (length buffer)) (map_option word_of_int time) rounds = Return r \<and>
    jr_len jr = int (length (data r)) \<and> length (data r) \<le> min 1514 (length buffer) \<and>
    jr_array jr = data r @ drop (length (data r)) buffer \<and> length (jr_array jr) = length buffer \<and>
    \<not> jr_pending jr \<and> jr_timeout jr = map_option sint (timeout_left r) \<and> jr_rounds jr = rounds_left r"
proof -
  have m: "(if 1514 < length buffer then 1514 else length buffer) = min 1514 (length buffer)" by simp
  obtain r where r: "grnvs_read st (min 1514 (length buffer)) (map_option word_of_int time) rounds = Return r"
    using assms by (auto simp: java_read_def m Let_def)
  have len: "ret r = int (length (data r))" "length (data r) \<le> min 1514 (length buffer)"
    using grnvs_read_length [OF r] by auto
  then have "region_ok buffer 0 (ret r)" by (simp add: region_ok_def)
  with assms r len show ?thesis
    by (auto simp: java_read_def m Let_def set_region_def)
qed

theorem java_read_fills_array_witness:
  "\<exists>jr. java_read (example_state SOCK_RAW) True [9, 9, 9] (Some 0) [] = Return jr \<and> jr_array jr = [9, 9, 9]"
proof -
  obtain jr where jr: "java_read (example_state SOCK_RAW) True [9, 9, 9] (Some 0) [] = Return jr"
    by (simp add: java_read_def grnvs_read_def example_state_def set_region_def region_ok_def)
  from java_read_fills_array [OF jr] have "jr_array jr = [9, 9, 9]"
    by (auto simp: grnvs_read_def example_state_def)
  with jr show ?thesis by blast
qed

text \<open>
  C40. The other methods copy as many bytes as they are told to into stack buffers of fixed size.
  A write of \<open>len\<close> bytes is the write of the first \<open>len\<close> bytes of the array when
  they fit into 1514, and the checksum is that of the slices when the payload fits into 2048; with
  longer, valid regions both overflow the stack. The IPv6 address of a closed socket is read
  through a NULL pointer, unlike the hardware address.
\<close>

theorem java_methods_bounds:
  assumes "length stack = 1514" and "length hstack = 40" and "length pstack = 2048"
    and "0 \<le> len" and "len \<le> int (length buffer)" and "len < 2 ^ 31"
    and "0 \<le> ho" and "ho + 40 \<le> int (length hdr)"
  shows "(len \<le> 1514 \<longrightarrow> java_write st stack fd buffer len answers =
      bind_outcome (grnvs_write st fd (take (nat len) buffer @ drop (nat len) stack) (nat len) answers)
        (\<lambda>(n, txs). Return (n, txs, False))) \<and>
    (1514 < len \<longrightarrow> java_write st stack fd buffer len answers = Undefined) \<and>
    (len \<le> 2048 \<longrightarrow> java_checksum big hstack pstack hdr ho buffer 0 len =
      (case icmp6_checksum big (ip6_hdr_of (take 40 (drop (nat ho) hdr))) (take (nat len) buffer) (nat len) of
         None \<Rightarrow> Undefined | Some c \<Rightarrow> Return (store16 big c, False))) \<and>
    (2048 < len \<longrightarrow> java_checksum big hstack pstack hdr ho buffer 0 len = Undefined) \<and>
    (ifindex st < 0 \<longrightarrow> java_mac st = Return None \<and> java_ip6 st = Undefined)"
proof (intro conjI impI)
  have ok: "region_ok buffer 0 len" "region_ok hdr ho 40" using assms by (simp_all add: region_ok_def)
  have size: "size_of_int len = nat len" using assms by (simp add: size_of_int_id)
  have hdr_region: "get_region hdr ho 40 hstack = Return (take 40 (drop (nat ho) hdr), False)"
    using get_region_inside [OF ok(2), of hstack] assms(2) by simp
  show "java_write st stack fd buffer len answers =
      bind_outcome (grnvs_write st fd (take (nat len) buffer @ drop (nat len) stack) (nat len) answers)
        (\<lambda>(n, txs). Return (n, txs, False))" if "len \<le> 1514"
    using get_region_inside [OF ok(1), of stack] assms(1) that by (simp add: java_write_def size)
  show "java_write st stack fd buffer len answers = Undefined" if "1514 < len"
  proof -
    have "1514 < nat len" using that by linarith
    then show ?thesis using ok(1) assms(1) by (simp add: java_write_def get_region_def)
  qed
  show "java_checksum big hstack pstack hdr ho buffer 0 len =
      (case icmp6_checksum big (ip6_hdr_of (take 40 (drop (nat ho) hdr))) (take (nat len) buffer) (nat len) of
         None \<Rightarrow> Undefined | Some c \<Rightarrow> Return (store16 big c, False))" if "len \<le> 2048"
  proof -
    have "get_region buffer 0 len pstack = Return (take (nat len) buffer @ drop (nat len) pstack, False)"
      using get_region_inside [OF ok(1), of pstack] assms(3) that by simp
    moreover have "icmp6_checksum big h (take (nat len) buffer @ drop (nat len) pstack) (nat len) =
        icmp6_checksum big h (take (nat len) buffer) (nat len)" for h
      using assms(5) by (intro icmp6_checksum_prefix) simp
    ultimately show ?thesis by (simp add: java_checksum_def hdr_region size split: option.split)
  qed
  show "java_checksum big hstack pstack hdr ho buffer 0 len = Undefined" if "2048 < len"
  proof -
    have "2048 < nat len" using that by linarith
    then show ?thesis using ok(1) assms(3) by (simp add: java_checksum_def hdr_region) (simp add: get_region_def)
  qed
  show "java_mac st = Return None" "java_ip6 st = Undefined" if "ifindex st < 0"
    using that by (simp_all add: java_mac_def java_ip6_def grnvs_get_hwaddr_def grnvs_get_ip6addr_def
        set_region_def region_ok_def)
qed

theorem java_methods_bounds_witness:
  "java_write (example_state SOCK_RAW) (zeros 1514) 3 (zeros 1515) 1515 [Wr_sent 1515] = Undefined \<and>
   java_ip6 raw_init = Undefined"
  using java_methods_bounds [of "zeros 1514" "zeros 40" "zeros 2048" 1515 "zeros 1515" 0 "zeros 40"
      "example_state SOCK_RAW" 3 "[Wr_sent 1515]" False]
    java_methods_bounds [of "zeros 1514" "zeros 40" "zeros 2048" 1515 "zeros 1515" 0 "zeros 40"
      raw_init 3 "[Wr_sent 1515]" False]
  by (simp add: raw_init_def)

end
