(* ===== verification/JavaRun.thy ===== *)
theory JavaRun
  imports Jni CString "HOL-Library.Monad_Syntax"
begin

text \<open>
  The machine the Java program of assignment 3 runs on: its static fields, the socket behind the
  native methods of theory \<open>Jni\<close>, the text on \<open>System.out\<close>, and sequencing with exceptions. An
  \<open>int\<close> is an \<^typ>\<open>int\<close> in the range of 32 bits, a \<open>char\<close> a 16 bit word, a \<open>byte\<close> an 8 bit
  word (read through \<open>sint\<close> where the program converts it to \<open>int\<close>); a byte array is a list
  whose length does not change.
\<close>

section \<open>State\<close>

text \<open>
  \<open>stopProbes\<close>, \<open>myIP\<close> and \<open>sequenceNumber\<close> are the static fields of \<open>Assignment3\<close>, \<open>timer\<close>
  is its one \<open>Timeout\<close> object. \<open>reads\<close> holds the answers to the iterations of the read loop of
  \<open>libraw\<close>, \<open>writes\<close> those of the write loop, one list for each write; when they run out, the
  call waits for ever. \<open>sent_packets\<close> is what was handed to the network, \<open>dump_text\<close> the static
  string of \<open>hexdump\<close>.
\<close>

record jvm =
  stdout :: string
  stopProbes :: bool
  myIP :: "u8 list"
  sequenceNumber :: u16
  timer :: int
  raw_socket :: raw_state
  reads :: "read_round list"
  writes :: "write_result list list"
  sent_packets :: "transmission list"
  dump_text :: string

text \<open>The start of the program, with the answers the system will give.\<close>

definition jvm_start :: "read_round list \<Rightarrow> write_result list list \<Rightarrow> jvm" where
  "jvm_start rounds answers = \<lparr>stdout = [], stopProbes = False, myIP = [], sequenceNumber = 0, timer = 0,
     raw_socket = raw_init, reads = rounds, writes = answers, sent_packets = [], dump_text = []\<rparr>"

datatype exn = ArrayIndexOutOfBounds | IllegalArgument | NullPointer | UnknownHost | NumberFormat | SocketError

text \<open>
  How a run can end: with a value, with an exception, with \<open>System.exit\<close> (or \<open>exit\<close> in the
  native code), outside what C defines in the native code, or waiting for ever on the system.
  \<open>None\<close> is a loop that never ends.
\<close>

datatype 'a jrun =
  is_done: Done 'a (final: jvm) | Throws exn (final: jvm) | Exits int (final: jvm) | Crash (final: jvm) | Waits (final: jvm)

type_synonym 'a java = "jvm \<Rightarrow> 'a jrun option"

section \<open>Sequencing\<close>

definition give :: "'a \<Rightarrow> 'a java" where
  "give x s = Some (Done x s)"

definition throw :: "exn \<Rightarrow> 'a java" where
  "throw e s = Some (Throws e s)"

definition system_exit :: "int \<Rightarrow> 'a java" where
  "system_exit c s = Some (Exits c s)"

definition seq :: "'a java \<Rightarrow> ('a \<Rightarrow> 'b java) \<Rightarrow> 'b java" where
  "seq m f s = Option.bind (m s) (\<lambda>r. case r of
     Done x s' \<Rightarrow> f x s' | Throws e s' \<Rightarrow> Some (Throws e s') | Exits c s' \<Rightarrow> Some (Exits c s')
   | Crash s' \<Rightarrow> Some (Crash s') | Waits s' \<Rightarrow> Some (Waits s'))"

text \<open>\<open>try { m } catch (\<dots>) { h }\<close>: the handler decides by the exception.\<close>

definition catching :: "'a java \<Rightarrow> (exn \<Rightarrow> 'a java) \<Rightarrow> 'a java" where
  "catching m h s = Option.bind (m s) (\<lambda>r. case r of Throws e s' \<Rightarrow> h e s' | _ \<Rightarrow> Some r)"

named_theorems jrun_eval \<open>equations that run a Java program symbolically\<close>

lemma give_run [jrun_eval]: "give x s = Some (Done x s)"
  by (simp add: give_def)

lemma throw_run [jrun_eval]: "throw e s = Some (Throws e s)"
  by (simp add: throw_def)

lemma system_exit_run [jrun_eval]: "system_exit c s = Some (Exits c s)"
  by (simp add: system_exit_def)

lemma seq_run:
  "m s = Some (Done x s') \<Longrightarrow> seq m f s = f x s'"
  "m s = Some (Throws e s') \<Longrightarrow> seq m f s = Some (Throws e s')"
  "m s = Some (Exits c s') \<Longrightarrow> seq m f s = Some (Exits c s')"
  "m s = Some (Crash s') \<Longrightarrow> seq m f s = Some (Crash s')"
  "m s = Some (Waits s') \<Longrightarrow> seq m f s = Some (Waits s')"
  "m s = None \<Longrightarrow> seq m f s = None"
  by (simp_all add: seq_def)

lemma seq_Done_iff:
  "seq m f s = Some (Done y t) \<longleftrightarrow> (\<exists>x s'. m s = Some (Done x s') \<and> f x s' = Some (Done y t))"
proof (cases "m s")
  case (Some r)
  then show ?thesis by (cases r) (simp_all add: seq_def)
qed (simp add: seq_def)

text \<open>A sequence goes on behind its first part or ends where that part failed.\<close>

lemma seq_cases [consumes 1, case_names goes_on fails]:
  assumes "seq m f s = Some r"
  obtains x t where "m s = Some (Done x t)" "f x t = Some r"
    | p where "m s = Some p" "\<not> is_done p" "\<not> is_done r" "final r = final p"
proof (cases "m s")
  case None
  then show ?thesis using assms by (simp add: seq_run)
next
  case (Some p)
  then show ?thesis using assms that by (cases p) (auto simp: seq_run)
qed

lemma seq_give [jrun_eval]: "seq (give x) f s = f x s"
  by (simp add: seq_def give_def)

lemma seq_throw [jrun_eval]: "seq (throw e) f s = Some (Throws e s)"
  by (simp add: seq_def throw_def)

lemma seq_mono [partial_function_mono]:
  assumes "mono_option (\<lambda>f. m f s)" and "\<And>x s. mono_option (\<lambda>f. g x f s)"
  shows "mono_option (\<lambda>f. seq (m f) (\<lambda>x. g x f) s)"
  unfolding seq_def
proof (rule bind_mono [OF assms(1)])
  fix r
  show "mono_option (\<lambda>f. case r of Done x s' \<Rightarrow> g x f s' | Throws e s' \<Rightarrow> Some (Throws e s')
     | Exits c s' \<Rightarrow> Some (Exits c s') | Crash s' \<Rightarrow> Some (Crash s') | Waits s' \<Rightarrow> Some (Waits s'))"
    using assms(2) by (cases r) (simp_all add: option.const_mono)
qed

lemma if_java_mono [partial_function_mono]:
  assumes "mono_option (\<lambda>f. m f s)" and "mono_option (\<lambda>f. n f s)"
  shows "mono_option (\<lambda>f. (if b then m f else n f) s)"
  using assms by (cases b) simp_all

section \<open>Language and library\<close>

text \<open>Access to an array, \<open>System.arraycopy\<close> (between different arrays), \<open>System.out.print\<close>.\<close>

definition elem :: "u8 list \<Rightarrow> int \<Rightarrow> u8 java" where
  "elem a i = (if 0 \<le> i \<and> i < int (length a) then give (a ! nat i) else throw ArrayIndexOutOfBounds)"

definition set_elem :: "u8 list \<Rightarrow> int \<Rightarrow> u8 \<Rightarrow> u8 list java" where
  "set_elem a i b = (if 0 \<le> i \<and> i < int (length a) then give (a[nat i := b]) else throw ArrayIndexOutOfBounds)"

definition arraycopy :: "u8 list \<Rightarrow> int \<Rightarrow> u8 list \<Rightarrow> int \<Rightarrow> int \<Rightarrow> u8 list java" where
  "arraycopy src i dst j n =
     (if 0 \<le> i \<and> 0 \<le> j \<and> 0 \<le> n \<and> i + n \<le> int (length src) \<and> j + n \<le> int (length dst)
      then give (take (nat j) dst @ take (nat n) (drop (nat i) src) @ drop (nat j + nat n) dst)
      else throw ArrayIndexOutOfBounds)"

definition print :: "string \<Rightarrow> unit java" where
  "print t s = Some (Done () (s\<lparr>stdout := stdout s @ t\<rparr>))"

definition println :: "string \<Rightarrow> unit java" where
  "println t = print (t @ [CHR 0x0A])"

definition modify :: "(jvm \<Rightarrow> jvm) \<Rightarrow> unit java" where
  "modify f s = Some (Done () (f s))"

definition fetch :: "(jvm \<Rightarrow> 'a) \<Rightarrow> 'a java" where
  "fetch f s = Some (Done (f s) s)"

lemma print_run [jrun_eval]: "print t s = Some (Done () (s\<lparr>stdout := stdout s @ t\<rparr>))"
  by (simp add: print_def)

lemma modify_run [jrun_eval]: "modify f s = Some (Done () (f s))"
  by (simp add: modify_def)

lemma fetch_run [jrun_eval]: "fetch f s = Some (Done (f s) s)"
  by (simp add: fetch_def)

lemma seq_print [jrun_eval]: "seq (print t) f s = f () (s\<lparr>stdout := stdout s @ t\<rparr>)"
  by (simp add: seq_def print_def)

lemma seq_modify [jrun_eval]: "seq (modify g) f s = f () (g s)"
  by (simp add: seq_def modify_def)

lemma seq_fetch [jrun_eval]: "seq (fetch g) f s = f (g s) s"
  by (simp add: seq_def fetch_def)

lemma elem_inside [simp]: "0 \<le> i \<Longrightarrow> i < int (length a) \<Longrightarrow> elem a i = give (a ! nat i)"
  by (simp add: elem_def)

lemma elem_outside [simp]: "int (length a) \<le> i \<or> i < 0 \<Longrightarrow> elem a i = throw ArrayIndexOutOfBounds"
  by (auto simp: elem_def)

text \<open>
  \<open>Integer.parseInt\<close> on ASCII text: an optional sign, at least one digit, in the range of
  \<open>int\<close>; anything else is a \<open>NumberFormatException\<close>.
\<close>

definition parse_sign :: "string \<Rightarrow> bool \<times> string" where
  "parse_sign s = (case s of
     [] \<Rightarrow> (False, [])
   | c # cs \<Rightarrow> if c = CHR ''-'' then (True, cs) else if c = CHR ''+'' then (False, cs) else (False, s))"

definition parseInt :: "string \<Rightarrow> int java" where
  "parseInt s = (let (neg, ds) = parse_sign s;
       n = int (digits_val 0 ds); v = (if neg then - n else n)
     in if ds = [] \<or> \<not> list_all is_digit ds then throw NumberFormat
        else if - 2147483648 \<le> v \<and> v \<le> 2147483647 then give v else throw NumberFormat)"

section \<open>Native methods\<close>

text \<open>What the system answers outside the loops of \<open>libraw\<close>, and the memory on the C stack.\<close>

record os_java =
  oj_open :: os_open
  oj_close :: int
  oj_resolve :: "string \<Rightarrow> u8 list option"
  oj_big :: bool
  oj_buf :: "u8 list"
  oj_hdr :: "u8 list"
  oj_payload :: "u8 list"

text \<open>
  A native call: what the C code makes of it becomes the end of the run, and the flag of the
  binding an exception in the caller.
\<close>

definition native :: "'a outcome \<Rightarrow> 'a java" where
  "native m s = Some (case m of
     Return x \<Rightarrow> Done x s | Exit c \<Rightarrow> Exits c s | Undefined \<Rightarrow> Crash s | Blocks \<Rightarrow> Waits s)"

definition pending :: "bool \<Rightarrow> exn \<Rightarrow> unit java" where
  "pending exc e = (if exc then throw e else give ())"

lemma native_run [jrun_eval]:
  "native (Return x) s = Some (Done x s)"
  "native (Exit c) s = Some (Exits c s)"
  "native Undefined s = Some (Crash s)"
  "native Blocks s = Some (Waits s)"
  by (simp_all add: native_def)

lemma seq_native [jrun_eval]:
  "seq (native (Return x)) f s = f x s"
  by (simp add: seq_def native_def)

lemma pending_run [jrun_eval]:
  "pending False e s = Some (Done () s)" "pending True e s = Some (Throws e s)"
  "seq (pending False e) g s = g () s" "seq (pending True e) g s = Some (Throws e s)"
  by (simp_all add: pending_def give_def throw_def seq_def)

end
