(* ===== verification/TraceArgs.thy ===== *)
theory TraceArgs
  imports JavaRun
begin

text \<open>
  The command line of the traceroute program: \<open>assignment3/src/Arguments.java\<close>. The constructor
  walks over \<open>argv\<close> by index and takes the value of an option from the next element; the model
  walks over the rest of the list.
\<close>

section \<open>The code\<close>

record trace_args =
  ta_dst :: string
  ta_iface :: string
  ta_timeout :: int
  ta_hoplimit :: int
  ta_attempts :: int

definition printHelp :: "unit java" where
  "printHelp =
     seq (println ''Traceroute for GRNVS'') (\<lambda>_.
     seq (println ''Usage:'') (\<lambda>_.
     seq (println ''-i/--interface: The interface on which the frame should be sent'') (\<lambda>_.
     seq (println ''-t             The timeout that should be used for timed actions (default: 5)'') (\<lambda>_.
     seq (println ''-q             The attempts that should be done per hop (default: 3)'') (\<lambda>_.
     seq (println ''-m             The maximum hops to trace over (default: 15)'') (\<lambda>_.
     seq (println ''DST:            The destination IPv6 address '') (\<lambda>_.
     println (''-?/--help'' @ [CHR 0x09] @ ''    Print this help message''))))))))"

text \<open>The \<open>try\<close> around \<open>Integer.parseInt\<close>; the message goes to standard error.\<close>

definition number_or_exit :: "string \<Rightarrow> int java" where
  "number_or_exit v = catching (parseInt v) (\<lambda>e. if e = NumberFormat then system_exit (- 1) else throw e)"

text \<open>The two labels of a case of the \<open>switch\<close>.\<close>

definition arg_is :: "string \<Rightarrow> string \<Rightarrow> string \<Rightarrow> bool" where
  "arg_is arg short long \<longleftrightarrow> arg = short \<or> arg = long"

text \<open>
  The loop. \<open>farg\<close> is the array \<open>fargs\<close> of one element together with the counter \<open>j\<close>:
  \<open>None\<close> is \<open>j = 0\<close>.
\<close>

fun arg_loop :: "string list \<Rightarrow> trace_args \<Rightarrow> string option \<Rightarrow> (trace_args \<times> string option) java" where
  "arg_loop [] a farg = give (a, farg)"
| "arg_loop (arg # rest) a farg =
     (if arg_is arg ''-?'' ''--help'' then seq printHelp (\<lambda>_. system_exit 0)
      else if arg_is arg ''-i'' ''--interface'' then
        (case rest of [] \<Rightarrow> throw ArrayIndexOutOfBounds
         | v # vs \<Rightarrow> arg_loop vs (a\<lparr>ta_iface := v\<rparr>) farg)
      else if arg_is arg ''-t'' ''--timeout'' then
        (case rest of [] \<Rightarrow> throw ArrayIndexOutOfBounds
         | v # vs \<Rightarrow> seq (number_or_exit v) (\<lambda>n. arg_loop vs (a\<lparr>ta_timeout := n\<rparr>) farg))
      else if arg_is arg ''-q'' ''--attempts'' then
        (case rest of [] \<Rightarrow> throw ArrayIndexOutOfBounds
         | v # vs \<Rightarrow> seq (number_or_exit v) (\<lambda>n. arg_loop vs (a\<lparr>ta_attempts := n\<rparr>) farg))
      else if arg_is arg ''-m'' ''--hoplimit'' then
        (case rest of [] \<Rightarrow> throw ArrayIndexOutOfBounds
         | v # vs \<Rightarrow> seq (number_or_exit v) (\<lambda>n. arg_loop vs (a\<lparr>ta_hoplimit := n\<rparr>) farg))
      else (case farg of
        Some _ \<Rightarrow> seq (println ''Encountered an unexpected number of positional arguments'') (\<lambda>_. system_exit 1)
      | None \<Rightarrow> arg_loop rest a (Some arg)))"

definition Arguments :: "string list \<Rightarrow> trace_args java" where
  "Arguments argv =
     seq (if argv = [] then seq printHelp (\<lambda>_. system_exit 0) else give ()) (\<lambda>_.
     seq (arg_loop argv \<lparr>ta_dst = [], ta_iface = ''eth0'', ta_timeout = 5, ta_hoplimit = 15, ta_attempts = 3\<rparr> None)
       (\<lambda>(a, farg). case farg of
          None \<Rightarrow> seq (println ''Did not find positional argument: destination'') (\<lambda>_. system_exit 1)
        | Some d \<Rightarrow> give (a\<lparr>ta_dst := d\<rparr>)))"

section \<open>Numbers\<close>

definition in_int :: "int \<Rightarrow> bool" where
  "in_int i \<longleftrightarrow> - 2147483648 \<le> i \<and> i \<le> 2147483647"

lemma parseInt_dec_int:
  assumes "in_int i"
  shows "parseInt (dec_int i) s = Some (Done i s)"
proof -
  have first: "hd (dec n) \<noteq> CHR ''-'' \<and> hd (dec n) \<noteq> CHR ''+''" for n
    using dec_digits [of "hd (dec n)" n] digit_not_sign by simp
  have sign: "parse_sign (dec n) = (False, dec n)" for n
    using first [of n] by (cases "dec n") (auto simp: parse_sign_def)
  have digits: "list_all is_digit (dec n)" for n
    using dec_digits by (auto simp: list_all_iff)
  show ?thesis
  proof (cases "i < 0")
    case True
    then show ?thesis
      using assms digits by (simp add: parseInt_def dec_int_def parse_sign_def digits_val_dec in_int_def jrun_eval)
  next
    case False
    then show ?thesis
      using assms digits sign by (simp add: parseInt_def dec_int_def digits_val_dec in_int_def jrun_eval)
  qed
qed

lemma parseInt_in_int: "parseInt t s = Some (Done i s') \<Longrightarrow> in_int i \<and> s' = s"
  by (auto simp: parseInt_def in_int_def jrun_eval Let_def split: prod.splits if_splits)

lemma parseInt_ends: "parseInt t s = Some (Throws NumberFormat s) \<or> (\<exists>i. parseInt t s = Some (Done i s) \<and> in_int i)"
  by (auto simp: parseInt_def in_int_def jrun_eval Let_def split: prod.splits)

lemma number_or_exit_run:
  "number_or_exit t s = (case parseInt t s of Some (Done i s') \<Rightarrow> Some (Done i s) | _ \<Rightarrow> Some (Exits (- 1) s))"
  using parseInt_ends [of t s] by (auto simp: number_or_exit_def catching_def jrun_eval)

section \<open>Settings\<close>

text \<open>A setting and the two words it is written with, the short or the long option.\<close>

datatype setting = Set_iface string | Set_timeout int | Set_attempts int | Set_hoplimit int

fun setting_words :: "bool \<times> setting \<Rightarrow> string list" where
  "setting_words (short, Set_iface v) = [if short then ''-i'' else ''--interface'', v]"
| "setting_words (short, Set_timeout n) = [if short then ''-t'' else ''--timeout'', dec_int n]"
| "setting_words (short, Set_attempts n) = [if short then ''-q'' else ''--attempts'', dec_int n]"
| "setting_words (short, Set_hoplimit n) = [if short then ''-m'' else ''--hoplimit'', dec_int n]"

fun store_setting :: "bool \<times> setting \<Rightarrow> trace_args \<Rightarrow> trace_args" where
  "store_setting (_, Set_iface v) a = a\<lparr>ta_iface := v\<rparr>"
| "store_setting (_, Set_timeout n) a = a\<lparr>ta_timeout := n\<rparr>"
| "store_setting (_, Set_attempts n) a = a\<lparr>ta_attempts := n\<rparr>"
| "store_setting (_, Set_hoplimit n) a = a\<lparr>ta_hoplimit := n\<rparr>"

fun wf_setting :: "bool \<times> setting \<Rightarrow> bool" where
  "wf_setting (_, Set_iface v) = True"
| "wf_setting (_, Set_timeout n) = in_int n"
| "wf_setting (_, Set_attempts n) = in_int n"
| "wf_setting (_, Set_hoplimit n) = in_int n"

abbreviation command_line :: "(bool \<times> setting) list \<Rightarrow> string list" where
  "command_line xs \<equiv> concat (map setting_words xs)"

definition trace_defaults :: trace_args where
  "trace_defaults = \<lparr>ta_dst = [], ta_iface = ''eth0'', ta_timeout = 5, ta_hoplimit = 15, ta_attempts = 3\<rparr>"

definition option_words :: "string list" where
  "option_words = [''-?'', ''--help'', ''-i'', ''--interface'', ''-t'', ''--timeout'', ''-q'', ''--attempts'',
     ''-m'', ''--hoplimit'']"

declare arg_loop.simps(2) [simp del]

lemma arg_loop_setting:
  "wf_setting x \<Longrightarrow> arg_loop (setting_words x @ rest) a farg s = arg_loop rest (store_setting x a) farg s"
  by (cases x rule: setting_words.cases)
    (simp_all add: arg_loop.simps(2) arg_is_def number_or_exit_run parseInt_dec_int seq_run)

lemma arg_loop_settings:
  "\<forall>x \<in> set xs. wf_setting x \<Longrightarrow>
    arg_loop (command_line xs @ rest) a farg s = arg_loop rest (fold store_setting xs a) farg s"
  by (induction xs arbitrary: a) (simp_all add: arg_loop_setting)

lemma arg_loop_settings_end:
  "\<forall>x \<in> set xs. wf_setting x \<Longrightarrow> arg_loop (command_line xs) a farg s = Some (Done (fold store_setting xs a, farg) s)"
  using arg_loop_settings [of xs "[]" a farg s] by (simp add: jrun_eval)

lemma arg_loop_positional:
  "d \<notin> set option_words \<Longrightarrow> arg_loop (d # rest) a None s = arg_loop rest a (Some d) s"
  "d \<notin> set option_words \<Longrightarrow> arg_loop (d # rest) a (Some e) s =
    seq (println ''Encountered an unexpected number of positional arguments'') (\<lambda>_. system_exit 1) s"
  by (simp_all add: arg_loop.simps(2) option_words_def arg_is_def)

lemma Arguments_loop:
  "argv \<noteq> [] \<Longrightarrow> Arguments argv s = seq (arg_loop argv trace_defaults None)
       (\<lambda>(a, farg). case farg of
          None \<Rightarrow> seq (println ''Did not find positional argument: destination'') (\<lambda>_. system_exit 1)
        | Some d \<Rightarrow> give (a\<lparr>ta_dst := d\<rparr>)) s"
  by (simp add: Arguments_def trace_defaults_def jrun_eval)

text \<open>A command line that is accepted leaves the rest of the state as it was.\<close>

definition steady :: "'a java \<Rightarrow> bool" where
  "steady m \<longleftrightarrow> (\<forall>s x t. m s = Some (Done x t) \<longrightarrow> t = s)"

lemma steady_basic:
  "steady (give x)" "steady (throw e)" "steady (system_exit c)" "steady (seq (println t) (\<lambda>_. system_exit c))"
  "steady (number_or_exit v)" "steady (seq printHelp (\<lambda>_. system_exit c))"
  using parseInt_ends [of v]
  by (auto simp: steady_def jrun_eval seq_Done_iff number_or_exit_run split: option.splits jrun.splits)

lemma steady_seq: "steady m \<Longrightarrow> (\<And>x. steady (f x)) \<Longrightarrow> steady (seq m f)"
  by (auto simp: steady_def seq_Done_iff) blast

lemma steady_cases:
  "(b \<Longrightarrow> steady m) \<Longrightarrow> (\<not> b \<Longrightarrow> steady n) \<Longrightarrow> steady (if b then m else n)"
  "(xs = [] \<Longrightarrow> steady m) \<Longrightarrow> (\<And>v vs. xs = v # vs \<Longrightarrow> steady (f v vs)) \<Longrightarrow> steady (case xs of [] \<Rightarrow> m | v # vs \<Rightarrow> f v vs)"
  "(p = None \<Longrightarrow> steady m) \<Longrightarrow> (\<And>v. p = Some v \<Longrightarrow> steady (g v)) \<Longrightarrow> steady (case p of None \<Rightarrow> m | Some v \<Rightarrow> g v)"
  by (simp_all split: list.split option.split)

lemma steady_arg_loop: "steady (arg_loop argv a farg)"
proof (induction argv a farg rule: arg_loop.induct)
  case (2 arg rest a farg)
  show ?case
    unfolding arg_loop.simps(2)
    by (intro steady_cases;
        (rule steady_basic | (rule steady_seq, rule steady_basic, rule 2; assumption) | (rule 2; assumption)))
qed (simp add: steady_basic)

lemma Arguments_state: "Arguments argv s = Some (Done x t) \<Longrightarrow> t = s"
proof -
  have "steady (Arguments argv)"
    unfolding Arguments_def
    by (intro steady_seq steady_arg_loop) (auto simp: steady_basic split: option.split)
  then show "Arguments argv s = Some (Done x t) \<Longrightarrow> t = s" by (auto simp: steady_def)
qed

text \<open>The text of \<open>printHelp\<close> and the messages are what the program prints before it exits.\<close>

definition with_output :: "string \<Rightarrow> jvm \<Rightarrow> jvm" where
  "with_output t s = s\<lparr>stdout := stdout s @ t\<rparr>"

lemma println_exit:
  "seq (println t) (\<lambda>_. system_exit c) s = Some (Exits c (with_output (t @ [CHR 0x0A]) s))"
  by (simp add: println_def jrun_eval with_output_def)

lemma print_run_output: "print t s = Some (Done () (with_output t s))"
  by (simp add: print_def with_output_def)

lemma with_output_twice: "with_output u (with_output t s) = with_output (t @ u) s"
  by (simp add: with_output_def)

text \<open>The text \<open>printHelp\<close> prints.\<close>

definition usage :: string where
  "usage = stdout (final (the (printHelp (jvm_start [] []))))"

lemma printHelp_run: "printHelp s = Some (Done () (with_output usage s))"
proof -
  have "\<exists>h. \<forall>t. printHelp t = Some (Done () (with_output h t))"
    unfolding printHelp_def println_def
    by (simp only: seq_def print_run_output bind.bind_lunit jrun.case with_output_twice) blast
  then obtain h where h: "\<And>t. printHelp t = Some (Done () (with_output h t))" by blast
  then have "usage = h" by (simp add: usage_def with_output_def jvm_start_def)
  with h show ?thesis by simp
qed

lemma printHelp_exit: "seq printHelp (\<lambda>_. system_exit 0) s = Some (Exits 0 (with_output usage s))"
  by (simp add: seq_run(1) [OF printHelp_run] jrun_eval)

section \<open>Properties\<close>

text \<open>
  C32. Settings written as options, short or long, before and after the destination and as often as
  one likes, are read back: each is stored, the last of a kind counts, and what is not given keeps its
  default. Numbers are those of a Java \<open>int\<close>, negative ones included; nothing checks them further.
\<close>

theorem Arguments_roundtrip:
  assumes "\<forall>x \<in> set (xs @ ys). wf_setting x" and "d \<notin> set option_words"
  shows "Arguments (command_line xs @ [d] @ command_line ys) s =
    Some (Done ((fold store_setting (xs @ ys) trace_defaults)\<lparr>ta_dst := d\<rparr>) s)"
proof -
  have "arg_loop (command_line xs @ [d] @ command_line ys) trace_defaults None s =
      Some (Done (fold store_setting (xs @ ys) trace_defaults, Some d) s)"
    using assms by (simp add: arg_loop_settings arg_loop_positional arg_loop_settings_end)
  then show ?thesis by (simp add: Arguments_loop seq_run jrun_eval)
qed

theorem Arguments_roundtrip_witness:
  "Arguments [''-t'', ''7'', ''host'', ''--hoplimit'', ''-3''] (jvm_start [] []) =
    Some (Done \<lparr>ta_dst = ''host'', ta_iface = ''eth0'', ta_timeout = 7, ta_hoplimit = - 3, ta_attempts = 3\<rparr>
      (jvm_start [] []))"
  using Arguments_roundtrip [of "[(True, Set_timeout 7)]" "[(False, Set_hoplimit (- 3))]" "''host''" "jvm_start [] []"]
  by (simp add: in_int_def option_words_def trace_defaults_def) (simp add: c_eval)

text \<open>
  The ways a command line fails, behind any settings. \<open>-?\<close> and an empty command line
  print the help and exit with status 0; a text that is not a number exits with status -1; a second
  destination or none prints a message and exits with status 1; an option without its value
  is an exception that nothing catches.
\<close>

theorem Arguments_errors:
  assumes "\<forall>x \<in> set xs. wf_setting x" and "f \<in> {''-t'', ''--timeout'', ''-q'', ''--attempts'', ''-m'', ''--hoplimit''}"
    and "parseInt t s = Some (Throws NumberFormat s)" and "{d, e} \<inter> set option_words = {}"
  shows "Arguments [] s = Some (Exits 0 (with_output usage s)) \<and>
    Arguments (command_line xs @ [''-?''] @ rest) s = Some (Exits 0 (with_output usage s)) \<and>
    Arguments (command_line xs @ [f, t] @ rest) s = Some (Exits (- 1) s) \<and>
    Arguments (command_line xs @ [d, e] @ rest) s = Some (Exits 1
      (with_output (''Encountered an unexpected number of positional arguments'' @ [CHR 0x0A]) s)) \<and>
    (xs \<noteq> [] \<longrightarrow> Arguments (command_line xs) s = Some (Exits 1
      (with_output (''Did not find positional argument: destination'' @ [CHR 0x0A]) s))) \<and>
    Arguments (command_line xs @ [f]) s = Some (Throws ArrayIndexOutOfBounds s) \<and>
    Arguments (command_line xs @ [''-i'']) s = Some (Throws ArrayIndexOutOfBounds s)"
proof -
  have loop: "Arguments (command_line xs @ rest) s = seq (arg_loop rest (fold store_setting xs trace_defaults) None)
       (\<lambda>(a, farg). case farg of
          None \<Rightarrow> seq (println ''Did not find positional argument: destination'') (\<lambda>_. system_exit 1)
        | Some d \<Rightarrow> give (a\<lparr>ta_dst := d\<rparr>)) s" if "command_line xs @ rest \<noteq> []" for rest
    using assms(1) by (subst Arguments_loop [OF that]) (simp add: seq_def arg_loop_settings)
  have "Arguments [] s = Some (Exits 0 (with_output usage s))"
    by (simp add: Arguments_def seq_run(3) [OF printHelp_exit])
  moreover have "Arguments (command_line xs @ [''-?''] @ rest) s = Some (Exits 0 (with_output usage s))"
    by (simp add: loop arg_loop.simps(2) arg_is_def seq_run(3) [OF printHelp_exit])
  moreover have "arg_loop ([f, t] @ rest) a None s = Some (Exits (- 1) s)" for a
    using assms(2,3) by (auto simp: arg_loop.simps(2) arg_is_def number_or_exit_run seq_run)
  then have "Arguments (command_line xs @ [f, t] @ rest) s = Some (Exits (- 1) s)"
    by (simp add: loop seq_run)
  moreover have "Arguments (command_line xs @ [d, e] @ rest) s = Some (Exits 1
      (with_output (''Encountered an unexpected number of positional arguments'' @ [CHR 0x0A]) s))"
    using assms(4) by (simp add: loop arg_loop_positional println_exit seq_run)
  moreover have "Arguments (command_line xs) s = Some (Exits 1
      (with_output (''Did not find positional argument: destination'' @ [CHR 0x0A]) s))" if "xs \<noteq> []"
  proof -
    have "setting_words x \<noteq> []" for x by (cases x rule: setting_words.cases) simp_all
    then have "command_line xs \<noteq> []" using that by (cases xs) simp_all
    then show ?thesis using loop [of "[]"] by (simp add: jrun_eval println_exit)
  qed
  moreover have "arg_loop [f] a None s = Some (Throws ArrayIndexOutOfBounds s)" for a
    using assms(2) by (auto simp: arg_loop.simps(2) arg_is_def jrun_eval)
  then have "Arguments (command_line xs @ [f]) s = Some (Throws ArrayIndexOutOfBounds s)"
    by (simp add: loop seq_run)
  moreover have "Arguments (command_line xs @ [''-i'']) s = Some (Throws ArrayIndexOutOfBounds s)"
    by (simp add: loop arg_loop.simps(2) arg_is_def jrun_eval)
  ultimately show ?thesis by blast
qed

theorem Arguments_errors_witness:
  "Arguments [''-i'', ''lo'', ''-m'', ''1x''] (jvm_start [] []) = Some (Exits (- 1) (jvm_start [] []))"
proof -
  have "parseInt ''1x'' (jvm_start [] []) = Some (Throws NumberFormat (jvm_start [] []))"
    by (simp add: parseInt_def parse_sign_def is_digit_def jrun_eval)
  from Arguments_errors [OF _ _ this, of "[(True, Set_iface ''lo'')]" "''-m''" "''a''" "''b''" "[]"]
  show ?thesis by (simp add: option_words_def)
qed

end
