(* ===== verification/InetText.thy ===== *)
theory InetText
  imports JavaRun
begin

text \<open>
  Internet addresses as the Java library prints them, as far as assignment 3 uses it: it compares
  the texts of two addresses and prints those of the hosts that answer. The main fact is that
  different addresses have different texts.
\<close>

section \<open>The text of an address\<close>

text \<open>
  \<open>InetAddress.getByAddress(a).getHostAddress()\<close> of the Java library: four bytes in dotted
  decimal; sixteen bytes as eight hexadecimal groups, without leading zeros and without the short
  form for zeros; an IPv4-mapped address counts as the IPv4 address in it; any other length is an
  \<open>UnknownHostException\<close>.
\<close>

fun join :: "char \<Rightarrow> string list \<Rightarrow> string" where
  "join c [] = []"
| "join c [x] = x"
| "join c (x # xs) = x @ c # join c xs"

fun groups :: "u8 list \<Rightarrow> nat list" where
  "groups (a # b # bs) = (256 * unat a + unat b) # groups bs"
| "groups _ = []"

definition ipv4_text :: "u8 list \<Rightarrow> string" where
  "ipv4_text a = join CHR ''.'' (map (\<lambda>b. dec (unat b)) a)"

definition ipv6_text :: "u8 list \<Rightarrow> string" where
  "ipv6_text a = join CHR '':'' (map hex (groups a))"

definition ipv4_mapped :: "u8 list \<Rightarrow> bool" where
  "ipv4_mapped a \<longleftrightarrow> take 12 a = zeros 10 @ [0xFF, 0xFF]"

definition host_text :: "u8 list \<Rightarrow> string" where
  "host_text a = (if length a = 4 then ipv4_text a
     else if ipv4_mapped a then ipv4_text (drop 12 a) else ipv6_text a)"

definition getHostAddress :: "u8 list \<Rightarrow> string java" where
  "getHostAddress a = (if length a = 4 \<or> length a = 16 then give (host_text a) else throw UnknownHost)"

section \<open>Reading the text back\<close>

fun hex_digits_val :: "nat \<Rightarrow> string \<Rightarrow> nat" where
  "hex_digits_val n [] = n"
| "hex_digits_val n (c # cs) = hex_digits_val (16 * n + hex_val c) cs"

lemma hex_digits_val_append [simp]:
  "hex_digits_val n (xs @ ys) = hex_digits_val (hex_digits_val n xs) ys"
  by (induction xs arbitrary: n) auto

lemma hex_digits_val_hex: "hex_digits_val 0 (hex n) = n"
proof (induction n rule: hex.induct)
  case (1 n)
  then show ?case by (cases "n < 16") (simp_all add: hex.simps [of n])
qed

lemma inj_hex: "inj hex"
  by (metis hex_digits_val_hex injI)

lemma inj_dec: "inj dec"
  by (metis digits_val_dec injI)

lemma hex_char_not_separator: "d < 16 \<Longrightarrow> hex_char d \<noteq> CHR '':'' \<and> hex_char d \<noteq> CHR ''.''"
  by (auto simp: less_16_cases less_10_cases hex_char_def)

lemma hex_no_separator: "CHR '':'' \<notin> set (hex n) \<and> CHR ''.'' \<notin> set (hex n)"
proof (induction n rule: hex.induct)
  case (1 n)
  then show ?case
    using hex_char_not_separator [of n] hex_char_not_separator [of "n mod 16"]
    by (cases "n < 16") (auto simp: hex.simps [of n])
qed

lemma dec_no_separator: "CHR '':'' \<notin> set (dec n) \<and> CHR ''.'' \<notin> set (dec n)"
  using dec_digits [of "CHR '':''" n] dec_digits [of "CHR ''.''" n] by (auto simp: is_digit_def)

lemma append_sep_eq:
  assumes "x @ c # xs = y @ c # ys" and "c \<notin> set x" and "c \<notin> set y"
  shows "x = y \<and> xs = ys"
proof -
  have "takeWhile (\<lambda>d. d \<noteq> c) (z @ c # zs) = z" if "c \<notin> set z" for z zs
    using that by (induction z) auto
  with assms have "x = y" by metis
  with assms show ?thesis by simp
qed

lemma join_inj:
  assumes "join c xs = join c ys" and "length xs = length ys"
    and "\<forall>x \<in> set xs. c \<notin> set x" and "\<forall>y \<in> set ys. c \<notin> set y"
  shows "xs = ys"
  using assms
proof (induction c xs arbitrary: ys rule: join.induct)
  case (3 c x x' xs)
  have "length ys = Suc (Suc (length xs))" using 3 by simp
  then obtain y y' ys' where ys: "ys = y # y' # ys'" unfolding length_Suc_conv by blast
  with 3 have "x = y \<and> join c (x' # xs) = join c (y' # ys')" by (intro append_sep_eq) auto
  moreover have "x' # xs = y' # ys'" if "join c (x' # xs) = join c (y' # ys')"
    using 3 ys that by simp
  ultimately show ?case using ys by blast
next
  case (2 c x)
  then show ?case by (cases ys) auto
qed auto

lemma set_join: "set (join c xs) = (\<Union>x \<in> set xs. set x) \<union> (if 2 \<le> length xs then {c} else {})"
  by (induction c xs rule: join.induct) auto

lemma length_groups: "length (groups a) = length a div 2"
  by (induction a rule: groups.induct) auto

lemma groups_inj: "groups a = groups b \<Longrightarrow> length a = length b \<Longrightarrow> even (length a) \<Longrightarrow> a = b"
proof (induction a arbitrary: b rule: groups.induct)
  case (1 x y xs)
  have "length b = Suc (Suc (length xs))" using 1 by simp
  then obtain x' y' ys where b: "b = x' # y' # ys" unfolding length_Suc_conv by blast
  with 1 have "256 * unat x + unat y = 256 * unat x' + unat y'" by simp
  then have "unat x = unat x' \<and> unat y = unat y'"
    using bytes_split [OF unat_u8_less] by metis
  then have "x = x' \<and> y = y'" by (auto intro: unsigned_word_eqI)
  with 1 b show ?case by simp
qed auto

lemma ipv6_text_inj:
  assumes "ipv6_text a = ipv6_text b" and "length a = 16" and "length b = 16"
  shows "a = b"
proof -
  have "map hex (groups a) = map hex (groups b)"
    using assms by (intro join_inj [of "CHR '':''"]) (auto simp: ipv6_text_def length_groups hex_no_separator)
  then have "groups a = groups b" using inj_hex by (simp add: inj_map_eq_map)
  then show ?thesis using assms by (intro groups_inj) auto
qed

lemma ipv4_text_inj:
  assumes "ipv4_text a = ipv4_text b" and "length a = length b"
  shows "a = b"
proof -
  have "map (\<lambda>b. dec (unat b)) a = map (\<lambda>b. dec (unat b)) b"
    using assms by (intro join_inj [of "CHR ''.''"]) (auto simp: ipv4_text_def dec_no_separator)
  moreover have "inj (\<lambda>b :: u8. dec (unat b))"
    using inj_dec by (auto simp: inj_def intro: unsigned_word_eqI)
  ultimately show ?thesis by (simp add: inj_map_eq_map)
qed

lemma text_separators:
  "length a = 4 \<Longrightarrow> CHR '':'' \<notin> set (ipv4_text a)"
  "length a = 16 \<Longrightarrow> CHR '':'' \<in> set (ipv6_text a)"
  using dec_no_separator by (auto simp: ipv4_text_def ipv6_text_def set_join length_groups)

text \<open>Two addresses of sixteen bytes have the same text only if they are the same.\<close>

lemma host_text_inj:
  assumes "length a = 16" and "length b = 16"
  shows "host_text a = host_text b \<longleftrightarrow> a = b"
proof
  assume h: "host_text a = host_text b"
  have four: "length (drop 12 a) = 4" "length (drop 12 b) = 4" using assms by auto
  have same: "ipv4_mapped a = ipv4_mapped b"
    using h text_separators(1) [OF four(1)] text_separators(1) [OF four(2)]
      text_separators(2) [OF assms(1)] text_separators(2) [OF assms(2)] assms
    by (auto simp: host_text_def split: if_splits)
  show "a = b"
  proof (cases "ipv4_mapped a")
    case True
    with h same assms have "ipv4_text (drop 12 a) = ipv4_text (drop 12 b)" by (simp add: host_text_def)
    then have "drop 12 a = drop 12 b" using four by (intro ipv4_text_inj) auto
    moreover have "take 12 a = take 12 b" using True same by (simp add: ipv4_mapped_def)
    ultimately show ?thesis by (metis append_take_drop_id)
  next
    case False
    with h same assms show ?thesis by (simp add: host_text_def ipv6_text_inj)
  qed
qed simp

lemma getHostAddress_16 [simp]: "length a = 16 \<Longrightarrow> getHostAddress a = give (host_text a)"
  by (simp add: getHostAddress_def)

end
