(* ===== verification/Trace6.thy ===== *)
theory Trace6
  imports TraceArgs InetText
begin

text \<open>
  The traceroute program of assignment 3: \<open>Assignment3.java\<close>, \<open>GRNVS_RAW.java\<close> and
  \<open>Timeout.java\<close> under \<open>assignment3/src\<close>, on top of the native methods of theory \<open>Jni\<close> and
  through them of \<open>Raw\<close> and \<open>Checksum\<close>.
\<close>

section \<open>GRNVS_RAW\<close>

text \<open>The constructor and the methods the program calls; the object is its \<open>handle\<close>.\<close>

definition new_raw :: "os_java \<Rightarrow> string \<Rightarrow> int \<Rightarrow> int java" where
  "new_raw os dev level =
     seq (fetch raw_socket) (\<lambda>st.
     seq (native (java_getSocket (oj_open os) dev level st)) (\<lambda>(sock, exc, st).
     seq (modify (\<lambda>s. s\<lparr>raw_socket := st\<rparr>)) (\<lambda>_.
     seq (pending exc SocketError) (\<lambda>_. give sock))))"

definition raw_write :: "os_java \<Rightarrow> int \<Rightarrow> u8 list \<Rightarrow> int \<Rightarrow> int java" where
  "raw_write os handle buffer n =
     seq (fetch raw_socket) (\<lambda>st.
     seq (fetch writes) (\<lambda>ws.
     seq (native (java_write st (oj_buf os) handle buffer n (case ws of [] \<Rightarrow> [] | w # _ \<Rightarrow> w))) (\<lambda>(sent, txs, exc).
     seq (modify (\<lambda>s. s\<lparr>writes := tl ws, sent_packets := sent_packets s @ txs\<rparr>)) (\<lambda>_.
     seq (pending exc ArrayIndexOutOfBounds) (\<lambda>_. give sent)))))"

text \<open>The read fills \<open>buffer\<close> and updates the \<open>Timeout\<close> object.\<close>

definition raw_read :: "u8 list \<Rightarrow> (int \<times> u8 list) java" where
  "raw_read buffer =
     seq (fetch raw_socket) (\<lambda>st.
     seq (fetch timer) (\<lambda>t.
     seq (fetch reads) (\<lambda>rounds.
     seq (native (java_read st True buffer (Some t) rounds)) (\<lambda>r.
     seq (modify (\<lambda>s. s\<lparr>timer := the (jr_timeout r), reads := jr_rounds r\<rparr>)) (\<lambda>_.
     seq (pending (jr_pending r) ArrayIndexOutOfBounds) (\<lambda>_. give (jr_len r, jr_array r)))))))"

text \<open>
  The address getters return an array or a \<open>null\<close> reference; the native method of \<open>getIPv6\<close> never
  returns \<open>null\<close> (\<open>java_ip6_not_null\<close>), so the place where the reference would be used does not
  matter.
\<close>

definition getIP :: "u8 list option java" where
  "getIP = seq (fetch raw_socket) (\<lambda>st. native (java_ip st))"

definition getMac :: "u8 list option java" where
  "getMac = seq (fetch raw_socket) (\<lambda>st. native (java_mac st))"

lemma java_ip6_not_null: "java_ip6 st \<noteq> Return None"
  by (cases "set_region (zeros 16) 0 16 (grnvs_get_ip6addr st)") (auto simp: java_ip6_def split: prod.splits)

definition getIPv6 :: "u8 list java" where
  "getIPv6 = seq (fetch raw_socket) (\<lambda>st. seq (native (java_ip6 st)) (\<lambda>a.
     case a of None \<Rightarrow> throw NullPointer | Some a \<Rightarrow> give a))"

definition raw_close :: "os_java \<Rightarrow> int java" where
  "raw_close os = seq (fetch raw_socket) (\<lambda>st. let (r, st) = java_close st (oj_close os) in
     seq (modify (\<lambda>s. s\<lparr>raw_socket := st\<rparr>)) (\<lambda>_. give r))"

text \<open>What the garbage collector calls on an object that is no longer used.\<close>

definition finalize :: "os_java \<Rightarrow> unit java" where
  "finalize os = seq (raw_close os) (\<lambda>_. give ())"

text \<open>\<open>None\<close> is a \<open>null\<close> reference. The text of the dump goes to standard error.\<close>

definition raw_hexdump :: "os_java \<Rightarrow> u8 list \<Rightarrow> int \<Rightarrow> unit java" where
  "raw_hexdump os buffer n =
     seq (fetch dump_text) (\<lambda>d.
     seq (native (java_hexdump d (oj_buf os) buffer n)) (\<lambda>(d, exc).
     seq (modify (\<lambda>s. s\<lparr>dump_text := d\<rparr>)) (\<lambda>_. pending exc ArrayIndexOutOfBounds)))"

definition raw_checksum ::
  "os_java \<Rightarrow> u8 list option \<Rightarrow> int \<Rightarrow> u8 list option \<Rightarrow> int \<Rightarrow> int \<Rightarrow> u8 list java" where
  "raw_checksum os hdr hdrOffset payload payloadOffset payloadLength =
     (case hdr of None \<Rightarrow> throw NullPointer | Some hdr \<Rightarrow>
      case payload of None \<Rightarrow> throw NullPointer | Some payload \<Rightarrow>
        if hdrOffset < 0 then throw IllegalArgument
        else if payloadOffset < 0 then throw IllegalArgument
        else if payloadLength < 0 then throw IllegalArgument
        else if payloadLength > 2048 then throw IllegalArgument
        else if int (length hdr) - hdrOffset < 40 then throw IllegalArgument
        else if int (length payload) - payloadOffset < payloadLength then throw IllegalArgument
        else seq (native (java_checksum (oj_big os) (oj_hdr os) (oj_payload os)
               hdr hdrOffset payload payloadOffset payloadLength)) (\<lambda>(c, exc).
             seq (pending exc ArrayIndexOutOfBounds) (\<lambda>_. give c)))"

text \<open>The methods of \<open>Timeout\<close> are the accesses to \<open>timer\<close>.\<close>

definition getTimeout :: "int java" where
  "getTimeout = fetch timer"

definition setTimeout :: "int \<Rightarrow> unit java" where
  "setTimeout t = modify (\<lambda>s. s\<lparr>timer := t\<rparr>)"

section \<open>Assignment3: the received packets\<close>

definition versionIpv6 :: u8 where "versionIpv6 = 0x60"
definition icmpLength :: u16 where "icmpLength = 8"
definition icmpNH :: u8 where "icmpNH = 0x3A"
definition icmpEchoRequ :: u8 where "icmpEchoRequ = 128"
definition icmpEchoRep :: u8 where "icmpEchoRep = 129"
definition icmpTimeEx :: u8 where "icmpTimeEx = 3"
definition icmpDestUnreach :: u8 where "icmpDestUnreach = 1"
definition icmpID :: u8 where "icmpID = 0xAB"

definition handleIcmpTimeEx :: "u8 list \<Rightarrow> int \<Rightarrow> string \<Rightarrow> bool java" where
  "handleIcmpTimeEx buffer pos host =
     seq (elem buffer (pos + 1)) (\<lambda>code.
     if code \<noteq> 0 \<or> code \<noteq> 1 then give False
     else seq (print (''  '' @ host)) (\<lambda>_. give True))"

definition handleIcmpDestUnreach :: "u8 list \<Rightarrow> int \<Rightarrow> string \<Rightarrow> bool java" where
  "handleIcmpDestUnreach buffer pos host =
     seq (elem buffer (pos + 1)) (\<lambda>code.
     if code \<noteq> 0 \<or> code \<noteq> 3 \<or> code \<noteq> 4 then give False
     else seq (modify (\<lambda>s. s\<lparr>stopProbes := True\<rparr>)) (\<lambda>_.
       seq (print (''  '' @ host @ ''!X'')) (\<lambda>_. give True)))"

definition handleIcmpEchoRep :: "u8 list \<Rightarrow> int \<Rightarrow> string \<Rightarrow> bool java" where
  "handleIcmpEchoRep buffer pos host =
     seq (elem buffer (pos + 1)) (\<lambda>code.
     if code \<noteq> 0 then give False
     else seq (elem buffer (pos + 4)) (\<lambda>id_hi.
       seq (if id_hi \<noteq> icmpID then give True
            else seq (elem buffer (pos + 5)) (\<lambda>id_lo. give (id_lo \<noteq> 0))) (\<lambda>other_id.
       if other_id then give False
       else seq (print (''  '' @ host)) (\<lambda>_.
         seq (modify (\<lambda>s. s\<lparr>stopProbes := True\<rparr>)) (\<lambda>_. give True)))))"

text \<open>
  \<open>checkIcmpProperties\<close> clears the checksum field of the array it is given; the second component
  is the array afterwards.
\<close>

definition checkIcmpProperties :: "os_java \<Rightarrow> u8 list \<Rightarrow> int \<Rightarrow> (bool \<times> u8 list) java" where
  "checkIcmpProperties os buffer pos =
     seq (arraycopy buffer (pos + 2) (zeros 2) 0 2) (\<lambda>stored.
     seq (set_elem buffer (pos + 2) 0) (\<lambda>buffer.
     seq (set_elem buffer (pos + 3) 0) (\<lambda>buffer.
     seq (raw_checksum os (Some buffer) 0 (Some buffer) pos (int (length buffer) - 40)) (\<lambda>cksum.
     seq (elem cksum 0) (\<lambda>c0.
     seq (elem stored 0) (\<lambda>s0.
     if c0 \<noteq> s0 then give (False, buffer)
     else seq (elem cksum 1) (\<lambda>c1. seq (elem stored 1) (\<lambda>s1. give (\<not> c1 \<noteq> s1, buffer)))))))))"

text \<open>
  The loop over the extension headers; \<open>pos\<close> and \<open>skip\<close> are the variables of the code. \<open>pos\<close>
  is an index of the array whenever \<open>skip\<close> is added, and \<open>skip\<close> at most 1024 in absolute value,
  so the additions stay in the range of \<open>int\<close>.
\<close>

definition is_extension :: "u8 \<Rightarrow> bool" where
  "is_extension b \<longleftrightarrow> b = 0x00 \<or> b = 0x2B \<or> b = 0x3C"

partial_function (option) skip_headers :: "u8 list \<Rightarrow> int \<Rightarrow> int \<Rightarrow> jvm \<Rightarrow> (int \<times> int) jrun option" where
  "skip_headers buffer pos skip s =
     seq (elem buffer pos) (\<lambda>b.
     if is_extension b then
       seq (elem buffer (pos + skip + 1)) (\<lambda>l s. skip_headers buffer (pos + skip) (8 + 8 * sint l) s)
     else give (pos, skip)) s"

text \<open>The innermost part of \<open>checkMessage\<close>: an ICMPv6 message at \<open>pos\<close>.\<close>

definition icmp_message :: "os_java \<Rightarrow> u8 list \<Rightarrow> int \<Rightarrow> bool java" where
  "icmp_message os buffer pos =
     seq (checkIcmpProperties os buffer pos) (\<lambda>(relevant, buffer).
     if \<not> relevant then give False
     else
     seq (arraycopy buffer 8 (zeros 16) 0 16) (\<lambda>src.
     seq (getHostAddress src) (\<lambda>host.
     seq (elem buffer pos) (\<lambda>b.
     if b = icmpTimeEx then handleIcmpTimeEx buffer pos host
     else if b = icmpDestUnreach then handleIcmpDestUnreach buffer pos host
     else if b = icmpEchoRep then handleIcmpEchoRep buffer pos host
     else give False))))"

definition checkMessage :: "os_java \<Rightarrow> u8 list \<Rightarrow> bool java" where
  "checkMessage os buffer =
     seq (elem buffer 0) (\<lambda>b.
     if b \<noteq> 0x60 then give False
     else
     seq (arraycopy buffer 24 (zeros 16) 0 16) (\<lambda>rec.
     seq (getHostAddress rec) (\<lambda>receiver.
     seq (fetch myIP) (\<lambda>my_ip.
     seq (getHostAddress my_ip) (\<lambda>me.
     if me \<noteq> receiver then give False
     else
     seq (skip_headers buffer 6 34) (\<lambda>(pos, skip).
     seq (elem buffer pos) (\<lambda>b.
     if b \<noteq> icmpNH then give False
     else icmp_message os buffer (pos + skip))))))))"

section \<open>Assignment3: the probes\<close>

text \<open>\<open>ByteBuffer.putChar\<close> in big-endian order.\<close>

definition put_char :: "u16 \<Rightarrow> u8 list" where
  "put_char c = [of_nat (unat c div 256), of_nat (unat c)]"

text \<open>
  One probe; the two arrays \<open>ipHeader\<close> and \<open>payload\<close> of \<open>run\<close> are filled anew each time, what
  the program does not set stays as it was.
\<close>

definition build_probe ::
  "os_java \<Rightarrow> int \<Rightarrow> u8 list \<Rightarrow> u8 list \<Rightarrow> int \<Rightarrow> u8 list \<Rightarrow> u8 list \<Rightarrow> (u8 list \<times> u8 list \<times> u8 list) java" where
  "build_probe os tmo srcIp dstIp hops ipHeader payload =
     seq (set_elem ipHeader 0 versionIpv6) (\<lambda>ipHeader.
     seq (arraycopy (put_char icmpLength) 0 ipHeader 4 2) (\<lambda>ipHeader.
     seq (set_elem ipHeader 6 icmpNH) (\<lambda>ipHeader.
     seq (set_elem ipHeader 7 (word_of_int hops)) (\<lambda>ipHeader.
     seq (arraycopy srcIp 0 ipHeader 8 16) (\<lambda>ipHeader.
     seq (arraycopy dstIp 0 ipHeader 24 16) (\<lambda>ipHeader.
     seq (set_elem payload 0 icmpEchoRequ) (\<lambda>payload.
     seq (set_elem payload 1 0) (\<lambda>payload.
     seq (set_elem payload 4 icmpID) (\<lambda>payload.
     seq (setTimeout (to_int32 (tmo * 1000))) (\<lambda>_.
     seq (fetch sequenceNumber) (\<lambda>number.
     seq (modify (\<lambda>s. s\<lparr>sequenceNumber := number + 1\<rparr>)) (\<lambda>_.
     seq (arraycopy (put_char number) 0 payload 6 2) (\<lambda>payload.
     seq (arraycopy ipHeader 0 (zeros 1514) 0 40) (\<lambda>buffer.
     seq (arraycopy payload 0 buffer 40 8) (\<lambda>buffer.
     seq (raw_checksum os (Some buffer) 0 (Some buffer) 40 (48 - 40)) (\<lambda>cksum.
     seq (arraycopy cksum 0 buffer 42 2) (\<lambda>buffer.
     give (ipHeader, payload, buffer))))))))))))))))))"

definition send_probe :: "os_java \<Rightarrow> int \<Rightarrow> u8 list \<Rightarrow> unit java" where
  "send_probe os handle buffer =
     seq (raw_write os handle buffer 48) (\<lambda>ret.
     if 0 \<ge> ret then seq (raw_hexdump os buffer 48) (\<lambda>_. system_exit 1) else give ())"

partial_function (option) await_answer :: "os_java \<Rightarrow> u8 list \<Rightarrow> jvm \<Rightarrow> unit jrun option" where
  "await_answer os buffer s =
     seq (raw_read buffer) (\<lambda>(ret, buffer).
     if 0 > ret then seq (raw_hexdump os buffer 48) (\<lambda>_. system_exit 1)
     else if ret = 0 then print ''  *''
     else
       seq (arraycopy buffer 0 (zeros (nat ret)) 0 ret) (\<lambda>resp.
       seq (checkMessage os resp) (\<lambda>answered.
       if answered then give () else await_answer os buffer))) s"

definition attempt ::
  "os_java \<Rightarrow> int \<Rightarrow> int \<Rightarrow> u8 list \<Rightarrow> u8 list \<Rightarrow> int \<Rightarrow> u8 list \<times> u8 list \<Rightarrow> (u8 list \<times> u8 list) java" where
  "attempt os handle tmo srcIp dstIp hops arrays =
     seq (build_probe os tmo srcIp dstIp hops (fst arrays) (snd arrays)) (\<lambda>(ipHeader, payload, buffer).
     seq (send_probe os handle buffer) (\<lambda>_.
     seq (await_answer os buffer) (\<lambda>_. give (ipHeader, payload))))"

partial_function (option) attempt_loop ::
  "(u8 list \<times> u8 list \<Rightarrow> (u8 list \<times> u8 list) java) \<Rightarrow> int \<Rightarrow> int \<Rightarrow> u8 list \<times> u8 list \<Rightarrow> jvm \<Rightarrow> (u8 list \<times> u8 list) jrun option" where
  "attempt_loop probe i attempts arrays s =
     (if i \<le> attempts then
        seq (probe arrays) (\<lambda>arrays. attempt_loop probe (to_int32 (i + 1)) attempts arrays)
      else give arrays) s"

partial_function (option) hop_loop ::
  "os_java \<Rightarrow> int \<Rightarrow> int \<Rightarrow> int \<Rightarrow> int \<Rightarrow> u8 list \<Rightarrow> u8 list \<Rightarrow> int \<Rightarrow> u8 list \<times> u8 list \<Rightarrow> jvm \<Rightarrow> unit jrun option" where
  "hop_loop os handle tmo attempts hopLimit srcIp dstIp hops arrays s =
     (if \<not> stopProbes s \<and> hops \<le> hopLimit then
        seq (print (dec_int hops)) (\<lambda>_.
        seq (attempt_loop (attempt os handle tmo srcIp dstIp hops) 1 attempts arrays) (\<lambda>arrays.
        seq (print [CHR 0x0A]) (\<lambda>_.
        hop_loop os handle tmo attempts hopLimit srcIp dstIp (to_int32 (hops + 1)) arrays))) s
      else give () s)"

definition run_trace :: "os_java \<Rightarrow> int \<Rightarrow> string \<Rightarrow> int \<Rightarrow> int \<Rightarrow> int \<Rightarrow> unit java" where
  "run_trace os handle dst tmo attempts hopLimit =
     (case oj_resolve os dst of
        None \<Rightarrow> throw UnknownHost
      | Some dstIp \<Rightarrow>
          seq getIPv6 (\<lambda>srcIp.
          seq (modify (\<lambda>s. s\<lparr>myIP := srcIp\<rparr>)) (\<lambda>_.
          seq (modify (\<lambda>s. s\<lparr>stopProbes := False\<rparr>)) (\<lambda>_.
          seq (modify (\<lambda>s. s\<lparr>sequenceNumber := 0\<rparr>)) (\<lambda>_.
          seq (setTimeout (to_int32 (tmo * 1000))) (\<lambda>_.
          hop_loop os handle tmo attempts hopLimit srcIp dstIp 1 (zeros 40, zeros 8)))))))"

text \<open>
  \<open>main\<close> catches every exception of the run, prints it on standard error and exits; an exception
  of the constructor of \<open>Arguments\<close> is not caught.
\<close>

definition main_trace :: "os_java \<Rightarrow> string list \<Rightarrow> unit java" where
  "main_trace os argv =
     seq (Arguments argv) (\<lambda>args.
     catching
       (seq (new_raw os (ta_iface args) 2) (\<lambda>sock.
        seq (run_trace os sock (ta_dst args) (ta_timeout args) (ta_attempts args) (ta_hoplimit args)) (\<lambda>_.
        seq (raw_close os) (\<lambda>_. give ()))))
       (\<lambda>e. system_exit 1))"

end
