(* ===== verification/TracePackets.thy ===== *)
theory TracePackets
  imports Trace6
begin

text \<open>
  What the traceroute program makes of one packet: the probes it builds, and how it judges a
  received packet.
\<close>

section \<open>The checksum method\<close>

text \<open>The arrays on the C stack have the sizes the native code declares.\<close>

definition c_stack :: "os_java \<Rightarrow> bool" where
  "c_stack os \<longleftrightarrow> length (oj_buf os) = 1514 \<and> length (oj_hdr os) = 40 \<and> length (oj_payload os) = 2048"

text \<open>The checksum of a payload under a header, as the two bytes in memory.\<close>

definition packet_checksum :: "os_java \<Rightarrow> u8 list \<Rightarrow> u8 list \<Rightarrow> u8 list" where
  "packet_checksum os hdr p = store16 (oj_big os) (the (icmp6_checksum (oj_big os) (ip6_hdr_of hdr) p (length p)))"

lemma length_store16 [simp]: "length (store16 big c) = 2"
  by (simp add: store16_def Let_def)

lemma length_packet_checksum [simp]: "length (packet_checksum os hdr p) = 2"
  by (simp add: packet_checksum_def)

lemma raw_checksum_run:
  assumes "c_stack os"
  shows "raw_checksum os (Some hdr) ho (Some p) po n s = Some
    (if 0 \<le> ho \<and> 0 \<le> po \<and> 0 \<le> n \<and> n \<le> 2048 \<and> ho + 40 \<le> int (length hdr) \<and> po + n \<le> int (length p)
     then Done (packet_checksum os (take 40 (drop (nat ho) hdr)) (take (nat n) (drop (nat po) p))) s
     else Throws IllegalArgument s)"
proof (cases "0 \<le> ho \<and> 0 \<le> po \<and> 0 \<le> n \<and> n \<le> 2048 \<and> ho + 40 \<le> int (length hdr) \<and> po + n \<le> int (length p)")
  case True
  then have ok: "region_ok hdr ho 40" "region_ok p po n" by (simp_all add: region_ok_def)
  have n: "nat n \<le> 2048" using True by linarith
  have len: "nat n \<le> length (drop (nat po) p)" using True by auto
  let ?q = "take (nat n) (drop (nat po) p)"
  have "get_region hdr ho 40 (oj_hdr os) = Return (take 40 (drop (nat ho) hdr), False)"
    using get_region_inside [OF ok(1), of "oj_hdr os"] assms by (simp add: c_stack_def)
  moreover have "get_region p po n (oj_payload os) = Return (?q @ drop (nat n) (oj_payload os), False)"
    using get_region_inside [OF ok(2), of "oj_payload os"] assms n by (simp add: c_stack_def)
  moreover have "size_of_int n = nat n" using True by (simp add: size_of_int_id)
  moreover have "icmp6_checksum big h (?q @ r) (nat n) = icmp6_checksum big h ?q (nat n)" for big h r
    using len by (rule icmp6_checksum_prefix)
  moreover have "icmp6_checksum big h ?q (nat n) \<noteq> None" for big h
    using len by (simp add: icmp6_checksum_def)
  moreover have "length ?q = nat n" using len by simp
  ultimately have "java_checksum (oj_big os) (oj_hdr os) (oj_payload os) hdr ho p po n =
      Return (packet_checksum os (take 40 (drop (nat ho) hdr)) ?q, False)"
    by (auto simp: java_checksum_def packet_checksum_def split: option.split)
  with True show ?thesis by (simp add: raw_checksum_def jrun_eval)
next
  case False
  then show ?thesis by (auto simp: raw_checksum_def jrun_eval)
qed

section \<open>Probes\<close>

text \<open>The probe with hop limit \<open>h\<close> and sequence number \<open>n\<close>.\<close>

definition probe_header :: "u8 list \<Rightarrow> u8 list \<Rightarrow> int \<Rightarrow> u8 list" where
  "probe_header src dst h = [0x60, 0, 0, 0, 0, 8, 0x3A, word_of_int h] @ src @ dst"

definition probe_icmp :: "u8 list \<Rightarrow> u16 \<Rightarrow> u8 list" where
  "probe_icmp c n = [128, 0] @ c @ [0xAB, 0] @ put_char n"

definition probe :: "os_java \<Rightarrow> u8 list \<Rightarrow> u8 list \<Rightarrow> int \<Rightarrow> u16 \<Rightarrow> u8 list" where
  "probe os src dst h n = (let hdr = probe_header src dst h
     in hdr @ probe_icmp (packet_checksum os hdr (probe_icmp [0, 0] n)) n)"

text \<open>The arrays of \<open>run\<close>: what the program never writes in them is 0.\<close>

definition probe_arrays :: "u8 list \<times> u8 list \<Rightarrow> bool" where
  "probe_arrays a \<longleftrightarrow> length (fst a) = 40 \<and> length (snd a) = 8 \<and> take 3 (drop 1 (fst a)) = [0, 0, 0] \<and>
     take 2 (drop 2 (snd a)) = [0, 0] \<and> snd a ! 5 = 0"

lemma probe_arrays_zeros: "probe_arrays (zeros 40, zeros 8)"
  by (simp add: probe_arrays_def) (simp add: eval_nat_numeral)

lemma length_put_char [simp]: "length (put_char n) = 2"
  by (simp add: put_char_def)

lemma arraycopy_run:
  "0 \<le> i \<Longrightarrow> 0 \<le> j \<Longrightarrow> 0 \<le> n \<Longrightarrow> i + n \<le> int (length src) \<Longrightarrow> j + n \<le> int (length dst) \<Longrightarrow>
    arraycopy src i dst j n = give (take (nat j) dst @ take (nat n) (drop (nat i) src) @ drop (nat j + nat n) dst)"
  by (simp add: arraycopy_def)

lemma set_elem_run:
  "0 \<le> i \<Longrightarrow> i < int (length a) \<Longrightarrow> set_elem a i b = give (a[nat i := b])"
  by (simp add: set_elem_def)

lemma list_8: "length xs = 8 \<Longrightarrow> \<exists>a b c d e f g h. xs = [a, b, c, d, e, f, g, h]"
  by (auto simp: numeral_eq_Suc length_Suc_conv)

lemma list_split_8: "8 \<le> length xs \<Longrightarrow> \<exists>a b c d e f g h r. xs = a # b # c # d # e # f # g # h # r"
  by (auto simp: numeral_eq_Suc Suc_le_length_iff)

lemma seq_setTimeout [jrun_eval]: "seq (setTimeout t) f s = f () (s\<lparr>timer := t\<rparr>)"
  by (simp add: setTimeout_def jrun_eval)

lemma put_char_length: "put_char icmpLength = [0, 8]"
  by (simp add: put_char_def icmpLength_def)

lemma list_2: "length xs = 2 \<Longrightarrow> \<exists>a b. xs = [a, b]"
  by (auto simp: numeral_eq_Suc length_Suc_conv)

lemma build_probe_run:
  assumes "c_stack os" and "length src = 16" and "length dst = 16" and "probe_arrays (hdr, icmp)"
  shows "\<exists>icmp'. build_probe os tmo src dst h hdr icmp s = Some (Done
      (probe_header src dst h, icmp', probe os src dst h (sequenceNumber s) @ zeros 1466)
      (s\<lparr>timer := to_int32 (tmo * 1000), sequenceNumber := sequenceNumber s + 1\<rparr>)) \<and>
    probe_arrays (probe_header src dst h, icmp')"
proof -
  obtain a0 a1 a2 a3 a4 a5 a6 a7 hr where hdr: "hdr = a0 # a1 # a2 # a3 # a4 # a5 # a6 # a7 # hr"
    using list_split_8 [of hdr] assms(4) by (auto simp: probe_arrays_def)
  have z: "a1 = 0" "a2 = 0" "a3 = 0" and hr: "length hr = 32"
    using assms(4) by (auto simp: hdr probe_arrays_def numeral_eq_Suc)
  obtain b0 b1 b2 b3 b4 b5 b6 b7 where icmp: "icmp = [b0, b1, b2, b3, b4, b5, b6, b7]"
    using list_8 [of icmp] assms(4) by (auto simp: probe_arrays_def)
  have zi: "b2 = 0" "b3 = 0" "b5 = 0"
    using assms(4) by (auto simp: icmp probe_arrays_def numeral_eq_Suc)
  obtain p q where number: "put_char (sequenceNumber s) = [p, q]"
    using list_2 [OF length_put_char] by blast
  have hdr': "probe_header src dst h = 0x60 # 0 # 0 # 0 # 0 # 8 # 0x3A # word_of_int h # src @ dst"
    by (simp add: probe_header_def)
  obtain c d where sum: "packet_checksum os (probe_header src dst h) [128, 0, 0, 0, 0xAB, 0, p, q] = [c, d]"
    using list_2 [OF length_packet_checksum] by blast
  show ?thesis
    using assms(1,2,3) hr sum
    by (simp add: build_probe_def hdr icmp z zi set_elem_run arraycopy_run jrun_eval raw_checksum_run seq_run
        number put_char_length versionIpv6_def icmpNH_def icmpEchoRequ_def icmpID_def hdr' probe_def
        probe_icmp_def probe_arrays_def Let_def)
qed

section \<open>Received packets\<close>

definition for_me :: "u8 list \<Rightarrow> u8 list \<Rightarrow> bool" where
  "for_me my b \<longleftrightarrow> length my = 16 \<and> 40 \<le> length b \<and> b ! 0 = 0x60 \<and> take 16 (drop 24 b) = my"

definition cleared :: "u8 list \<Rightarrow> u8 list" where
  "cleared b = b[42 := 0, 43 := 0]"

text \<open>The checksum of the message behind the header is the one in its field.\<close>

definition sum_ok :: "os_java \<Rightarrow> u8 list \<Rightarrow> bool" where
  "sum_ok os b \<longleftrightarrow> take 2 (drop 42 b) = packet_checksum os (take 40 b) (drop 40 (cleared b))"

definition echo_reply :: "u8 list \<Rightarrow> bool" where
  "echo_reply b \<longleftrightarrow> b ! 40 = 129 \<and> b ! 41 = 0 \<and> b ! 44 = 0xAB \<and> b ! 45 = 0"

lemma skip_headers_run:
  "skip_headers b pos k s =
    (if 0 \<le> pos \<and> pos < int (length b) then
       if is_extension (b ! nat pos) then
         if 0 \<le> pos + k + 1 \<and> pos + k + 1 < int (length b) then
           skip_headers b (pos + k) (8 + 8 * sint (b ! nat (pos + k + 1))) s
         else Some (Throws ArrayIndexOutOfBounds s)
       else Some (Done (pos, k) s)
     else Some (Throws ArrayIndexOutOfBounds s))"
  by (subst skip_headers.simps) (simp add: elem_def jrun_eval)

lemma skip_headers_stop:
  "0 \<le> pos \<Longrightarrow> pos < int (length b) \<Longrightarrow> \<not> is_extension (b ! nat pos) \<Longrightarrow>
    skip_headers b pos k s = Some (Done (pos, k) s)"
  by (subst skip_headers_run) simp

lemma checkMessage_not_ipv6:
  "b \<noteq> [] \<Longrightarrow> b ! 0 \<noteq> 0x60 \<Longrightarrow> checkMessage os b s = Some (Done False s)"
  by (simp add: checkMessage_def jrun_eval)

lemma checkMessage_short:
  "b \<noteq> [] \<Longrightarrow> b ! 0 = 0x60 \<Longrightarrow> length b < 40 \<Longrightarrow> checkMessage os b s = Some (Throws ArrayIndexOutOfBounds s)"
  by (simp add: checkMessage_def arraycopy_def jrun_eval)

lemma checkMessage_receiver:
  assumes "b ! 0 = 0x60" and "40 \<le> length b" and "length (myIP s) = 16"
  shows "checkMessage os b s =
    (if take 16 (drop 24 b) \<noteq> myIP s then Some (Done False s)
     else seq (skip_headers b 6 34) (\<lambda>(pos, k). seq (elem b pos) (\<lambda>x.
       if x \<noteq> icmpNH then give False else icmp_message os b (pos + k))) s)"
proof -
  have "length (take 16 (drop 24 b)) = 16" using assms(2) by simp
  then have "host_text (myIP s) \<noteq> host_text (take 16 (drop 24 b)) \<longleftrightarrow> take 16 (drop 24 b) \<noteq> myIP s"
    using host_text_inj [OF assms(3)] by auto
  moreover have "b \<noteq> []" using assms(2) by auto
  ultimately show ?thesis
    using assms by (simp add: checkMessage_def arraycopy_run jrun_eval)
qed

lemma checkMessage_next_header:
  assumes "for_me (myIP s) b" and "\<not> is_extension (b ! 6)"
  shows "checkMessage os b s = (if b ! 6 = 0x3A then icmp_message os b 40 s else Some (Done False s))"
proof -
  have "skip_headers b 6 34 s = Some (Done (6, 34) s)"
    using assms by (intro skip_headers_stop) (auto simp: for_me_def)
  moreover have "6 < length b" using assms(1) by (simp add: for_me_def)
  ultimately show ?thesis
    using assms by (simp add: for_me_def checkMessage_receiver seq_run jrun_eval icmpNH_def)
qed

section \<open>Messages behind the header\<close>

lemma checkIcmpProperties_short:
  "length b < 44 \<Longrightarrow> checkIcmpProperties os b 40 s = Some (Throws ArrayIndexOutOfBounds s)"
  by (simp add: checkIcmpProperties_def arraycopy_def jrun_eval)

lemma checkIcmpProperties_run:
  assumes "c_stack os" and "44 \<le> length b" and "length b \<le> 1514"
  shows "checkIcmpProperties os b 40 s = Some (Done (sum_ok os b, cleared b) s)"
proof -
  obtain x y where xy: "take 2 (drop 42 b) = [x, y]"
    using list_2 [of "take 2 (drop 42 b)"] assms(2) by auto
  obtain c d where cd: "packet_checksum os (take 40 b) (drop 40 (cleared b)) = [c, d]"
    using list_2 [OF length_packet_checksum] by blast
  have len: "length (cleared b) = length b" by (simp add: cleared_def)
  have hdr: "take 40 (cleared b) = take 40 b" by (simp add: cleared_def)
  have "arraycopy b 42 (zeros 2) 0 2 = give [x, y]"
    using assms(2) xy by (simp add: arraycopy_run)
  moreover have "raw_checksum os (Some (cleared b)) 0 (Some (cleared b)) 40 (int (length b) - 40) t =
      Some (Done [c, d] t)" for t
    using assms len hdr cd by (simp add: raw_checksum_run)
  ultimately show ?thesis
    using assms(2) xy cd len
    by (auto simp: checkIcmpProperties_def set_elem_run jrun_eval seq_run sum_ok_def elem_def simp flip: cleared_def)
qed

lemma cleared_nth: "n \<notin> {42, 43} \<Longrightarrow> cleared b ! n = b ! n"
  by (auto simp: cleared_def)

lemma cleared_source: "take 16 (drop 8 (cleared b)) = take 16 (drop 8 b)"
  by (simp add: cleared_def drop_update_swap)

text \<open>What remains after a good checksum: the type decides.\<close>

lemma icmp_message_run:
  assumes "c_stack os" and "44 \<le> length b" and "length b \<le> 1514"
  shows "icmp_message os b 40 s =
    (if \<not> sum_ok os b \<or> b ! 40 \<noteq> 129 \<or> b ! 41 \<noteq> 0 then Some (Done False s)
     else if length b = 44 then Some (Throws ArrayIndexOutOfBounds s)
     else if b ! 44 \<noteq> 0xAB then Some (Done False s)
     else if length b = 45 then Some (Throws ArrayIndexOutOfBounds s)
     else if b ! 45 \<noteq> 0 then Some (Done False s)
     else Some (Done True (s\<lparr>stdout := stdout s @ ''  '' @ host_text (take 16 (drop 8 b)), stopProbes := True\<rparr>)))"
proof -
  have "length (take 16 (drop 8 b)) = 16" using assms(2) by simp
  then have host: "getHostAddress (take 16 (drop 8 b)) = give (host_text (take 16 (drop 8 b)))" by simp
  have len: "length (cleared b) = length b" by (simp add: cleared_def)
  show ?thesis
    using assms host len
    by (auto simp: icmp_message_def seq_run checkIcmpProperties_run arraycopy_run jrun_eval cleared_source cleared_nth
        handleIcmpTimeEx_def handleIcmpDestUnreach_def handleIcmpEchoRep_def
        icmpTimeEx_def icmpDestUnreach_def icmpEchoRep_def icmpID_def)
qed

section \<open>Extension headers\<close>

text \<open>
  A chain of extension headers, each with its type and what follows its two first bytes; the
  length byte counts units of eight bytes beyond the first.
\<close>

fun first_type :: "(u8 \<times> u8 list) list \<Rightarrow> u8" where
  "first_type [] = 0x3A"
| "first_type ((t, body) # es) = t"

fun ext_bytes :: "(u8 \<times> u8 list) list \<Rightarrow> u8 list" where
  "ext_bytes [] = []"
| "ext_bytes ((t, body) # es) = first_type es # of_nat (length body div 8) # body @ ext_bytes es"

definition wf_ext :: "u8 \<times> u8 list \<Rightarrow> bool" where
  "wf_ext e \<longleftrightarrow> is_extension (fst e) \<and> length (snd e) mod 8 = 6 \<and> length (snd e) < 1024"

lemma first_type_extension: "\<forall>e \<in> set es. wf_ext e \<Longrightarrow> es \<noteq> [] \<Longrightarrow> is_extension (first_type es)"
  by (cases es) (auto simp: wf_ext_def)

lemma not_extension_icmp: "\<not> is_extension 0x3A"
  by (simp add: is_extension_def)

lemma sint_small: "n < 128 \<Longrightarrow> sint (of_nat n :: u8) = int n"
  by (simp add: signed_of_nat signed_take_bit_int_eq_self)

lemma ext_length:
  assumes "wf_ext (t, body)"
  shows "8 + 8 * sint (of_nat (length body div 8) :: u8) = int (length body) + 2"
proof -
  have l: "length body div 8 * 8 + 6 = length body" "length body div 8 < 128"
    using assms div_mult_mod_eq [of "length body" 8] by (auto simp: wf_ext_def less_mult_imp_div_less)
  then have "8 * int (length body div 8) + 6 = int (length body)" by linarith
  with l(2) show ?thesis by (simp add: sint_small)
qed

lemma skip_headers_chain:
  assumes "b = pre @ ext_bytes es @ rest" and "\<forall>e \<in> set es. wf_ext e" and "pos + k = int (length pre)"
    and "0 \<le> pos" and "pos < int (length pre)" and "b ! nat pos = first_type es"
  shows "\<exists>pos' k'. skip_headers b pos k s = Some (Done (pos', k') s) \<and>
    pos' + k' = int (length pre + length (ext_bytes es)) \<and> 0 \<le> pos' \<and> pos' < int (length b) \<and> b ! nat pos' = 0x3A"
  using assms
proof (induction es arbitrary: pre pos k)
  case Nil
  then show ?case
    using skip_headers_stop [of pos b k s] not_extension_icmp by auto
next
  case (Cons e es)
  obtain t body where e: "e = (t, body)" by (cases e)
  let ?l = "of_nat (length body div 8) :: u8"
  define skip where "skip = 8 + 8 * sint ?l"
  let ?pre = "pre @ first_type es # ?l # body"
  have b: "b = ?pre @ ext_bytes es @ rest" using Cons.prems(1) e by simp
  have wf: "wf_ext (t, body)" "\<forall>e \<in> set es. wf_ext e" using Cons.prems(2) e by auto
  have "is_extension (b ! nat pos)" using Cons.prems(6) wf(1) e by (simp add: wf_ext_def)
  moreover have l: "b ! nat (int (length pre) + 1) = ?l" "int (length pre) + 1 < int (length b)"
    by (simp_all add: b nat_add_distrib nth_append)
  ultimately have step: "skip_headers b pos k s = skip_headers b (int (length pre)) skip s"
    using Cons.prems(3,4,5) by (subst skip_headers_run) (simp add: skip_def)
  have "b ! nat (int (length pre)) = first_type es" by (simp add: b nth_append)
  from Cons.IH [OF b wf(2) _ _ _ this, of skip] show ?case
    using ext_length [OF wf(1)] by (simp add: step e flip: skip_def) (auto simp: algebra_simps)
qed

lemma skip_headers_endless:
  assumes "skip_headers b pos k s = Some y"
  shows "\<not> (0 \<le> pos \<and> pos + 1 < int (length b) \<and> is_extension (b ! nat pos) \<and> b ! nat (pos + 1) = 0xFF \<and> k = 0)"
  using assms
proof (rule skip_headers.raw_induct [rotated])
  fix loop b pos k s y
  assume IH: "\<And>b pos k s y. loop b pos k s = Some y \<Longrightarrow>
      \<not> (0 \<le> pos \<and> pos + 1 < int (length b) \<and> is_extension (b ! nat pos) \<and> b ! nat (pos + 1) = 0xFF \<and> k = 0)"
    and body: "seq (elem b pos) (\<lambda>x. if is_extension x
       then seq (elem b (pos + k + 1)) (\<lambda>l s. loop b (pos + k) (8 + 8 * sint l) s) else give (pos, k)) s = Some y"
  show "\<not> (0 \<le> pos \<and> pos + 1 < int (length b) \<and> is_extension (b ! nat pos) \<and> b ! nat (pos + 1) = 0xFF \<and> k = 0)"
  proof
    assume stuck: "0 \<le> pos \<and> pos + 1 < int (length b) \<and> is_extension (b ! nat pos) \<and> b ! nat (pos + 1) = 0xFF \<and> k = 0"
    have "loop b pos 0 s = Some y"
      using body stuck by (simp add: jrun_eval)
    then show False using IH stuck by blast
  qed
qed

section \<open>Answers\<close>

text \<open>The echo reply to the program from the host \<open>src\<close>, with any sequence number and data.\<close>

definition answer :: "os_java \<Rightarrow> u8 list \<Rightarrow> u8 list \<Rightarrow> u8 list \<Rightarrow> u8 list" where
  "answer os src my d = (let hdr = [0x60, 0, 0, 0, 0, of_nat (6 + length d), 0x3A, 64] @ src @ my
     in hdr @ [129, 0] @ packet_checksum os hdr ([129, 0, 0, 0, 0xAB, 0] @ d) @ [0xAB, 0] @ d)"

lemma answer_facts:
  assumes "length src = 16" and "length my = 16"
  shows "for_me my (answer os src my d)" "answer os src my d ! 6 = 0x3A" "sum_ok os (answer os src my d)"
    "echo_reply (answer os src my d)" "take 16 (drop 8 (answer os src my d)) = src"
    "length (answer os src my d) = 46 + length d"
proof -
  define hdr where "hdr = [0x60, 0, 0, 0, 0, of_nat (6 + length d), 0x3A, 64] @ src @ my"
  have hdr40: "length hdr = 40" using assms by (simp add: hdr_def)
  obtain x y where c: "packet_checksum os hdr ([129, 0, 0, 0, 0xAB, 0] @ d) = [x, y]"
    using list_2 [OF length_packet_checksum] by blast
  have a: "answer os src my d = hdr @ [129, 0, x, y, 0xAB, 0] @ d"
    using c unfolding answer_def Let_def hdr_def [symmetric] by simp
  have "drop 40 (cleared (answer os src my d)) = [129, 0, 0, 0, 0xAB, 0] @ d"
    by (simp add: cleared_def a hdr40 list_update_append)
  then show "sum_ok os (answer os src my d)"
    using c by (simp add: sum_ok_def a hdr40)
  show "echo_reply (answer os src my d)" by (simp add: echo_reply_def a hdr40 nth_append)
  show "for_me my (answer os src my d)" "answer os src my d ! 6 = 0x3A" "take 16 (drop 8 (answer os src my d)) = src"
    "length (answer os src my d) = 46 + length d"
    using assms by (simp_all add: for_me_def a hdr_def)
qed

definition example_host :: "u8 list" where
  "example_host = [0x20, 0, 0, 0, 0, 0, 0, 0, 0, 0, 0, 0, 0, 0, 0, 1]"

lemma example_host_text: "host_text example_host = ''2000:0:0:0:0:0:0:1''"
  by (simp add: host_text_def ipv4_mapped_def ipv6_text_def example_host_def hex.simps hex_char_def)

definition example_java :: os_java where
  "example_java = \<lparr>oj_open = example_os, oj_close = 0,
     oj_resolve = (\<lambda>n. if n = ''host'' then Some example_host else None), oj_big = False,
     oj_buf = zeros 1514, oj_hdr = zeros 40, oj_payload = zeros 2048\<rparr>"

definition example_jvm :: jvm where
  "example_jvm = (jvm_start [] [])\<lparr>raw_socket := example_state SOCK_DGRAM, myIP := 0x20 # zeros 15\<rparr>"

lemma c_stack_example [simp]: "c_stack example_java"
  by (simp add: c_stack_def example_java_def)

lemma myIP_example [simp]: "myIP example_jvm = 0x20 # zeros 15"
  by (simp add: example_jvm_def)

section \<open>Properties\<close>

text \<open>
  C21. The checks of \<open>GRNVS_RAW.checksum\<close> make the native method safe: whatever the arguments,
  \<open>null\<close> included, the C code never leaves its stack buffers, no exception of the binding is
  left pending and nothing changes; the method returns the checksum of the two slices
  if they lie in the arrays and the payload fits into 2048 bytes, and throws otherwise. (The native
  methods behind \<open>write\<close> and \<open>hexdump\<close> have no such guard.)
\<close>

theorem raw_checksum_guarded:
  assumes "c_stack os"
  shows "raw_checksum os hdr ho payload po n s = Some (case (hdr, payload) of
     (Some h, Some p) \<Rightarrow>
       (if 0 \<le> ho \<and> 0 \<le> po \<and> 0 \<le> n \<and> n \<le> 2048 \<and> ho + 40 \<le> int (length h) \<and> po + n \<le> int (length p)
        then Done (packet_checksum os (take 40 (drop (nat ho) h)) (take (nat n) (drop (nat po) p))) s
        else Throws IllegalArgument s)
   | _ \<Rightarrow> Throws NullPointer s)"
  using raw_checksum_run [OF assms]
  by (cases hdr; cases payload) (auto simp: raw_checksum_def jrun_eval)

theorem raw_checksum_guarded_witness:
  "raw_checksum example_java (Some (zeros 40)) 0 (Some (zeros 8)) 0 9 example_jvm =
    Some (Throws IllegalArgument example_jvm)"
  using raw_checksum_guarded [of example_java "Some (zeros 40)" 0 "Some (zeros 8)" 0 9 example_jvm] by simp

text \<open>
  C14. The probe of a hop: an IPv6 header with payload length 8, next header ICMPv6 and the hop
  number modulo 256 as hop limit, from the program's address to the destination, and an echo
  request with identifier 0xAB00 and the sequence number in network byte order. Its checksum field
  makes the whole packet verify, on hosts of both byte orders. The sequence number counts up and
  wraps after 65535.
\<close>

theorem build_probe_exact:
  assumes "c_stack os" and "length src = 16" and "length dst = 16" and "probe_arrays (hdr, icmp)"
  shows "\<exists>icmp' c d buffer.
    build_probe os tmo src dst h hdr icmp s = Some (Done (take 40 buffer, icmp', buffer)
      (s\<lparr>timer := to_int32 (tmo * 1000), sequenceNumber := sequenceNumber s + 1\<rparr>)) \<and>
    length buffer = 1514 \<and> probe_arrays (take 40 buffer, icmp') \<and>
    take 48 buffer = [0x60, 0, 0, 0, 0, 8, 58, word_of_int h] @ src @ dst @
      [128, 0, c, d, 0xAB, 0] @ put_char (sequenceNumber s) \<and>
    icmp6_checksum (oj_big os) (ip6_hdr_of buffer) (drop 40 buffer) 8 = Some 0"
proof -
  obtain icmp' where b: "build_probe os tmo src dst h hdr icmp s = Some (Done
      (probe_header src dst h, icmp', probe os src dst h (sequenceNumber s) @ zeros 1466)
      (s\<lparr>timer := to_int32 (tmo * 1000), sequenceNumber := sequenceNumber s + 1\<rparr>))"
    "probe_arrays (probe_header src dst h, icmp')"
    using build_probe_run [OF assms] by blast
  let ?h = "probe_header src dst h" and ?n = "sequenceNumber s"
  let ?z = "[128, 0, 0, 0, 0xAB, 0] @ put_char ?n"
  obtain k where k: "icmp6_checksum (oj_big os) (ip6_hdr_of ?h) ?z 8 = Some k"
    using length_put_char [of ?n] by (simp add: icmp6_checksum_def)
  obtain c d where c: "store16 (oj_big os) k = [c, d]" using list_2 [OF length_store16] by blast
  have wf: "wf_hdr (ip6_hdr_of ?h)"
    using assms(2,3) by (simp add: wf_hdr_def ip6_hdr_of_def probe_header_def)
  have p: "probe os src dst h ?n = ?h @ [128, 0, c, d, 0xAB, 0] @ put_char ?n"
    using k c by (simp add: probe_def probe_icmp_def packet_checksum_def)
  have h40: "length ?h = 40" using assms(2,3) by (simp add: probe_header_def)
  have "icmp6_checksum (oj_big os) (ip6_hdr_of ?h) ([128, 0, c, d, 0xAB, 0] @ put_char ?n) 8 = Some 0"
    using stored_checksum_zero [of "ip6_hdr_of ?h" 8 "oj_big os" 128 0 "[0xAB, 0] @ put_char ?n" k] wf k c by simp
  then have "icmp6_checksum (oj_big os) (ip6_hdr_of ?h) (([128, 0, c, d, 0xAB, 0] @ put_char ?n) @ zeros 1466) 8 = Some 0"
    using icmp6_checksum_prefix [of 8 "[128, 0, c, d, 0xAB, 0] @ put_char ?n" "oj_big os" "ip6_hdr_of ?h" "zeros 1466"]
    by simp
  moreover have "ip6_hdr_of (?h @ r) = ip6_hdr_of ?h" for r
    using assms(2,3) by (simp add: ip6_hdr_of_def probe_header_def)
  ultimately show ?thesis
    using b p h40
    by (intro exI [of _ icmp'] exI [of _ c] exI [of _ d] exI [of _ "probe os src dst h ?n @ zeros 1466"])
      (auto simp: probe_header_def)
qed

theorem build_probe_exact_witness:
  "\<exists>r. build_probe example_java 5 (zeros 16) (zeros 16) 3 (zeros 40) (zeros 8) example_jvm = Some (Done r
    (example_jvm\<lparr>timer := 5000, sequenceNumber := 1\<rparr>))"
  using build_probe_exact [of example_java "zeros 16" "zeros 16" "zeros 40" "zeros 8" 5 3 example_jvm]
    probe_arrays_zeros
  by (auto simp: example_jvm_def jvm_start_def)

text \<open>
  C13. How a received packet is judged, the extension headers aside. Packets that do not start with
  0x60 (a traffic class other than 0 included), packets to others, with another protocol or a wrong checksum
  are ignored. An echo reply with code 0 and identifier 0xAB00 is accepted and ends the probing
  after this hop, and the text printed is that of its source address; neither its sequence number
  nor its source is compared with anything. Truncated packets that start with 0x60 and are
  addressed to the program raise an exception.
\<close>

theorem checkMessage_verdict:
  assumes "c_stack os" and "length (myIP s) = 16" and "b \<noteq> []" and "length b \<le> 1514"
  shows "(b ! 0 \<noteq> 0x60 \<longrightarrow> checkMessage os b s = Some (Done False s)) \<and>
    (b ! 0 = 0x60 \<and> length b < 40 \<longrightarrow> checkMessage os b s = Some (Throws ArrayIndexOutOfBounds s)) \<and>
    (b ! 0 = 0x60 \<and> 40 \<le> length b \<and> take 16 (drop 24 b) \<noteq> myIP s \<longrightarrow> checkMessage os b s = Some (Done False s)) \<and>
    (for_me (myIP s) b \<and> \<not> is_extension (b ! 6) \<and> b ! 6 \<noteq> 58 \<longrightarrow> checkMessage os b s = Some (Done False s)) \<and>
    (for_me (myIP s) b \<and> b ! 6 = 58 \<and> length b < 44 \<longrightarrow> checkMessage os b s = Some (Throws ArrayIndexOutOfBounds s)) \<and>
    (for_me (myIP s) b \<and> b ! 6 = 58 \<and> 46 \<le> length b \<and> \<not> (sum_ok os b \<and> echo_reply b) \<longrightarrow>
      checkMessage os b s = Some (Done False s)) \<and>
    (for_me (myIP s) b \<and> b ! 6 = 58 \<and> 46 \<le> length b \<and> sum_ok os b \<and> echo_reply b \<longrightarrow>
      checkMessage os b s = Some (Done True
        (s\<lparr>stdout := stdout s @ ''  '' @ host_text (take 16 (drop 8 b)), stopProbes := True\<rparr>)))"
proof (intro conjI impI)
  have icmp: "checkMessage os b s = icmp_message os b 40 s" if "for_me (myIP s) b" "b ! 6 = 58"
    using checkMessage_next_header [of s b os] that not_extension_icmp by simp
  show "checkMessage os b s = Some (Done False s)" if "b ! 0 \<noteq> 0x60"
    using that assms(3) by (rule checkMessage_not_ipv6 [rotated])
  show "checkMessage os b s = Some (Throws ArrayIndexOutOfBounds s)" if "b ! 0 = 0x60 \<and> length b < 40"
    using that assms(3) checkMessage_short by blast
  show "checkMessage os b s = Some (Done False s)"
    if "b ! 0 = 0x60 \<and> 40 \<le> length b \<and> take 16 (drop 24 b) \<noteq> myIP s"
    using that checkMessage_receiver [of b s os] assms(2) by simp
  show "checkMessage os b s = Some (Done False s)"
    if "for_me (myIP s) b \<and> \<not> is_extension (b ! 6) \<and> b ! 6 \<noteq> 58"
    using that checkMessage_next_header [of s b os] by simp
  show "checkMessage os b s = Some (Throws ArrayIndexOutOfBounds s)"
    if "for_me (myIP s) b \<and> b ! 6 = 58 \<and> length b < 44"
    using that icmp checkIcmpProperties_short [of b os s] by (simp add: icmp_message_def seq_run)
  show "checkMessage os b s = Some (Done False s)"
    if h: "for_me (myIP s) b \<and> b ! 6 = 58 \<and> 46 \<le> length b \<and> \<not> (sum_ok os b \<and> echo_reply b)"
    using h icmp icmp_message_run [of os b s] assms(1,4) by (auto simp: echo_reply_def)
  show "checkMessage os b s = Some (Done True
      (s\<lparr>stdout := stdout s @ ''  '' @ host_text (take 16 (drop 8 b)), stopProbes := True\<rparr>))"
    if h: "for_me (myIP s) b \<and> b ! 6 = 58 \<and> 46 \<le> length b \<and> sum_ok os b \<and> echo_reply b"
    using h icmp icmp_message_run [of os b s] assms(1,4) by (auto simp: echo_reply_def)
qed

theorem checkMessage_verdict_witness:
  "checkMessage example_java (answer example_java example_host (0x20 # zeros 15) [0, 0]) example_jvm =
    Some (Done True (example_jvm\<lparr>stdout := ''  2000:0:0:0:0:0:0:1'', stopProbes := True\<rparr>))"
proof -
  let ?b = "answer example_java example_host (0x20 # zeros 15) [0, 0]"
  have f: "for_me (0x20 # zeros 15) ?b" "?b ! 6 = 58" "sum_ok example_java ?b" "echo_reply ?b"
    "take 16 (drop 8 ?b) = example_host" "length ?b = 48"
    using answer_facts [of example_host "0x20 # zeros 15" example_java "[0, 0]"] by (simp_all add: example_host_def)
  from f(6) have "?b \<noteq> []" by (metis list.size(3) zero_neq_numeral)
  with f show ?thesis
    using checkMessage_verdict [of example_java example_jvm ?b]
    by (simp add: example_host_text) (simp add: example_jvm_def jvm_start_def)
qed

text \<open>
  C17. The error messages that traceroute lives on are never accepted: their handlers ask for a code
  that differs from 0 or from 1, which every code does. So a Time Exceeded or Destination Unreachable
  message, with a valid checksum and whatever code, leaves the program as it was: the routers
  on the way are never printed, the mark \<open>!X\<close> neither, and an unreachable destination does not end
  the probing.
\<close>

theorem checkMessage_ignores_errors:
  assumes "c_stack os" and "for_me (myIP s) b" and "b ! 6 = 58" and "b ! 40 \<in> {3, 1}"
    and "44 \<le> length b" and "length b \<le> 1514"
  shows "checkMessage os b s = Some (Done False s) \<and>
    handleIcmpTimeEx b 40 host s = Some (Done False s) \<and> handleIcmpDestUnreach b 40 host s = Some (Done False s)"
proof (intro conjI)
  have "b ! 40 \<noteq> 129" using assms(4) by auto
  then show "checkMessage os b s = Some (Done False s)"
    using assms checkMessage_next_header [of s b os] icmp_message_run [of os b s]
    by (simp add: not_extension_icmp)
qed (use assms(5) in \<open>simp_all add: handleIcmpTimeEx_def handleIcmpDestUnreach_def jrun_eval\<close>)

theorem checkMessage_ignores_errors_witness:
  "checkMessage example_java ([0x60, 0, 0, 0, 0, 8, 58, 64] @ example_host @ (0x20 # zeros 15) @ [3, 0, 0, 0]) example_jvm =
    Some (Done False example_jvm)"
  using checkMessage_ignores_errors [of example_java example_jvm
      "[0x60, 0, 0, 0, 0, 8, 58, 64] @ example_host @ (0x20 # zeros 15) @ [3, 0, 0, 0]"]
  by (simp add: for_me_def example_host_def nth_append)

lemma zeros_6: "zeros 6 = [0, 0, 0, 0, 0, 0]"
  by (simp add: eval_nat_numeral)

text \<open>
  A packet to the program with a well-formed chain of extension headers before its ICMPv6 message:
  the length handed to the checksum is that of everything behind the IPv6 header, which does not fit
  into the array from the position of the message on.
\<close>

lemma checkMessage_extension_throws:
  assumes "c_stack os" and "for_me (myIP s) b" and "b = hdr @ ext_bytes es @ icmp" and "length hdr = 40"
    and "b ! 6 = first_type es" and "es \<noteq> []" and "\<forall>e \<in> set es. wf_ext e" and "4 \<le> length icmp"
  shows "checkMessage os b s = Some (Throws IllegalArgument s)"
proof -
  obtain pos k where skip: "skip_headers b 6 34 s = Some (Done (pos, k) s)"
    and at: "pos + k = int (40 + length (ext_bytes es))" "0 \<le> pos" "pos < int (length b)" "b ! nat pos = 0x3A"
    using skip_headers_chain [OF assms(3,7), where s = s and pos = 6 and k = 34] assms(4,5) by (simp, blast)
  have len: "length b = 40 + length (ext_bytes es) + length icmp" using assms(3,4) by simp
  have ext: "0 < length (ext_bytes es)" using assms(6) by (cases es) auto
  have icmp: "icmp_message os b (int (40 + length (ext_bytes es))) s = Some (Throws IllegalArgument s)"
    using len assms(1,8) ext
    by (auto simp: icmp_message_def checkIcmpProperties_def arraycopy_run set_elem_run jrun_eval raw_checksum_run seq_run)
  have "b ! 0 = 0x60" "40 \<le> length b" "length (myIP s) = 16" "take 16 (drop 24 b) = myIP s"
    using assms(2) by (simp_all add: for_me_def)
  then show ?thesis
    using skip at icmp by (simp add: checkMessage_receiver seq_run jrun_eval icmpNH_def)
qed

text \<open>
  C33. The length of an extension header is read as a signed byte, so 0xFF gives a step of zero: a
  packet to the program with two extension headers whose first has that length keeps it in the
  loop for ever.
\<close>

theorem checkMessage_extension_endless:
  assumes "for_me (myIP s) b" and "42 \<le> length b" and "is_extension (b ! 6)" and "is_extension (b ! 40)"
    and "b ! 41 = 0xFF"
  shows "checkMessage os b s = None"
proof -
  have "skip_headers b 40 0 s = None"
    using skip_headers_endless [of b 40 0 s] assms by (cases "skip_headers b 40 0 s") auto
  moreover have "skip_headers b 6 34 s = skip_headers b 40 0 s"
    using assms(2,3,5) by (subst skip_headers_run) simp
  moreover have "b ! 0 = 0x60" "40 \<le> length b" "length (myIP s) = 16" "take 16 (drop 24 b) = myIP s"
    using assms(1) by (simp_all add: for_me_def)
  ultimately show ?thesis by (simp add: checkMessage_receiver seq_run)
qed

theorem checkMessage_extension_endless_witness:
  "checkMessage example_java ([0x60, 0, 0, 0, 0, 2, 0, 64] @ example_host @ (0x20 # zeros 15) @ [60, 0xFF]) example_jvm = None"
  using checkMessage_extension_endless [of example_jvm
      "[0x60, 0, 0, 0, 0, 2, 0, 64] @ example_host @ (0x20 # zeros 15) @ [60, 0xFF]" example_java]
  by (simp add: for_me_def example_host_def is_extension_def nth_append)

end
