(* ===== verification/TraceRun.thy ===== *)
theory TraceRun
  imports TracePackets
begin

text \<open>
  Whole runs of the traceroute program: what it sends whatever the network does, and what it prints
  when it is answered.
\<close>

section \<open>Parts that send nothing\<close>

text \<open>A part of the program that neither sends nor touches the socket or the sequence number.\<close>

definition quiet :: "'a java \<Rightarrow> bool" where
  "quiet m \<longleftrightarrow> (\<forall>s r. m s = Some r \<longrightarrow> sent_packets (final r) = sent_packets s \<and>
     raw_socket (final r) = raw_socket s \<and> sequenceNumber (final r) = sequenceNumber s)"

named_theorems quiet_intros \<open>which parts send nothing\<close>

lemma quietI:
  "(\<And>s r. m s = Some r \<Longrightarrow> sent_packets (final r) = sent_packets s \<and>
     raw_socket (final r) = raw_socket s \<and> sequenceNumber (final r) = sequenceNumber s) \<Longrightarrow> quiet m"
  by (simp add: quiet_def)

lemma quiet_seq [quiet_intros]:
  assumes "quiet m" and "\<And>x. quiet (f x)"
  shows "quiet (seq m f)"
proof (rule quietI)
  fix s r
  assume "seq m f s = Some r"
  then show "sent_packets (final r) = sent_packets s \<and>
     raw_socket (final r) = raw_socket s \<and> sequenceNumber (final r) = sequenceNumber s"
    using assms unfolding quiet_def seq_def by (cases "m s") (fastforce split: jrun.splits)+
qed

lemma quiet_basic [quiet_intros]:
  "quiet (give x)" "quiet (throw e)" "quiet (system_exit c)" "quiet (print t)" "quiet (fetch g)"
  "quiet (native out)" "quiet (pending exc e)" "quiet (elem a i)" "quiet (set_elem a i b)"
  "quiet (arraycopy src i dst j n)" "quiet (getHostAddress a)"
  by (auto simp: quiet_def jrun_eval native_def pending_def elem_def set_elem_def arraycopy_def
      getHostAddress_def split: outcome.splits if_splits)

lemma quiet_modify [quiet_intros]:
  "(\<And>s. sent_packets (g s) = sent_packets s) \<Longrightarrow> (\<And>s. raw_socket (g s) = raw_socket s) \<Longrightarrow>
    (\<And>s. sequenceNumber (g s) = sequenceNumber s) \<Longrightarrow> quiet (modify g)"
  by (auto simp: quiet_def jrun_eval)

lemma quiet_if [quiet_intros]: "quiet m \<Longrightarrow> quiet n \<Longrightarrow> quiet (if b then m else n)"
  by simp

lemma quiet_prod [quiet_intros]: "(\<And>a b. quiet (f a b)) \<Longrightarrow> quiet (case p of (a, b) \<Rightarrow> f a b)"
  by (cases p) simp

lemma quiet_option [quiet_intros]:
  "quiet m \<Longrightarrow> (\<And>a. quiet (f a)) \<Longrightarrow> quiet (case p of None \<Rightarrow> m | Some a \<Rightarrow> f a)"
  by (cases p) simp_all

lemma quiet_skip_headers [quiet_intros]: "quiet (skip_headers b pos k)"
proof (rule quietI)
  fix s r
  assume "skip_headers b pos k s = Some r"
  then have "final r = s"
  proof (rule skip_headers.raw_induct [rotated])
    fix loop b pos k s r
    assume IH: "\<And>b pos k s r. loop b pos k s = Some r \<Longrightarrow> final r = s"
      and "seq (elem b pos) (\<lambda>x. if is_extension x
        then seq (elem b (pos + k + 1)) (\<lambda>l s. loop b (pos + k) (8 + 8 * sint l) s) else give (pos, k)) s = Some r"
    then show "final r = s"
      by (auto simp: elem_def jrun_eval split: if_splits)
  qed
  then show "sent_packets (final r) = sent_packets s \<and>
     raw_socket (final r) = raw_socket s \<and> sequenceNumber (final r) = sequenceNumber s" by simp
qed

lemma quiet_raw_checksum [quiet_intros]: "quiet (raw_checksum os hdr ho payload po n)"
  unfolding raw_checksum_def by (intro quiet_intros)

lemma quiet_raw_hexdump [quiet_intros]: "quiet (raw_hexdump os b n)"
  unfolding raw_hexdump_def by (intro quiet_intros) simp_all

lemma quiet_raw_read [quiet_intros]: "quiet (raw_read b)"
  unfolding raw_read_def by (intro quiet_intros) simp_all

lemma quiet_icmp_message [quiet_intros]: "quiet (icmp_message os b pos)"
  unfolding icmp_message_def checkIcmpProperties_def handleIcmpTimeEx_def handleIcmpDestUnreach_def
    handleIcmpEchoRep_def
  by (intro quiet_intros) simp_all

lemma quiet_checkMessage [quiet_intros]: "quiet (checkMessage os b)"
  unfolding checkMessage_def by (intro quiet_intros)

lemma quiet_await_answer [quiet_intros]: "quiet (await_answer os b)"
proof (rule quietI)
  fix s r
  assume "await_answer os b s = Some r"
  then show "sent_packets (final r) = sent_packets s \<and>
     raw_socket (final r) = raw_socket s \<and> sequenceNumber (final r) = sequenceNumber s"
  proof (rule await_answer.raw_induct [rotated])
    fix loop os b s r
    assume IH: "\<And>os b s r. loop os b s = Some r \<Longrightarrow> sent_packets (final r) = sent_packets s \<and>
        raw_socket (final r) = raw_socket s \<and> sequenceNumber (final r) = sequenceNumber s"
      and body: "seq (raw_read b) (\<lambda>(ret, buffer).
         if 0 > ret then seq (raw_hexdump os buffer 48) (\<lambda>_. system_exit 1)
         else if ret = 0 then print ''  *''
         else
           seq (arraycopy buffer 0 (zeros (nat ret)) 0 ret) (\<lambda>resp.
           seq (checkMessage os resp) (\<lambda>answered.
           if answered then give () else loop os buffer))) s = Some r"
    have "quiet (loop os b)" for os b
      using IH by (intro quietI) blast
    then have "quiet (seq (raw_read b) (\<lambda>(ret, buffer).
         if 0 > ret then seq (raw_hexdump os buffer 48) (\<lambda>_. system_exit 1)
         else if ret = 0 then print ''  *''
         else
           seq (arraycopy buffer 0 (zeros (nat ret)) 0 ret) (\<lambda>resp.
           seq (checkMessage os resp) (\<lambda>answered.
           if answered then give () else loop os buffer))))"
      by (intro quiet_intros)
    then show "sent_packets (final r) = sent_packets s \<and>
        raw_socket (final r) = raw_socket s \<and> sequenceNumber (final r) = sequenceNumber s"
      using body by (simp add: quiet_def)
  qed
qed

section \<open>Sending\<close>

text \<open>A socket opened for layer 3, and the transmission of a probe over it.\<close>

definition layer3 :: "raw_state \<Rightarrow> bool" where
  "layer3 st \<longleftrightarrow> 0 \<le> ifindex st \<and> 0 < write_six st"

definition probe_tx :: "os_java \<Rightarrow> raw_state \<Rightarrow> u8 list \<Rightarrow> u8 list \<Rightarrow> int \<Rightarrow> u16 \<Rightarrow> transmission" where
  "probe_tx os st src dst h n = \<lparr>tx_fd = write_six st, tx_dst = Some dst, tx_bytes = probe os src dst h n\<rparr>"

lemma probe_facts:
  assumes "length src = 16" and "length dst = 16"
  shows "length (probe os src dst h n) = 48" "probe os src dst h n ! 0 = 0x60"
    "take 16 (drop 24 (probe os src dst h n)) = dst"
  using assms by (simp_all add: probe_def probe_header_def probe_icmp_def Let_def)

lemma write_loop_Return: "write_loop tx ws = Return (n, txs) \<Longrightarrow> txs = [tx]"
  by (induction ws) (auto split: write_result.splits)

lemma raw_write_probe:
  assumes "c_stack os" and "length src = 16" and "length dst = 16" and "layer3 (raw_socket s)"
  shows "raw_write os handle (probe os src dst h n @ zeros 1466) 48 s =
    (case write_loop (probe_tx os (raw_socket s) src dst h n) (case writes s of [] \<Rightarrow> [] | w # _ \<Rightarrow> w) of
       Return (k, txs) \<Rightarrow> Some (Done k (s\<lparr>writes := tl (writes s), sent_packets := sent_packets s @ txs\<rparr>))
     | Exit c \<Rightarrow> Some (Exits c s) | Undefined \<Rightarrow> Some (Crash s) | Blocks \<Rightarrow> Some (Waits s))"
proof -
  let ?p = "probe os src dst h n"
  note p = probe_facts [OF assms(2,3), of os h n]
  have "region_ok (?p @ zeros 1466) 0 48" using p by (simp add: region_ok_def)
  from get_region_inside [OF this, of "oj_buf os"]
  have region: "get_region (?p @ zeros 1466) 0 48 (oj_buf os) = Return (?p @ drop 48 (oj_buf os), False)"
    using assms(1) p by (simp add: c_stack_def)
  have "version_nibble (?p @ r) = 0x60" for r
    using p by (simp add: version_nibble_def nth_append)
  then have "route (raw_socket s) handle (?p @ r) 48 = Some (probe_tx os (raw_socket s) src dst h n)" for r
    using assms(4) p by (simp add: route_def layer3_def probe_tx_def)
  then have "grnvs_write (raw_socket s) handle (?p @ r) 48 answers =
      write_loop (probe_tx os (raw_socket s) src dst h n) answers" for r answers
    using assms(4) p by (simp add: grnvs_write_def layer3_def)
  then show ?thesis
    using region
    by (auto simp: raw_write_def jrun_eval java_write_def size_of_int_def seq_def native_def
        split: outcome.splits list.splits)
qed

text \<open>Sending a probe: it goes out once or the run ends.\<close>

lemma send_probe_sent:
  assumes "c_stack os" and "length src = 16" and "length dst = 16" and "layer3 (raw_socket s)"
    and "send_probe os handle (probe os src dst h n @ zeros 1466) s = Some r"
  shows "raw_socket (final r) = raw_socket s \<and> sequenceNumber (final r) = sequenceNumber s \<and>
    (sent_packets (final r) = sent_packets s @ [probe_tx os (raw_socket s) src dst h n] \<or>
     sent_packets (final r) = sent_packets s \<and> \<not> is_done r)"
proof -
  let ?tx = "probe_tx os (raw_socket s) src dst h n" and ?ws = "case writes s of [] \<Rightarrow> [] | w # _ \<Rightarrow> w"
  have dump: "quiet (seq (raw_hexdump os b 48) (\<lambda>_. system_exit 1 :: unit java))" for b
    by (intro quiet_intros)
  show ?thesis
  proof (cases "write_loop ?tx ?ws")
    case (Return q)
    obtain k where q: "q = (k, [?tx])" using Return write_loop_Return by (cases q) blast
    let ?s = "s\<lparr>writes := tl (writes s), sent_packets := sent_packets s @ [?tx]\<rparr>"
    have "raw_write os handle (probe os src dst h n @ zeros 1466) 48 s = Some (Done k ?s)"
      using Return q by (simp add: raw_write_probe [OF assms(1,2,3,4)])
    then have "(if 0 \<ge> k then seq (raw_hexdump os (probe os src dst h n @ zeros 1466) 48) (\<lambda>_. system_exit 1)
        else give ()) ?s = Some r"
      using assms(5) by (simp add: send_probe_def seq_run)
    then show ?thesis
      using dump [of "probe os src dst h n @ zeros 1466"] by (auto simp: quiet_def jrun_eval split: if_splits)
  qed (use assms(5) in \<open>auto simp: send_probe_def raw_write_probe [OF assms(1,2,3,4)] seq_run\<close>)
qed

lemma attempt_sent:
  assumes "c_stack os" and "length src = 16" and "length dst = 16" and "layer3 (raw_socket s)" and "probe_arrays a"
    and "attempt os handle tmo src dst h a s = Some r"
  shows "raw_socket (final r) = raw_socket s \<and>
    (sent_packets (final r) = sent_packets s @ [probe_tx os (raw_socket s) src dst h (sequenceNumber s)] \<and>
       (\<forall>a' s'. r = Done a' s' \<longrightarrow> probe_arrays a' \<and> sequenceNumber s' = sequenceNumber s + 1) \<or>
     sent_packets (final r) = sent_packets s \<and> \<not> is_done r)"
proof -
  let ?b = "probe os src dst h (sequenceNumber s) @ zeros 1466"
  let ?s = "s\<lparr>timer := to_int32 (tmo * 1000), sequenceNumber := sequenceNumber s + 1\<rparr>"
  have "probe_arrays (fst a, snd a)" using assms(5) by simp
  from build_probe_run [OF assms(1,2,3) this]
  obtain icmp' where b: "build_probe os tmo src dst h (fst a) (snd a) s = Some (Done (probe_header src dst h, icmp', ?b) ?s)"
    and icmp': "probe_arrays (probe_header src dst h, icmp')"
    by blast
  have run: "seq (send_probe os handle ?b) (\<lambda>_. seq (await_answer os ?b) (\<lambda>_. give (probe_header src dst h, icmp'))) ?s = Some r"
    using assms(6) b by (simp add: attempt_def seq_run)
  obtain q where q: "send_probe os handle ?b ?s = Some q"
    using run by (cases "send_probe os handle ?b ?s") (simp_all add: seq_run)
  note sent = send_probe_sent [OF assms(1,2,3), of ?s handle h "sequenceNumber s" q] 
  have quiet: "quiet (seq (await_answer os ?b) (\<lambda>_. give (probe_header src dst h, icmp')))" by (intro quiet_intros)
  show ?thesis
  proof (cases "is_done q")
    case True
    then obtain t where t: "q = Done () t" by (cases q) auto
    have tail: "seq (await_answer os ?b) (\<lambda>_. give (probe_header src dst h, icmp')) t = Some r"
      using run q t by (simp add: seq_run)
    have after: "sent_packets (final r) = sent_packets t \<and> raw_socket (final r) = raw_socket t \<and>
        sequenceNumber (final r) = sequenceNumber t"
      using quiet tail by (simp add: quiet_def)
    have "r = Done a' s' \<Longrightarrow> a' = (probe_header src dst h, icmp')" for a' s'
      using tail by (auto simp: seq_Done_iff jrun_eval)
    then show ?thesis
      using sent q t assms(4) after icmp' by auto
  next
    case False
    then have "final r = final q \<and> \<not> is_done r"
      using run q by (cases q) (auto simp: seq_run)
    then show ?thesis using sent q assms(4) by auto
  qed
qed

text \<open>
  The probes of a run with \<open>q\<close> attempts for each hop: the one with number \<open>i\<close>, and the first \<open>n\<close>.
\<close>

definition nth_probe :: "os_java \<Rightarrow> raw_state \<Rightarrow> u8 list \<Rightarrow> u8 list \<Rightarrow> nat \<Rightarrow> nat \<Rightarrow> transmission" where
  "nth_probe os st src dst q i = probe_tx os st src dst (1 + int (i div q)) (of_nat i)"

definition probes :: "os_java \<Rightarrow> raw_state \<Rightarrow> u8 list \<Rightarrow> u8 list \<Rightarrow> nat \<Rightarrow> nat \<Rightarrow> transmission list" where
  "probes os st src dst q n = map (nth_probe os st src dst q) [0..<n]"

definition on_track ::
  "os_java \<Rightarrow> raw_state \<Rightarrow> u8 list \<Rightarrow> u8 list \<Rightarrow> nat \<Rightarrow> transmission list \<Rightarrow> nat \<Rightarrow> jvm \<Rightarrow> bool" where
  "on_track os st src dst q base n s \<longleftrightarrow> raw_socket s = st \<and> sequenceNumber s = of_nat n \<and>
     sent_packets s = base @ probes os st src dst q n"

text \<open>What a part of the run that may send the probes up to number \<open>m\<close> ends with.\<close>

definition stays_on_track ::
  "os_java \<Rightarrow> raw_state \<Rightarrow> u8 list \<Rightarrow> u8 list \<Rightarrow> nat \<Rightarrow> transmission list \<Rightarrow> nat \<Rightarrow> 'a jrun \<Rightarrow> bool" where
  "stays_on_track os st src dst q base m r \<longleftrightarrow>
     (\<exists>n \<le> m. raw_socket (final r) = st \<and> sent_packets (final r) = base @ probes os st src dst q n) \<and>
     (is_done r \<longrightarrow> on_track os st src dst q base m (final r))"

lemma attempt_track:
  assumes "c_stack os" and "length src = 16" and "length dst = 16" and "layer3 st" and "probe_arrays a"
    and "attempt os handle tmo src dst (1 + int (n div q)) a s = Some r" and "on_track os st src dst q base n s"
  shows "stays_on_track os st src dst q base (Suc n) r \<and> (\<forall>a' s'. r = Done a' s' \<longrightarrow> probe_arrays a')"
proof -
  have s: "raw_socket s = st" "sequenceNumber s = of_nat n" "sent_packets s = base @ probes os st src dst q n"
    using assms(7) by (simp_all add: on_track_def)
  have probe: "probe_tx os st src dst (1 + int (n div q)) (of_nat n) = nth_probe os st src dst q n"
    by (simp add: nth_probe_def)
  have snoc: "probes os st src dst q (Suc n) = probes os st src dst q n @ [nth_probe os st src dst q n]"
    by (simp add: probes_def)
  from attempt_sent [OF assms(1,2,3) _ assms(5,6)] assms(4) s probe
  consider (sent) "raw_socket (final r) = st" "sent_packets (final r) = base @ probes os st src dst q (Suc n)"
      "\<forall>a' s'. r = Done a' s' \<longrightarrow> probe_arrays a' \<and> sequenceNumber s' = of_nat n + 1"
    | (failed) "raw_socket (final r) = st" "sent_packets (final r) = base @ probes os st src dst q n" "\<not> is_done r"
    by (auto simp: snoc)
  then show ?thesis
  proof cases
    case sent
    then show ?thesis
      by (cases r) (auto simp: stays_on_track_def on_track_def intro!: exI [of _ "Suc n"])
  next
    case failed
    then show ?thesis
      by (cases r) (auto simp: stays_on_track_def intro!: exI [of _ n])
  qed
qed

lemma stays_on_track_failed:
  assumes "stays_on_track os st src dst q base m p" and "\<not> is_done r" and "final r = final p" and "m \<le> m'"
  shows "stays_on_track os st src dst q base m' r"
  using assms unfolding stays_on_track_def by (metis le_trans)

lemma to_int32_Suc: "1 \<le> i \<Longrightarrow> i < 2147483647 \<Longrightarrow> to_int32 (i + 1) = i + 1"
  by (rule to_int32_id) auto

lemma hop_number:
  assumes "0 < q" and "1 \<le> (i :: int)" and "i \<le> int q" and "n + nat (int q + 1 - i) = Suc h * q"
  shows "n div q = h"
proof -
  have "n + (q - nat (i - 1)) = Suc h * q" using assms(2,3,4) by (simp add: nat_diff_distrib)
  then have "n = nat (i - 1) + h * q" "nat (i - 1) < q" using assms(2,3) by auto
  then show ?thesis by simp
qed

lemma attempt_loop_track:
  assumes "c_stack os" and "length src = 16" and "length dst = 16" and "layer3 st" and "attempts < 2147483647"
    and "attempt_loop (attempt os handle tmo src dst (1 + int h)) i attempts a s = Some r"
    and "on_track os st src dst (nat attempts) base n s" and "probe_arrays a" and "1 \<le> i"
    and "n + nat (attempts + 1 - i) = Suc h * nat attempts"
  shows "stays_on_track os st src dst (nat attempts) base (Suc h * nat attempts) r \<and>
    (\<forall>a' s'. r = Done a' s' \<longrightarrow> probe_arrays a')"
  using assms(6-)
proof (induction "nat (attempts + 1 - i)" arbitrary: i n a s)
  case 0
  then have "r = Done a s" "n = Suc h * nat attempts"
    by (subst (asm) attempt_loop.simps; auto simp: jrun_eval)+
  then show ?case using 0 by (auto simp: stays_on_track_def on_track_def)
next
  case (Suc k)
  let ?q = "nat attempts"
  have i: "i \<le> attempts" "0 < ?q" using Suc.hyps(2) Suc.prems(4) by auto
  have hop: "n div ?q = h" using i Suc.prems(4,5) by (intro hop_number [of ?q i]) auto
  have body: "seq (attempt os handle tmo src dst (1 + int h) a)
      (attempt_loop (attempt os handle tmo src dst (1 + int h)) (i + 1) attempts) s = Some r"
    using Suc.prems(1,4) i assms(5) to_int32_Suc [of i] by (subst (asm) attempt_loop.simps) simp
  have first: "stays_on_track os st src dst ?q base (Suc n) p \<and> (\<forall>a' s'. p = Done a' s' \<longrightarrow> probe_arrays a')"
    if "attempt os handle tmo src dst (1 + int h) a s = Some p" for p
    using attempt_track [OF assms(1-4) Suc.prems(3), of handle tmo n ?q s p base] that hop Suc.prems(2) by simp
  from body show ?case
  proof (cases rule: seq_cases)
    case (goes_on a' t)
    have "k = nat (attempts + 1 - (i + 1))" "1 \<le> i + 1" "Suc n + nat (attempts + 1 - (i + 1)) = Suc h * ?q"
      using Suc.hyps(2) Suc.prems(4,5) by auto
    moreover have "on_track os st src dst ?q base (Suc n) t" "probe_arrays a'"
      using first [OF goes_on(1)] by (simp_all add: stays_on_track_def)
    ultimately show ?thesis using Suc.hyps(1) goes_on(2) by blast
  next
    case (fails p)
    have "Suc n \<le> Suc h * ?q" using Suc.hyps(2) Suc.prems(5) by linarith
    then show ?thesis
      using first [OF fails(1)] fails(2-) stays_on_track_failed by fastforce
  qed
qed

lemma hop_loop_track:
  assumes "c_stack os" and "length src = 16" and "length dst = 16" and "layer3 st"
    and "attempts < 2147483647" and "hopLimit < 2147483647"
    and "hop_loop os handle tmo attempts hopLimit src dst (1 + int h) a s = Some r"
    and "on_track os st src dst (nat attempts) base (h * nat attempts) s" and "probe_arrays a" and "h \<le> nat hopLimit"
  shows "\<exists>n \<le> nat hopLimit * nat attempts. raw_socket (final r) = st \<and>
    sent_packets (final r) = base @ probes os st src dst (nat attempts) n \<and>
    (is_done r \<longrightarrow> nat attempts dvd n \<and> (stopProbes (final r) \<or> n = nat hopLimit * nat attempts))"
  using assms(7-)
proof (induction "nat hopLimit - h" arbitrary: h a s)
  case 0
  then have "\<not> 1 + int h \<le> hopLimit" by linarith
  with 0 have "r = Done () s" by (subst (asm) hop_loop.simps) (simp add: jrun_eval)
  with 0 show ?case by (auto simp: on_track_def intro!: exI [of _ "h * nat attempts"])
next
  case (Suc k)
  let ?q = "nat attempts" and ?s = "s\<lparr>stdout := stdout s @ dec_int (1 + int h)\<rparr>"
  have less: "h < nat hopLimit" using Suc.hyps(2) by simp
  then have le: "1 + int h \<le> hopLimit" "1 + int h < 2147483647" using assms(6) by linarith+
  have last: "h * ?q \<le> nat hopLimit * ?q" "Suc h * ?q \<le> nat hopLimit * ?q"
    using less by (metis less_imp_le mult_le_mono1, metis Suc_leI mult_le_mono1)
  show ?case
  proof (cases "stopProbes s")
    case True
    then have "r = Done () s" using Suc.prems(1) by (subst (asm) hop_loop.simps) (simp add: jrun_eval)
    with Suc.prems(2) True last(1) show ?thesis by (auto simp: on_track_def intro!: exI [of _ "h * ?q"])
  next
    case False
    have track: "on_track os st src dst ?q base (h * ?q) ?s" using Suc.prems(2) by (simp add: on_track_def)
    have body: "seq (attempt_loop (attempt os handle tmo src dst (1 + int h)) 1 attempts a) (\<lambda>arrays.
        seq (print [CHR 0x0A]) (\<lambda>_.
        hop_loop os handle tmo attempts hopLimit src dst (1 + int (Suc h)) arrays)) ?s = Some r"
      using Suc.prems(1) False le to_int32_Suc [of "1 + int h"]
      by (subst (asm) hop_loop.simps) (simp add: jrun_eval add.commute)
    have inner: "stays_on_track os st src dst ?q base (Suc h * ?q) p \<and> (\<forall>a' s'. p = Done a' s' \<longrightarrow> probe_arrays a')"
      if "attempt_loop (attempt os handle tmo src dst (1 + int h)) 1 attempts a ?s = Some p" for p
      by (rule attempt_loop_track [OF assms(1-5) that track Suc.prems(3)]) simp_all
    from body show ?thesis
    proof (cases rule: seq_cases)
      case (goes_on a' t)
      let ?t = "t\<lparr>stdout := stdout t @ [CHR 0x0A]\<rparr>"
      have "hop_loop os handle tmo attempts hopLimit src dst (1 + int (Suc h)) a' ?t = Some r"
        using goes_on(2) by (simp add: jrun_eval)
      moreover have "on_track os st src dst ?q base (Suc h * ?q) ?t" "probe_arrays a'"
        using inner [OF goes_on(1)] by (auto simp: stays_on_track_def on_track_def)
      moreover have "k = nat hopLimit - Suc h" "Suc h \<le> nat hopLimit" using Suc.hyps(2) by auto
      ultimately show ?thesis using Suc.hyps(1) by blast
    next
      case (fails p)
      then show ?thesis
        using inner [OF fails(1)] last(2) stays_on_track_failed [of os st src dst ?q base "Suc h * ?q" p r "nat hopLimit * ?q"]
        by (auto simp: stays_on_track_def)
    qed
  qed
qed

section \<open>Opening the socket\<close>

lemma getIPv6_run:
  assumes "layer3 (raw_socket s)" and "length (ip6 (raw_socket s)) = 16"
  shows "getIPv6 s = Some (Done (ip6 (raw_socket s)) s)"
  using assms by (simp add: getIPv6_def java_ip6_def grnvs_get_ip6addr_def layer3_def set_region_def region_ok_def jrun_eval)

lemma new_raw_run:
  assumes "wf_os (oj_open os)" and "0 < os_socket6 (oj_open os)" and "raw_socket s = raw_init"
  shows "(\<exists>fd st. new_raw os dev 2 s = Some (Done fd (s\<lparr>raw_socket := st\<rparr>)) \<and> layer3 st \<and> length (ip6 st) = 16 \<and>
      grnvs_open (oj_open os) dev 2 raw_init = Return (fd, st)) \<or>
    (\<exists>r. new_raw os dev 2 s = Some r \<and> \<not> is_done r \<and> final r = s)"
proof (cases "grnvs_open (oj_open os) dev 2 raw_init")
  case (Return q)
  obtain fd st where q: "q = (fd, st)" by (cases q)
  have open_ok: "grnvs_open (oj_open os) dev 2 raw_init = Return (fd, st)" using Return q by simp
  then have "0 \<le> fd" "write_six st = os_socket6 (oj_open os)"
    using grnvs_open_Return [OF open_ok] by (auto simp: SOCK_DGRAM_def)
  moreover have "raw_inv st \<and> 0 < ifindex st"
    using grnvs_open_inv [OF _ assms(1) open_ok] raw_reachable_inv [OF raw_reachable.start] by blast
  ultimately have "layer3 st" "length (ip6 st) = 16" "\<not> fd < 0"
    using assms(2) by (auto simp: layer3_def raw_inv_def)
  then show ?thesis
    using open_ok assms(3) by (simp add: new_raw_def java_getSocket_def jrun_eval)
qed (use assms(3) in \<open>auto simp: new_raw_def java_getSocket_def jrun_eval seq_def native_def\<close>)

lemma run_trace_track:
  assumes "c_stack os" and "oj_resolve os name = Some dst" and "length dst = 16" and "layer3 (raw_socket s)"
    and "length (ip6 (raw_socket s)) = 16" and "attempts < 2147483647" and "hopLimit < 2147483647"
    and "run_trace os handle name tmo attempts hopLimit s = Some r"
  shows "\<exists>n \<le> nat hopLimit * nat attempts.
    sent_packets (final r) = sent_packets s @ probes os (raw_socket s) (ip6 (raw_socket s)) dst (nat attempts) n \<and>
    (is_done r \<longrightarrow> nat attempts dvd n \<and> (stopProbes (final r) \<or> n = nat hopLimit * nat attempts))"
proof -
  let ?src = "ip6 (raw_socket s)"
  let ?s = "s\<lparr>myIP := ?src, stopProbes := False, sequenceNumber := 0, timer := to_int32 (tmo * 1000)\<rparr>"
  have "hop_loop os handle tmo attempts hopLimit ?src dst (1 + int 0) (zeros 40, zeros 8) ?s = Some r"
    using assms(2,8) getIPv6_run [OF assms(4,5)] by (simp add: run_trace_def seq_run jrun_eval)
  from hop_loop_track [OF assms(1,5,3,4,6,7) this, of "sent_packets s"]
  show ?thesis using probe_arrays_zeros by (auto simp: on_track_def probes_def)
qed

lemma raw_close_run:
  "raw_close os s = Some (Done (oj_close os) (s\<lparr>raw_socket := snd (grnvs_close (raw_socket s) (oj_close os))\<rparr>))"
  by (simp add: raw_close_def java_close_def grnvs_close_def jrun_eval)

lemma main_trace_run:
  assumes "Arguments argv s = Some (Done args s)"
  shows "main_trace os argv s = catching
     (seq (new_raw os (ta_iface args) 2) (\<lambda>sock.
      seq (run_trace os sock (ta_dst args) (ta_timeout args) (ta_attempts args) (ta_hoplimit args)) (\<lambda>_.
      seq (raw_close os) (\<lambda>_. give ())))) (\<lambda>e. system_exit 1) s"
  using assms by (simp add: main_trace_def seq_run)

lemma catching_exit_final:
  assumes "catching m (\<lambda>e. system_exit 1) s = Some r"
  obtains p where "m s = Some p" "final r = final p" "is_done r = is_done p"
proof (cases "m s")
  case (Some p)
  with assms that show ?thesis by (cases p) (auto simp: catching_def jrun_eval)
qed (use assms in \<open>simp add: catching_def\<close>)

end
