(* ===== verification/TraceScript.thy ===== *)
theory TraceScript
  imports TraceRun
begin

text \<open>
  Runs of the traceroute program against a network whose behaviour is given as a script: for each
  attempt the packets that are read and ignored, and then a timeout or an answer.
\<close>

section \<open>Reading a frame\<close>

text \<open>The milliseconds left of \<open>t\<close> after a round of the read loop.\<close>

definition left_after :: "int \<Rightarrow> read_round \<Rightarrow> int" where
  "left_after t r = (t * 1000000 - (nsecs (after r) - nsecs (before r))) div 1000000"

lemma uint_ms: "0 \<le> t \<Longrightarrow> t < 2147483648 \<Longrightarrow> uint (word_of_int t :: u32) = t"
  by (simp add: uint_word_of_int)

lemma sint_ms: "0 \<le> t \<Longrightarrow> t < 2147483648 \<Longrightarrow> sint (word_of_int t :: u32) = t"
  by (simp add: signed_take_bit_int_eq_self sint_sbintrunc')

lemma word_ms_nonzero: "0 < t \<Longrightarrow> t < 2147483648 \<Longrightarrow> (word_of_int t :: u32) \<noteq> 0"
  using uint_ms [of t] by fastforce

lemma grnvs_read_frame:
  assumes "0 \<le> ifindex st" and "0 < t" and "t < 2147483648" and "normal_round r" and "sel r = Sel_ready"
    and "rd r = Rd_data f"
  shows "grnvs_read st n (Some (word_of_int t)) (r # rs) =
    Return \<lparr>ret = int (length (take n f)), data = take n f, timeout_left = Some (word_of_int (left_after t r)),
      rounds_left = rs\<rparr>"
proof -
  let ?time = "timespecsub (timespecmset (word_of_int t)) (timespecsub (after r) (before r))"
  have "normalised ?time" "nsecs ?time = t * 1000000 - (nsecs (after r) - nsecs (before r))"
    using assms(2,3,4) by (auto simp: normal_round_def uint_ms)
  then have "tv_sec ?time * 1000 + tv_nsec ?time sdiv 1000000 = left_after t r"
    using msecs_of_nsecs [of ?time] by (simp add: left_after_def)
  then have "(word_of_int (tv_sec ?time * 1000 + tv_nsec ?time sdiv 1000000) :: u32) = word_of_int (left_after t r)"
    by simp
  then show ?thesis
    using assms(1,2,3,5,6) word_ms_nonzero [of t] by (simp add: grnvs_read_def Let_def)
qed

lemma grnvs_read_timeout:
  assumes "0 \<le> ifindex st" and "0 < t" and "t < 2147483648" and "sel r = Sel_timeout"
  shows "grnvs_read st n (Some (word_of_int t)) (r # rs) =
    Return \<lparr>ret = 0, data = [], timeout_left = Some 0, rounds_left = rs\<rparr>"
  using assms word_ms_nonzero [of t] by (simp add: grnvs_read_def Let_def)

lemma raw_read_frame:
  assumes "layer3 (raw_socket s)" and "0 < timer s" and "timer s < 2147483648" and "normal_round r"
    and "sel r = Sel_ready" and "rd r = Rd_data f" and "length f \<le> 1514" and "length b = 1514" and "reads s = r # rs"
  shows "raw_read b s = Some (Done (int (length f), f @ drop (length f) b)
    (s\<lparr>timer := sint (word_of_int (left_after (timer s) r) :: u32), reads := rs\<rparr>))"
proof -
  have "grnvs_read (raw_socket s) 1514 (Some (word_of_int (timer s))) (r # rs) =
      Return \<lparr>ret = int (length f), data = f, timeout_left = Some (word_of_int (left_after (timer s) r)), rounds_left = rs\<rparr>"
    using grnvs_read_frame [of "raw_socket s" "timer s" r f 1514 rs] assms by (simp add: layer3_def)
  then show ?thesis
    using assms(7,8,9) by (simp add: raw_read_def java_read_def jrun_eval Let_def set_region_def region_ok_def)
qed

lemma raw_read_timeout:
  assumes "layer3 (raw_socket s)" and "0 < timer s" and "timer s < 2147483648"
    and "sel r = Sel_timeout" and "length b = 1514" and "reads s = r # rs"
  shows "raw_read b s = Some (Done (0, b) (s\<lparr>timer := 0, reads := rs\<rparr>))"
proof -
  have "grnvs_read (raw_socket s) 1514 (Some (word_of_int (timer s))) (r # rs) =
      Return \<lparr>ret = 0, data = [], timeout_left = Some 0, rounds_left = rs\<rparr>"
    using grnvs_read_timeout [of "raw_socket s" "timer s" r 1514 rs] assms by (simp add: layer3_def)
  then show ?thesis
    using assms(5,6) by (simp add: raw_read_def java_read_def jrun_eval Let_def set_region_def region_ok_def)
qed

section \<open>Scripts\<close>

text \<open>The packets the program reads over, and those it takes for an answer.\<close>

definition ignored :: "os_java \<Rightarrow> u8 list \<Rightarrow> u8 list \<Rightarrow> bool" where
  "ignored os my f \<longleftrightarrow> f \<noteq> [] \<and> length f \<le> 1514 \<and>
     (f ! 0 \<noteq> 0x60 \<or>
      f ! 0 = 0x60 \<and> 40 \<le> length f \<and> take 16 (drop 24 f) \<noteq> my \<or>
      for_me my f \<and> \<not> is_extension (f ! 6) \<and> f ! 6 \<noteq> 58 \<or>
      for_me my f \<and> f ! 6 = 58 \<and> 46 \<le> length f \<and> \<not> (sum_ok os f \<and> echo_reply f))"

definition accepted :: "os_java \<Rightarrow> u8 list \<Rightarrow> u8 list \<Rightarrow> bool" where
  "accepted os my f \<longleftrightarrow> for_me my f \<and> f ! 6 = 58 \<and> 46 \<le> length f \<and> length f \<le> 1514 \<and> sum_ok os f \<and> echo_reply f"

lemma checkMessage_icmp:
  "for_me (myIP s) b \<Longrightarrow> b ! 6 = 58 \<Longrightarrow> checkMessage os b s = icmp_message os b 40 s"
  using checkMessage_next_header [of s b os] not_extension_icmp by simp

lemma checkMessage_ignored:
  assumes "c_stack os" and "length (myIP s) = 16" and "ignored os (myIP s) f"
  shows "checkMessage os f s = Some (Done False s)"
proof -
  consider (version) "f \<noteq> []" "f ! 0 \<noteq> 0x60"
    | (other) "f ! 0 = 0x60" "40 \<le> length f" "take 16 (drop 24 f) \<noteq> myIP s"
    | (protocol) "for_me (myIP s) f" "\<not> is_extension (f ! 6)" "f ! 6 \<noteq> 58"
    | (message) "for_me (myIP s) f" "f ! 6 = 58" "46 \<le> length f" "length f \<le> 1514" "\<not> (sum_ok os f \<and> echo_reply f)"
    using assms(3) unfolding ignored_def by blast
  then show ?thesis
  proof cases
    case version
    then show ?thesis by (rule checkMessage_not_ipv6)
  next
    case other
    then show ?thesis using checkMessage_receiver [of f s os] assms(2) by simp
  next
    case protocol
    then show ?thesis using checkMessage_next_header [of s f os] by simp
  next
    case message
    then show ?thesis
      using checkMessage_icmp [OF message(1,2), of os] icmp_message_run [OF assms(1), of f s] by (auto simp: echo_reply_def)
  qed
qed

lemma checkMessage_accepted:
  assumes "c_stack os" and "accepted os (myIP s) f"
  shows "checkMessage os f s = Some (Done True
    (s\<lparr>stdout := stdout s @ ''  '' @ host_text (take 16 (drop 8 f)), stopProbes := True\<rparr>))"
  using assms checkMessage_icmp [of s f os] icmp_message_run [of os f s]
  by (auto simp: accepted_def echo_reply_def)

text \<open>One attempt: the rounds that bring ignored packets, and the one that ends it.\<close>

type_synonym script = "read_round list \<times> read_round"

definition frame_of :: "read_round \<Rightarrow> u8 list" where
  "frame_of r = (case rd r of Rd_data f \<Rightarrow> f | _ \<Rightarrow> [])"

fun noise_ok :: "os_java \<Rightarrow> u8 list \<Rightarrow> int \<Rightarrow> read_round list \<Rightarrow> bool" where
  "noise_ok os my t [] \<longleftrightarrow> 0 < t"
| "noise_ok os my t (r # rs) \<longleftrightarrow> 0 < t \<and> normal_round r \<and> sel r = Sel_ready \<and> rd r = Rd_data (frame_of r) \<and>
     ignored os my (frame_of r) \<and> noise_ok os my (left_after t r) rs"

definition script_ok :: "os_java \<Rightarrow> u8 list \<Rightarrow> int \<Rightarrow> script \<Rightarrow> bool" where
  "script_ok os my t sc \<longleftrightarrow> noise_ok os my t (fst sc) \<and> (let r = snd sc in
     sel r = Sel_timeout \<or>
     sel r = Sel_ready \<and> normal_round r \<and> rd r = Rd_data (frame_of r) \<and> accepted os my (frame_of r))"

definition answered :: "script \<Rightarrow> bool" where
  "answered sc \<longleftrightarrow> sel (snd sc) \<noteq> Sel_timeout"

definition attempt_text :: "script \<Rightarrow> string" where
  "attempt_text sc = (if answered sc then ''  '' @ host_text (take 16 (drop 8 (frame_of (snd sc)))) else ''  *'')"

definition script_rounds :: "script \<Rightarrow> read_round list" where
  "script_rounds sc = fst sc @ [snd sc]"

text \<open>What a part of the run does to the state, the timer and the packets sent aside.\<close>

definition leads_to :: "jvm \<Rightarrow> string \<Rightarrow> bool \<Rightarrow> read_round list \<Rightarrow> write_result list list \<Rightarrow> jvm \<Rightarrow> bool" where
  "leads_to s text stop rs ws t \<longleftrightarrow> stdout t = stdout s @ text \<and> stopProbes t = (stopProbes s \<or> stop) \<and>
     reads t = rs \<and> writes t = ws \<and> raw_socket t = raw_socket s \<and> myIP t = myIP s"

lemma left_after_le: "normal_round r \<Longrightarrow> left_after t r \<le> t"
  using zdiv_mono1 [of "t * 1000000 - (nsecs (after r) - nsecs (before r))" "t * 1000000" 1000000]
  by (simp add: left_after_def normal_round_def)

section \<open>One attempt\<close>

lemma await_answer_last:
  assumes "c_stack os" and "length (myIP s) = 16" and "layer3 (raw_socket s)" and "timer s < 2147483648"
    and "noise_ok os (myIP s) (timer s) []" and "length b = 1514" and "reads s = l # rs"
    and "sel l = Sel_timeout \<or> sel l = Sel_ready \<and> normal_round l \<and> rd l = Rd_data (frame_of l) \<and> accepted os (myIP s) (frame_of l)"
  shows "\<exists>t. await_answer os b s = Some (Done () t) \<and>
    leads_to s (attempt_text ([], l)) (answered ([], l)) rs (writes s) t"
proof (cases "sel l = Sel_timeout")
  case True
  then have "raw_read b s = Some (Done (0, b) (s\<lparr>timer := 0, reads := rs\<rparr>))"
    using raw_read_timeout [of s l b rs] assms(2-8) by simp
  then have "await_answer os b s = Some (Done () (s\<lparr>timer := 0, reads := rs, stdout := stdout s @ ''  *''\<rparr>))"
    by (subst await_answer.simps) (simp add: seq_run jrun_eval)
  with True show ?thesis by (simp add: leads_to_def attempt_text_def answered_def)
next
  case False
  define f where "f = frame_of l"
  have l: "sel l = Sel_ready" "normal_round l" "rd l = Rd_data f" "accepted os (myIP s) f"
    using assms(8) False by (auto simp: f_def)
  let ?s = "s\<lparr>timer := sint (word_of_int (left_after (timer s) l) :: u32), reads := rs\<rparr>"
  have f: "0 < length f" "length f \<le> 1514" using l(4) by (auto simp: accepted_def)
  have "raw_read b s = Some (Done (int (length f), f @ drop (length f) b) ?s)"
    using raw_read_frame [of s l f b rs] assms(2-8) l f by simp
  moreover have "checkMessage os f ?s = Some (Done True
      (?s\<lparr>stdout := stdout s @ ''  '' @ host_text (take 16 (drop 8 f)), stopProbes := True\<rparr>))"
    using checkMessage_accepted [OF assms(1), of ?s f] l(4) by simp
  ultimately have "await_answer os b s = Some (Done ()
      (?s\<lparr>stdout := stdout s @ ''  '' @ host_text (take 16 (drop 8 f)), stopProbes := True\<rparr>))"
    using f assms(6) by (subst await_answer.simps) (simp add: seq_run jrun_eval arraycopy_run)
  with l(1) show ?thesis by (simp add: leads_to_def attempt_text_def answered_def f_def)
qed

lemma await_answer_run:
  assumes "c_stack os" and "length (myIP s) = 16" and "layer3 (raw_socket s)" and "timer s < 2147483648"
    and "noise_ok os (myIP s) (timer s) ns" and "length b = 1514" and "reads s = ns @ l # rs"
    and "sel l = Sel_timeout \<or> sel l = Sel_ready \<and> normal_round l \<and> rd l = Rd_data (frame_of l) \<and> accepted os (myIP s) (frame_of l)"
  shows "\<exists>t. await_answer os b s = Some (Done () t) \<and>
    leads_to s (attempt_text (ns, l)) (answered (ns, l)) rs (writes s) t"
  using assms(2-)
proof (induction ns arbitrary: s b)
  case Nil
  then show ?case using await_answer_last [OF assms(1), of s b l rs] by simp
next
  case (Cons r ns)
  define f where "f = frame_of r"
  have r: "sel r = Sel_ready" "normal_round r" "rd r = Rd_data f" "ignored os (myIP s) f" "0 < timer s"
    "noise_ok os (myIP s) (left_after (timer s) r) ns"
    using Cons.prems(4) by (auto simp: f_def)
  have f: "0 < length f" "length f \<le> 1514" using r(4) by (auto simp: ignored_def)
  have t: "0 < left_after (timer s) r" using r(6) by (cases ns) auto
  have less: "left_after (timer s) r < 2147483648" using left_after_le [OF r(2), of "timer s"] Cons.prems(3) by simp
  let ?s = "s\<lparr>timer := left_after (timer s) r, reads := ns @ l # rs\<rparr>" and ?b = "f @ drop (length f) b"
  have "raw_read b s = Some (Done (int (length f), ?b) ?s)"
    using raw_read_frame [of s r f b "ns @ l # rs"] Cons.prems r f t less by (simp add: sint_ms)
  moreover have "checkMessage os f ?s = Some (Done False ?s)"
    using checkMessage_ignored [OF assms(1), of ?s f] Cons.prems(1) r(4) by simp
  ultimately have "await_answer os b s = await_answer os ?b ?s"
    using f Cons.prems(5) by (subst await_answer.simps) (simp add: seq_run jrun_eval arraycopy_run)
  moreover have "\<exists>t. await_answer os ?b ?s = Some (Done () t) \<and>
      leads_to ?s (attempt_text (ns, l)) (answered (ns, l)) rs (writes ?s) t"
    using Cons.prems r f less by (intro Cons.IH) auto
  moreover have "attempt_text (r # ns, l) = attempt_text (ns, l)" "answered (r # ns, l) = answered (ns, l)"
    by (simp_all add: attempt_text_def answered_def)
  ultimately show ?case by (simp add: leads_to_def)
qed

text \<open>A write that the system accepts, perhaps after interruptions.\<close>

definition good_write :: "write_result list \<Rightarrow> bool" where
  "good_write w \<longleftrightarrow> (case dropWhile (\<lambda>x. x = Wr_eintr) w of Wr_sent n # _ \<Rightarrow> 0 < n | _ \<Rightarrow> False)"

lemma write_loop_good: "good_write w \<Longrightarrow> \<exists>n. write_loop tx w = Return (n, [tx]) \<and> 0 < n"
  by (auto simp: good_write_def write_loop_answers split: list.splits write_result.splits)

lemma leads_to_trans:
  "leads_to s x b rs ws t \<Longrightarrow> leads_to t y c rs' ws' u \<Longrightarrow> leads_to s (x @ y) (b \<or> c) rs' ws' u"
  by (auto simp: leads_to_def)

lemma attempt_run:
  assumes "c_stack os" and "length src = 16" and "length dst = 16" and "layer3 (raw_socket s)" and "length (myIP s) = 16"
    and "0 < tmo * 1000" and "tmo * 1000 < 2147483648" and "probe_arrays a"
    and "script_ok os (myIP s) (tmo * 1000) sc" and "reads s = script_rounds sc @ rs"
    and "writes s = w # ws" and "good_write w"
  shows "\<exists>a' t. attempt os handle tmo src dst h a s = Some (Done a' t) \<and> probe_arrays a' \<and>
    leads_to s (attempt_text sc) (answered sc) rs ws t"
proof -
  let ?p = "probe os src dst h (sequenceNumber s)"
  have tmo: "to_int32 (tmo * 1000) = tmo * 1000" using assms(6,7) by (intro to_int32_id) auto
  let ?s = "s\<lparr>timer := tmo * 1000, sequenceNumber := sequenceNumber s + 1\<rparr>"
  let ?tx = "probe_tx os (raw_socket s) src dst h (sequenceNumber s)"
  let ?t = "?s\<lparr>writes := ws, sent_packets := sent_packets s @ [?tx]\<rparr>"
  have "probe_arrays (fst a, snd a)" using assms(8) by simp
  from build_probe_run [OF assms(1,2,3) this, of tmo h s] tmo
  obtain icmp' where b: "build_probe os tmo src dst h (fst a) (snd a) s = Some (Done (probe_header src dst h, icmp', ?p @ zeros 1466) ?s)"
    and icmp': "probe_arrays (probe_header src dst h, icmp')" by auto
  obtain n where n: "write_loop ?tx w = Return (n, [?tx])" "0 < n" using write_loop_good [OF assms(12)] by blast
  have "raw_write os handle (?p @ zeros 1466) 48 ?s = Some (Done n ?t)"
    using raw_write_probe [OF assms(1,2,3), of ?s handle h "sequenceNumber s"] assms(4,11) n(1) by simp
  then have send: "send_probe os handle (?p @ zeros 1466) ?s = Some (Done () ?t)"
    using n(2) by (simp add: send_probe_def seq_run jrun_eval)
  obtain ns l where sc: "sc = (ns, l)" by (cases sc)
  have "length (?p @ zeros 1466) = 1514" using probe_facts(1) [OF assms(2,3)] by simp
  then obtain u where u: "await_answer os (?p @ zeros 1466) ?t = Some (Done () u)"
    "leads_to ?t (attempt_text (ns, l)) (answered (ns, l)) rs (writes ?t) u"
    using await_answer_run [OF assms(1), of ?t ns "?p @ zeros 1466" l rs] assms(4,5,7,9,10) sc
    by (auto simp: script_ok_def script_rounds_def Let_def)
  have "attempt os handle tmo src dst h a s = Some (Done (probe_header src dst h, icmp') u)"
    using b send u(1) by (simp add: attempt_def seq_run jrun_eval)
  moreover have "leads_to s (attempt_text sc) (answered sc) rs ws u"
    using u(2) sc by (simp add: leads_to_def)
  ultimately show ?thesis using icmp' by blast
qed

section \<open>Whole runs\<close>

lemma attempt_loop_run:
  assumes "c_stack os" and "length src = 16" and "length dst = 16" and "layer3 (raw_socket s)" and "length (myIP s) = 16"
    and "0 < tmo * 1000" and "tmo * 1000 < 2147483648" and "probe_arrays a" and "attempts < 2147483647"
    and "\<forall>sc \<in> set scs. script_ok os (myIP s) (tmo * 1000) sc" and "reads s = concat (map script_rounds scs) @ rs"
    and "writes s = good @ ws" and "length good = length scs" and "\<forall>w \<in> set good. good_write w"
    and "1 \<le> i" and "nat (attempts + 1 - i) = length scs"
  shows "\<exists>a' t. attempt_loop (attempt os handle tmo src dst h) i attempts a s = Some (Done a' t) \<and> probe_arrays a' \<and>
    leads_to s (concat (map attempt_text scs)) (\<exists>sc \<in> set scs. answered sc) rs ws t"
  using assms(4,5,8,10-)
proof (induction scs arbitrary: i a s good)
  case Nil
  then have "attempt_loop (attempt os handle tmo src dst h) i attempts a s = Some (Done a s)"
    by (subst attempt_loop.simps) (simp add: jrun_eval)
  then show ?case using Nil by (auto simp: leads_to_def)
next
  case (Cons sc scs)
  obtain w good' where good: "good = w # good'" using Cons.prems(7) by (cases good) auto
  have i: "i \<le> attempts" using Cons.prems(10) by auto
  have "\<exists>a' t. attempt os handle tmo src dst h a s = Some (Done a' t) \<and> probe_arrays a' \<and>
      leads_to s (attempt_text sc) (answered sc) (concat (map script_rounds scs) @ rs) (good' @ ws) t"
    using Cons.prems(4-8) good by (intro attempt_run [OF assms(1-3) Cons.prems(1,2) assms(6,7) Cons.prems(3), of _ _ w]) auto
  then obtain a' t where t: "attempt os handle tmo src dst h a s = Some (Done a' t)" "probe_arrays a'"
    "leads_to s (attempt_text sc) (answered sc) (concat (map script_rounds scs) @ rs) (good' @ ws) t" by blast
  have same: "raw_socket t = raw_socket s" "myIP t = myIP s" using t(3) by (auto simp: leads_to_def)
  have "\<exists>a'' u. attempt_loop (attempt os handle tmo src dst h) (i + 1) attempts a' t = Some (Done a'' u) \<and>
      probe_arrays a'' \<and> leads_to t (concat (map attempt_text scs)) (\<exists>sc \<in> set scs. answered sc) rs ws u"
    using Cons.prems good t(2,3) i by (intro Cons.IH [of _ _ good']) (auto simp: leads_to_def)
  then obtain a'' u where u: "attempt_loop (attempt os handle tmo src dst h) (i + 1) attempts a' t = Some (Done a'' u)"
    "probe_arrays a''" "leads_to t (concat (map attempt_text scs)) (\<exists>sc \<in> set scs. answered sc) rs ws u" by blast
  have "attempt_loop (attempt os handle tmo src dst h) i attempts a s = Some (Done a'' u)"
    using t(1) u(1) i Cons.prems(9) assms(9) to_int32_Suc [of i]
    by (subst attempt_loop.simps) (simp add: seq_run)
  with u(2) leads_to_trans [OF t(3) u(3)] show ?case by auto
qed

text \<open>
  What the hops make: each a list of attempts, of which the last hop is one with an answer
  or the last one allowed.
\<close>

fun hops_ok :: "nat \<Rightarrow> script list list \<Rightarrow> bool" where
  "hops_ok n [] \<longleftrightarrow> n = 0"
| "hops_ok n (scs # hops) \<longleftrightarrow> 0 < n \<and> (if \<exists>sc \<in> set scs. answered sc then hops = [] else hops_ok (n - 1) hops)"

fun trace_text :: "int \<Rightarrow> script list list \<Rightarrow> string" where
  "trace_text h [] = []"
| "trace_text h (scs # hops) = dec_int h @ concat (map attempt_text scs) @ [CHR 0x0A] @ trace_text (h + 1) hops"

text \<open>One round of attempts, with the number of its hop and the end of its line.\<close>

lemma hop_run:
  assumes "c_stack os" and "length src = 16" and "length dst = 16" and "layer3 (raw_socket s)" and "length (myIP s) = 16"
    and "0 < tmo * 1000" and "tmo * 1000 < 2147483648" and "probe_arrays a" and "attempts < 2147483647"
    and "h \<le> hopLimit" and "hopLimit < 2147483647" and "1 \<le> h" and "\<not> stopProbes s"
    and "length scs = nat attempts" and "\<forall>sc \<in> set scs. script_ok os (myIP s) (tmo * 1000) sc"
    and "reads s = concat (map script_rounds scs) @ rs"
    and "writes s = good @ ws" and "length good = length scs" and "\<forall>w \<in> set good. good_write w"
  shows "\<exists>a' t. hop_loop os handle tmo attempts hopLimit src dst h a s =
      hop_loop os handle tmo attempts hopLimit src dst (h + 1) a' t \<and> probe_arrays a' \<and>
    leads_to s (dec_int h @ concat (map attempt_text scs) @ [CHR 0x0A]) (\<exists>sc \<in> set scs. answered sc) rs ws t"
proof -
  let ?any = "\<exists>sc \<in> set scs. answered sc" and ?s = "s\<lparr>stdout := stdout s @ dec_int h\<rparr>"
  have split: "writes ?s = good @ ws" "length good = length scs" "\<forall>w \<in> set good. good_write w"
    using assms(17-19) by simp_all
  have "\<exists>a' t. attempt_loop (attempt os handle tmo src dst h) 1 attempts a ?s = Some (Done a' t) \<and> probe_arrays a' \<and>
      leads_to ?s (concat (map attempt_text scs)) ?any rs ws t"
    using assms(4,5,8,12-16) by (intro attempt_loop_run [OF assms(1-3) _ _ assms(6,7) _ assms(9) _ _ split]) auto
  then obtain a' t where t: "attempt_loop (attempt os handle tmo src dst h) 1 attempts a ?s = Some (Done a' t)"
    "probe_arrays a'" "leads_to ?s (concat (map attempt_text scs)) ?any rs ws t" by blast
  let ?t = "t\<lparr>stdout := stdout t @ [CHR 0x0A]\<rparr>"
  have "hop_loop os handle tmo attempts hopLimit src dst h a s =
      hop_loop os handle tmo attempts hopLimit src dst (h + 1) a' ?t"
    using t(1) assms(10-13) to_int32_Suc [of h]
    by (subst hop_loop.simps) (simp add: jrun_eval seq_run)
  moreover have "leads_to s (dec_int h @ concat (map attempt_text scs) @ [CHR 0x0A]) ?any rs ws ?t"
    using t(3) by (simp add: leads_to_def)
  ultimately show ?thesis using t(2) by blast
qed

lemma hop_loop_run:
  assumes "c_stack os" and "length src = 16" and "length dst = 16" and "layer3 (raw_socket s)" and "length (myIP s) = 16"
    and "0 < tmo * 1000" and "tmo * 1000 < 2147483648" and "probe_arrays a" and "attempts < 2147483647" and "hopLimit < 2147483647"
    and "\<forall>scs \<in> set hops. length scs = nat attempts \<and> (\<forall>sc \<in> set scs. script_ok os (myIP s) (tmo * 1000) sc)"
    and "reads s = concat (map script_rounds (concat hops)) @ rs"
    and "writes s = good @ ws" and "length good = length (concat hops)" and "\<forall>w \<in> set good. good_write w"
    and "1 \<le> h" and "hops_ok (nat (hopLimit + 1 - h)) hops" and "\<not> stopProbes s"
  shows "\<exists>t. hop_loop os handle tmo attempts hopLimit src dst h a s = Some (Done () t) \<and>
    leads_to s (trace_text h hops) (\<exists>sc \<in> set (concat hops). answered sc) rs ws t"
  using assms(4,5,8,11-)
proof (induction hops arbitrary: h a s good)
  case Nil
  then have "hop_loop os handle tmo attempts hopLimit src dst h a s = Some (Done () s)"
    by (subst hop_loop.simps) (simp add: jrun_eval)
  then show ?case using Nil by (simp add: leads_to_def)
next
  case (Cons scs hops)
  let ?any = "\<exists>sc \<in> set scs. answered sc" and ?q = "length scs"
  have h: "h \<le> hopLimit" using Cons.prems(10) by auto
  have split: "reads s = concat (map script_rounds scs) @ (concat (map script_rounds (concat hops)) @ rs)"
    "writes s = take ?q good @ (drop ?q good @ ws)" "length (take ?q good) = length scs"
    "\<forall>w \<in> set (take ?q good). good_write w"
    using Cons.prems(5-8) by (auto dest: in_set_takeD)
  obtain a' t where step: "hop_loop os handle tmo attempts hopLimit src dst h a s =
      hop_loop os handle tmo attempts hopLimit src dst (h + 1) a' t" and a': "probe_arrays a'"
    and here: "leads_to s (dec_int h @ concat (map attempt_text scs) @ [CHR 0x0A]) ?any
      (concat (map script_rounds (concat hops)) @ rs) (drop ?q good @ ws) t"
    using hop_run [OF assms(1-3) Cons.prems(1,2) assms(6,7) Cons.prems(3) assms(9) h assms(10) Cons.prems(9,11) _ _ split,
      of handle] Cons.prems(4) by auto
  have rest: "\<exists>u. hop_loop os handle tmo attempts hopLimit src dst (h + 1) a' t = Some (Done () u) \<and>
      leads_to t (trace_text (h + 1) hops) (\<exists>sc \<in> set (concat hops). answered sc) rs ws u"
  proof (cases ?any)
    case True
    then have "hops = []" using Cons.prems(10) by simp
    moreover have "hop_loop os handle tmo attempts hopLimit src dst (h + 1) a' t = Some (Done () t)"
      using here True by (subst hop_loop.simps) (auto simp: leads_to_def jrun_eval)
    moreover have "drop ?q good = []" using calculation(1) Cons.prems(7) by simp
    moreover have "stopProbes t" using here True by (simp add: leads_to_def)
    ultimately show ?thesis using here by (simp add: leads_to_def)
  next
    case False
    have "nat (hopLimit + 1 - (h + 1)) = nat (hopLimit + 1 - h) - 1" by simp
    then show ?thesis
      using Cons.prems a' here False
      by (intro Cons.IH [of _ _ "drop ?q good"]) (auto simp: leads_to_def dest: in_set_dropD)
  qed
  then obtain u where u: "hop_loop os handle tmo attempts hopLimit src dst (h + 1) a' t = Some (Done () u)"
    "leads_to t (trace_text (h + 1) hops) (\<exists>sc \<in> set (concat hops). answered sc) rs ws u" by blast
  have "(?any \<or> (\<exists>sc \<in> set (concat hops). answered sc)) = (\<exists>sc \<in> set (concat (scs # hops)). answered sc)" by auto
  with leads_to_trans [OF here u(2)] step u(1) show ?case by simp
qed

lemma run_trace_start:
  assumes "oj_resolve os name = Some dst" and "layer3 (raw_socket s)" and "length (ip6 (raw_socket s)) = 16"
  shows "run_trace os handle name tmo attempts hopLimit s =
    hop_loop os handle tmo attempts hopLimit (ip6 (raw_socket s)) dst 1 (zeros 40, zeros 8)
      (s\<lparr>myIP := ip6 (raw_socket s), stopProbes := False, sequenceNumber := 0, timer := to_int32 (tmo * 1000)\<rparr>)"
  using assms(1) getIPv6_run [OF assms(2,3)] by (simp add: run_trace_def seq_run jrun_eval)

text \<open>From the start to the first hop: the command line and the socket are in order.\<close>

lemma main_trace_start:
  assumes "wf_os (oj_open os)" and "0 < os_socket6 (oj_open os)" and "Arguments argv (jvm_start rounds answers) = Some (Done args t)"
    and "grnvs_open (oj_open os) (ta_iface args) 2 raw_init = Return (fd, st)" and "oj_resolve os (ta_dst args) = Some dst"
  shows "main_trace os argv (jvm_start rounds answers) = catching
     (seq (hop_loop os fd (ta_timeout args) (ta_attempts args) (ta_hoplimit args) (ip6 st) dst 1 (zeros 40, zeros 8)) (\<lambda>_.
      seq (raw_close os) (\<lambda>_. give ()))) (\<lambda>e. system_exit 1)
     ((jvm_start rounds answers)\<lparr>raw_socket := st, myIP := ip6 st, timer := to_int32 (ta_timeout args * 1000)\<rparr>)"
    and "layer3 st" and "length (ip6 st) = 16"
proof -
  let ?s = "jvm_start rounds answers"
  have t: "t = ?s" using Arguments_state assms(3) by blast
  have "\<not> (\<exists>r. new_raw os (ta_iface args) 2 ?s = Some r \<and> \<not> is_done r \<and> final r = ?s)"
    using assms(4) grnvs_open_Return [OF assms(4)] by (auto simp: new_raw_def java_getSocket_def jrun_eval jvm_start_def)
  with new_raw_run [OF assms(1,2), of ?s "ta_iface args"] assms(4)
  have o: "new_raw os (ta_iface args) 2 ?s = Some (Done fd (?s\<lparr>raw_socket := st\<rparr>))"
    and st: "layer3 st" "length (ip6 st) = 16" by (auto simp: jvm_start_def)
  then show "layer3 st" "length (ip6 st) = 16" by auto
  have "seq (new_raw os (ta_iface args) 2) (\<lambda>sock.
      seq (run_trace os sock (ta_dst args) (ta_timeout args) (ta_attempts args) (ta_hoplimit args)) (\<lambda>_.
      seq (raw_close os) (\<lambda>_. give ()))) ?s =
    seq (hop_loop os fd (ta_timeout args) (ta_attempts args) (ta_hoplimit args) (ip6 st) dst 1 (zeros 40, zeros 8)) (\<lambda>_.
      seq (raw_close os) (\<lambda>_. give ()))
     (?s\<lparr>raw_socket := st, myIP := ip6 st, timer := to_int32 (ta_timeout args * 1000)\<rparr>)"
    using o run_trace_start [OF assms(5), of "?s\<lparr>raw_socket := st\<rparr>" fd] st
    by (simp add: seq_run) (simp add: seq_def jvm_start_def)
  then show "main_trace os argv ?s = catching
     (seq (hop_loop os fd (ta_timeout args) (ta_attempts args) (ta_hoplimit args) (ip6 st) dst 1 (zeros 40, zeros 8)) (\<lambda>_.
      seq (raw_close os) (\<lambda>_. give ()))) (\<lambda>e. system_exit 1)
     (?s\<lparr>raw_socket := st, myIP := ip6 st, timer := to_int32 (ta_timeout args * 1000)\<rparr>)"
    using main_trace_run [of argv ?s args os] assms(3) t by (simp add: catching_def)
qed

lemma main_trace_scripted:
  assumes "c_stack os" and "wf_os (oj_open os)" and "0 < os_socket6 (oj_open os)"
    and "Arguments argv (jvm_start rounds answers) = Some (Done args t)"
    and "grnvs_open (oj_open os) (ta_iface args) 2 raw_init = Return (fd, st)"
    and "oj_resolve os (ta_dst args) = Some dst" and "length dst = 16"
    and "0 < ta_timeout args" and "ta_timeout args * 1000 < 2147483648"
    and "ta_attempts args < 2147483647" and "ta_hoplimit args < 2147483647"
    and "hops_ok (nat (ta_hoplimit args)) hops"
    and "\<forall>scs \<in> set hops. length scs = nat (ta_attempts args) \<and>
      (\<forall>sc \<in> set scs. script_ok os (ip6 st) (ta_timeout args * 1000) sc)"
    and "rounds = concat (map script_rounds (concat hops))"
    and "length answers = length (concat hops)" and "\<forall>w \<in> set answers. good_write w"
  shows "\<exists>t. main_trace os argv (jvm_start rounds answers) = Some (Done () t) \<and> stdout t = trace_text 1 hops \<and>
    ifindex (raw_socket t) = - 1 \<and> reads t = [] \<and> writes t = [] \<and>
    stopProbes t = (\<exists>sc \<in> set (concat hops). answered sc)"
proof -
  note start = main_trace_start [OF assms(2-6)]
  let ?s = "(jvm_start rounds answers)\<lparr>raw_socket := st, myIP := ip6 st, timer := to_int32 (ta_timeout args * 1000)\<rparr>"
  have s: "raw_socket ?s = st" "myIP ?s = ip6 st" "reads ?s = rounds" "writes ?s = answers" "\<not> stopProbes ?s" "stdout ?s = []"
    by (simp_all add: jvm_start_def)
  have "\<exists>t. hop_loop os fd (ta_timeout args) (ta_attempts args) (ta_hoplimit args) (ip6 st) dst 1 (zeros 40, zeros 8) ?s =
      Some (Done () t) \<and> leads_to ?s (trace_text 1 hops) (\<exists>sc \<in> set (concat hops). answered sc) [] [] t"
    using assms start(2,3) s probe_arrays_zeros by (intro hop_loop_run [where good = answers]) auto
  then obtain u where u: "hop_loop os fd (ta_timeout args) (ta_attempts args) (ta_hoplimit args) (ip6 st) dst 1 (zeros 40, zeros 8) ?s =
      Some (Done () u)" "leads_to ?s (trace_text 1 hops) (\<exists>sc \<in> set (concat hops). answered sc) [] [] u" by blast
  let ?t = "u\<lparr>raw_socket := snd (grnvs_close (raw_socket u) (oj_close os))\<rparr>"
  have "main_trace os argv (jvm_start rounds answers) = Some (Done () ?t)"
    using u(1) by (simp add: start(1) catching_def seq_run jrun_eval raw_close_run)
  moreover have "stdout ?t = trace_text 1 hops" "reads ?t = []" "writes ?t = []"
    "stopProbes ?t = (\<exists>sc \<in> set (concat hops). answered sc)" "ifindex (raw_socket ?t) = - 1"
    using u(2) s by (simp_all add: leads_to_def grnvs_close_def)
  ultimately show ?thesis by blast
qed

text \<open>A destination that resolves to an IPv4 address of four bytes does not fit into the header.\<close>

lemma build_probe_ipv4:
  assumes "length hdr = 40" and "length src = 16" and "length dst = 4"
  shows "build_probe os tmo src dst h hdr icmp s = Some (Throws ArrayIndexOutOfBounds s)"
  using assms by (simp add: build_probe_def set_elem_run arraycopy_run jrun_eval)
    (simp add: arraycopy_def jrun_eval)

text \<open>An exception while a packet is judged ends the first attempt and with it the run.\<close>

lemma first_attempt_throws:
  assumes "c_stack os" and "length src = 16" and "length dst = 16" and "layer3 (raw_socket s)"
    and "0 < tmo" and "tmo * 1000 < 2147483648" and "1 \<le> attempts" and "1 \<le> hopLimit" and "\<not> stopProbes s"
    and "writes s = w # ws" and "good_write w" and "reads s = r # rs" and "normal_round r" and "sel r = Sel_ready"
    and "rd r = Rd_data b" and "b \<noteq> []" and "length b \<le> 1514"
    and "\<And>t. myIP t = myIP s \<Longrightarrow> checkMessage os b t = Some (Throws e t)"
  shows "\<exists>t. hop_loop os handle tmo attempts hopLimit src dst 1 (zeros 40, zeros 8) s = Some (Throws e t) \<and>
    stdout t = stdout s @ ''1''"
proof -
  let ?s = "s\<lparr>stdout := stdout s @ ''1''\<rparr>" and ?n = "sequenceNumber s"
  let ?p = "probe os src dst 1 ?n @ zeros 1466" and ?tx = "probe_tx os (raw_socket s) src dst 1 ?n"
  have tmo: "to_int32 (tmo * 1000) = tmo * 1000" using assms(5,6) by (intro to_int32_id) auto
  let ?t = "?s\<lparr>timer := tmo * 1000, sequenceNumber := ?n + 1\<rparr>"
  let ?u = "?t\<lparr>writes := ws, sent_packets := sent_packets s @ [?tx]\<rparr>"
  let ?v = "?u\<lparr>timer := sint (word_of_int (left_after (tmo * 1000) r) :: u32), reads := rs\<rparr>"
  from build_probe_run [OF assms(1,2,3) probe_arrays_zeros, of tmo 1 ?s] tmo
  obtain icmp' where b: "build_probe os tmo src dst 1 (zeros 40) (zeros 8) ?s =
      Some (Done (probe_header src dst 1, icmp', ?p) ?t)" by auto
  obtain n where n: "write_loop ?tx w = Return (n, [?tx])" "0 < n" using write_loop_good [OF assms(11)] by blast
  have "raw_write os handle ?p 48 ?t = Some (Done n ?u)"
    using raw_write_probe [OF assms(1,2,3), of ?t handle 1 ?n] assms(4,10) n(1) by simp
  then have send: "send_probe os handle ?p ?t = Some (Done () ?u)"
    using n(2) by (simp add: send_probe_def seq_run jrun_eval)
  have len: "length ?p = 1514" using probe_facts(1) [OF assms(2,3)] by simp
  then have "raw_read ?p ?u = Some (Done (int (length b), b @ drop (length b) ?p) ?v)"
    using raw_read_frame [of ?u r b ?p rs] assms(4,5,6,12-17) by simp
  moreover have "checkMessage os b ?v = Some (Throws e ?v)" by (rule assms(18)) simp
  ultimately have "await_answer os ?p ?u = Some (Throws e ?v)"
    using assms(16) len by (subst await_answer.simps) (simp add: seq_run jrun_eval arraycopy_run)
  then have "attempt os handle tmo src dst 1 (zeros 40, zeros 8) ?s = Some (Throws e ?v)"
    using b send by (simp add: attempt_def seq_run)
  then have "attempt_loop (attempt os handle tmo src dst 1) 1 attempts (zeros 40, zeros 8) ?s = Some (Throws e ?v)"
    using assms(7) by (subst attempt_loop.simps) (simp add: seq_run)
  moreover have "dec_int 1 = ''1''" by (simp add: c_eval)
  ultimately have "hop_loop os handle tmo attempts hopLimit src dst 1 (zeros 40, zeros 8) s = Some (Throws e ?v)"
    using assms(8,9) by (subst hop_loop.simps) (simp add: seq_run jrun_eval)
  then show ?thesis by auto
qed

section \<open>An example\<close>

definition example_args :: trace_args where
  "example_args = \<lparr>ta_dst = ''host'', ta_iface = ''eth0'', ta_timeout = 5, ta_hoplimit = 15, ta_attempts = 1\<rparr>"

definition example_reply :: "u8 list" where
  "example_reply = answer example_java example_host (0x20 # zeros 15) []"

definition example_hops :: "script list list" where
  "example_hops =
     [[([], example_round 0 Sel_timeout Rd_error)],
      [([example_round 1000000 Sel_ready (Rd_data [0x45])], example_round 0 Sel_ready (Rd_data example_reply))]]"

definition example_rounds :: "read_round list" where
  "example_rounds = concat (map script_rounds (concat example_hops))"

lemma example_arguments:
  "Arguments [''-q'', ''1'', ''host''] s = Some (Done example_args s)"
proof -
  have "arg_loop (command_line [(True, Set_attempts 1)] @ [''host'']) trace_defaults None s =
      Some (Done (store_setting (True, Set_attempts 1) trace_defaults, Some ''host'') s)"
    using arg_loop_settings [of "[(True, Set_attempts 1)]" "[''host'']" trace_defaults None s]
    by (simp add: in_int_def arg_loop_positional option_words_def jrun_eval)
  then show ?thesis
    by (simp add: Arguments_loop seq_run jrun_eval c_eval) (simp add: trace_defaults_def example_args_def)
qed

lemma example_socket:
  "grnvs_open (oj_open example_java) (ta_iface example_args) 2 raw_init = Return (3, example_state SOCK_DGRAM)"
  "ip6 (example_state SOCK_DGRAM) = 0x20 # zeros 15" "wf_os (oj_open example_java)"
  "0 < os_socket6 (oj_open example_java)" "oj_resolve example_java (ta_dst example_args) = Some example_host"
  "length example_host = 16"
  using example_open [of SOCK_DGRAM] wf_example_os
  by (simp_all add: example_java_def example_args_def SOCK_DGRAM_def example_state_def example_host_def example_os_def)

lemma normal_example_round: "0 \<le> n \<Longrightarrow> n < 1000000000 \<Longrightarrow> normal_round (example_round n x y)"
  by (simp add: normal_round_def example_round_def normalised_def nsecs_def)

lemma example_accepted: "accepted example_java (0x20 # zeros 15) example_reply"
  using answer_facts [of example_host "0x20 # zeros 15" example_java "[]"]
  by (simp add: accepted_def example_reply_def example_host_def)

lemma example_scripts_ok:
  "\<forall>scs \<in> set example_hops. length scs = 1 \<and> (\<forall>sc \<in> set scs. script_ok example_java (0x20 # zeros 15) 5000 sc)"
proof -
  have fields: "sel (example_round n x y) = x" "rd (example_round n x y) = y" for n x y
    by (simp_all add: example_round_def)
  have "ignored example_java (0x20 # zeros 15) [0x45]" by (simp add: ignored_def)
  moreover have "left_after 5000 (example_round 1000000 Sel_ready (Rd_data [0x45])) = 4999"
    by (simp add: left_after_def example_round_def nsecs_def)
  ultimately show ?thesis
    using example_accepted normal_example_round [of 0] normal_example_round [of 1000000]
    by (simp add: example_hops_def script_ok_def Let_def fields frame_of_def)
qed

lemma example_text: "trace_text 1 example_hops = ''1  *'' @ [CHR 0x0A] @ ''2  2000:0:0:0:0:0:0:1'' @ [CHR 0x0A]"
proof -
  have "take 16 (drop 8 example_reply) = example_host"
    using answer_facts(5) [of example_host "0x20 # zeros 15" example_java "[]"]
    by (simp add: example_reply_def example_host_def)
  then show ?thesis
    by (simp add: example_hops_def attempt_text_def answered_def example_round_def frame_of_def example_host_text c_eval)
qed

lemma example_facts:
  "length (replicate 2 [Wr_sent 48]) = length (concat example_hops)" "\<forall>w \<in> set (replicate 2 [Wr_sent 48]). good_write w"
    "hops_ok (nat (ta_hoplimit example_args)) example_hops" "ta_attempts example_args = 1" "ta_timeout example_args = 5"
    "ta_hoplimit example_args = 15"
  by (simp_all add: example_hops_def good_write_def answered_def example_round_def example_args_def)

text \<open>A packet to the program with a destination options header before an echo reply.\<close>

definition example_ext_header :: "u8 list" where
  "example_ext_header = [0x60, 0, 0, 0, 0, 12, 60, 64] @ example_host @ (0x20 # zeros 15)"

definition example_ext :: "u8 list" where
  "example_ext = example_ext_header @ ext_bytes [(60, zeros 6)] @ [129, 0, 0, 0]"

lemma example_ext_facts:
  "for_me (0x20 # zeros 15) example_ext" "length example_ext_header = 40" "example_ext ! 6 = 60"
  "wf_ext (60, zeros 6)" "length example_ext = 52"
  by (simp_all add: example_ext_def example_ext_header_def example_host_def for_me_def wf_ext_def is_extension_def zeros_6)

lemma example_run:
  "\<exists>t. main_trace example_java [''-q'', ''1'', ''host''] (jvm_start example_rounds (replicate 2 [Wr_sent 48])) = Some (Done () t) \<and>
    stopProbes t"
proof -
  obtain t where t: "main_trace example_java [''-q'', ''1'', ''host''] (jvm_start example_rounds (replicate 2 [Wr_sent 48])) = Some (Done () t)"
    "stopProbes t = (\<exists>sc \<in> set (concat example_hops). answered sc)"
    using main_trace_scripted [OF c_stack_example example_socket(3,4) example_arguments example_socket(1,5,6) _ _ _ _
      example_facts(3) _ example_rounds_def example_facts(1,2)] example_scripts_ok example_socket(2)
    by (simp add: example_facts) blast
  moreover have "\<exists>sc \<in> set (concat example_hops). answered sc"
    by (simp add: example_hops_def answered_def example_round_def)
  ultimately show ?thesis by blast
qed

section \<open>Properties\<close>

text \<open>
  C1. What the program prints against any network that answers its reads and writes: for each hop its number
  and for each attempt the text of the host that sent an echo reply, or an asterisk when the time ran out, whatever else
  came in meanwhile and was ignored; after the first hop with an answer, or the last
  one allowed, it closes the socket and returns. The options, the socket, the native methods, the timeouts of
  each read and the checksums all take part.
\<close>

theorem main_trace_prints:
  assumes "c_stack os" and "wf_os (oj_open os)" and "0 < os_socket6 (oj_open os)"
    and "Arguments argv (jvm_start rounds answers) = Some (Done args t)"
    and "grnvs_open (oj_open os) (ta_iface args) 2 raw_init = Return (fd, st)"
    and "oj_resolve os (ta_dst args) = Some dst" and "length dst = 16"
    and "0 < ta_timeout args" and "ta_timeout args * 1000 < 2147483648"
    and "ta_attempts args < 2147483647" and "ta_hoplimit args < 2147483647"
    and "hops_ok (nat (ta_hoplimit args)) hops"
    and "\<forall>scs \<in> set hops. length scs = nat (ta_attempts args) \<and>
      (\<forall>sc \<in> set scs. script_ok os (ip6 st) (ta_timeout args * 1000) sc)"
    and "rounds = concat (map script_rounds (concat hops))"
    and "length answers = length (concat hops)" and "\<forall>w \<in> set answers. good_write w"
  shows "\<exists>t. main_trace os argv (jvm_start rounds answers) = Some (Done () t) \<and> stdout t = trace_text 1 hops \<and>
    ifindex (raw_socket t) = - 1 \<and> reads t = [] \<and> writes t = [] \<and>
    stopProbes t = (\<exists>sc \<in> set (concat hops). answered sc)"
  using assms by (rule main_trace_scripted)

theorem main_trace_prints_witness:
  "\<exists>t. main_trace example_java [''-q'', ''1'', ''host''] (jvm_start example_rounds (replicate 2 [Wr_sent 48])) = Some (Done () t) \<and>
    stdout t = ''1  *'' @ [CHR 0x0A] @ ''2  2000:0:0:0:0:0:0:1'' @ [CHR 0x0A]"
  using main_trace_prints [OF c_stack_example example_socket(3,4) example_arguments example_socket(1,5,6) _ _ _ _
      example_facts(3) _ example_rounds_def example_facts(1,2)] example_scripts_ok example_socket(2)
  by (simp add: example_facts example_text) blast

text \<open>
  C18. Anybody can stop the program with one packet: if what it reads after the first probe is an IPv6 packet to its
  address with extension headers before an ICMPv6 message, the exception goes through to
  \<open>main\<close>, and the process exits with status 1 after printing the number of the first hop.
\<close>

theorem main_trace_extension_exits:
  assumes "c_stack os" and "wf_os (oj_open os)" and "0 < os_socket6 (oj_open os)"
    and "Arguments argv (jvm_start (r # rs) (w # ws)) = Some (Done args t)"
    and "grnvs_open (oj_open os) (ta_iface args) 2 raw_init = Return (fd, st)"
    and "oj_resolve os (ta_dst args) = Some dst" and "length dst = 16"
    and "0 < ta_timeout args" and "ta_timeout args * 1000 < 2147483648"
    and "1 \<le> ta_attempts args" and "1 \<le> ta_hoplimit args" and "good_write w"
    and "normal_round r" and "sel r = Sel_ready" and "rd r = Rd_data b" and "length b \<le> 1514"
    and "for_me (ip6 st) b" and "b = hdr @ ext_bytes es @ icmp" and "length hdr = 40" and "b ! 6 = first_type es"
    and "es \<noteq> []" and "\<forall>e \<in> set es. wf_ext e" and "4 \<le> length icmp"
  shows "\<exists>t. main_trace os argv (jvm_start (r # rs) (w # ws)) = Some (Exits 1 t) \<and> stdout t = ''1''"
proof -
  note start = main_trace_start [OF assms(2-6)]
  let ?s = "(jvm_start (r # rs) (w # ws))\<lparr>raw_socket := st, myIP := ip6 st, timer := to_int32 (ta_timeout args * 1000)\<rparr>"
  have throws: "checkMessage os b t = Some (Throws IllegalArgument t)" if "myIP t = myIP ?s" for t
    using that assms(17) by (intro checkMessage_extension_throws [OF assms(1) _ assms(18-23)]) simp
  have "b \<noteq> []" using assms(17) by (auto simp: for_me_def)
  then obtain u where u: "hop_loop os fd (ta_timeout args) (ta_attempts args) (ta_hoplimit args) (ip6 st) dst 1 (zeros 40, zeros 8) ?s =
      Some (Throws IllegalArgument u)" "stdout u = stdout ?s @ ''1''"
    using first_attempt_throws [OF assms(1) start(3) assms(7), of ?s "ta_timeout args" "ta_attempts args"
        "ta_hoplimit args" w ws r rs b IllegalArgument fd] start(2) assms throws
    by (auto simp: jvm_start_def)
  have "main_trace os argv (jvm_start (r # rs) (w # ws)) = Some (Exits 1 u)"
    using u(1) by (simp add: start(1) catching_def seq_run jrun_eval)
  then show ?thesis using u(2) by (simp add: jvm_start_def)
qed

theorem main_trace_extension_exits_witness:
  "\<exists>t. main_trace example_java [''-q'', ''1'', ''host'']
      (jvm_start [example_round 5 Sel_ready (Rd_data example_ext)] [[Wr_eintr, Wr_sent 48]]) = Some (Exits 1 t) \<and> stdout t = ''1''"
proof -
  let ?r = "example_round 5 Sel_ready (Rd_data example_ext)"
  have "good_write [Wr_eintr, Wr_sent 48]" "normal_round ?r" "sel ?r = Sel_ready" "rd ?r = Rd_data example_ext"
    by (simp_all add: good_write_def normal_example_round) (simp_all add: example_round_def)
  then show ?thesis
    using main_trace_extension_exits [OF c_stack_example example_socket(3,4) example_arguments example_socket(1,5,6)
        _ _ _ _ _ _ _ _ _ _ example_ext_def example_ext_facts(2)] example_ext_facts example_socket(2)
    by (simp add: example_facts)
qed

text \<open>From the open socket on.\<close>

abbreviation from_socket :: "os_java \<Rightarrow> trace_args \<Rightarrow> int \<Rightarrow> unit java" where
  "from_socket os args sock \<equiv>
     seq (run_trace os sock (ta_dst args) (ta_timeout args) (ta_attempts args) (ta_hoplimit args)) (\<lambda>_.
     seq (raw_close os) (\<lambda>_. give ()))"

lemma from_socket_probes:
  assumes "c_stack os" and "oj_resolve os (ta_dst args) = Some dst" and "length dst = 16"
    and "layer3 (raw_socket t)" and "length (ip6 (raw_socket t)) = 16" and "sent_packets t = []"
    and "ta_attempts args < 2147483647" and "ta_hoplimit args < 2147483647"
    and "from_socket os args fd t = Some p"
  shows "\<exists>n \<le> nat (ta_hoplimit args) * nat (ta_attempts args).
    sent_packets (final p) = probes os (raw_socket t) (ip6 (raw_socket t)) dst (nat (ta_attempts args)) n \<and>
    (is_done p \<longrightarrow> nat (ta_attempts args) dvd n \<and>
      (stopProbes (final p) \<or> n = nat (ta_hoplimit args) * nat (ta_attempts args)))"
  using assms(9)
proof (cases rule: seq_cases)
  case (goes_on x u)
  then have "sent_packets (final p) = sent_packets u" "stopProbes (final p) = stopProbes u"
    by (auto simp: seq_run(1) [OF raw_close_run] jrun_eval)
  then show ?thesis using run_trace_track [OF assms(1-5,7,8) goes_on(1)] assms(6) by auto
next
  case (fails q)
  then show ?thesis using run_trace_track [OF assms(1-5,7,8) fails(1)] assms(6) by auto
qed

text \<open>
  C3. Whatever the network delivers, whatever the system answers and however the run ends (by
  itself, by an exception, by an exit, waiting for ever), the packets sent are an initial part of the one sequence of
  probes: the one with number i has hop limit 1 + i div attempts and sequence number i, from the IPv6
  address that opening the interface of the command line found to the destination. Never more than hop limit times attempts are sent, and a run that returns
  sent whole rounds of attempts: all of them unless something ended the probing.
\<close>

theorem main_trace_sends_probes:
  assumes "c_stack os" and "wf_os (oj_open os)" and "0 < os_socket6 (oj_open os)"
    and "Arguments argv (jvm_start rounds answers) = Some (Done args t)"
    and "oj_resolve os (ta_dst args) = Some dst" and "length dst = 16"
    and "ta_attempts args < 2147483647" and "ta_hoplimit args < 2147483647"
    and "main_trace os argv (jvm_start rounds answers) = Some r"
  shows "\<exists>st src n. n \<le> nat (ta_hoplimit args) * nat (ta_attempts args) \<and>
    (0 < n \<longrightarrow> (\<exists>fd. grnvs_open (oj_open os) (ta_iface args) 2 raw_init = Return (fd, st)) \<and> src = ip6 st) \<and>
    sent_packets (final r) = probes os st src dst (nat (ta_attempts args)) n \<and>
    (is_done r \<longrightarrow> nat (ta_attempts args) dvd n \<and>
      (stopProbes (final r) \<or> n = nat (ta_hoplimit args) * nat (ta_attempts args)))"
proof -
  let ?s = "jvm_start rounds answers" and ?q = "nat (ta_attempts args)"
  have "t = ?s" using Arguments_state assms(4) by blast
  then obtain p where p: "seq (new_raw os (ta_iface args) 2) (from_socket os args) ?s = Some p"
    and r: "final r = final p" "is_done r = is_done p"
    using assms(4,9) main_trace_run [of argv ?s args os] by (auto elim: catching_exit_final)
  from new_raw_run [OF assms(2,3), of ?s "ta_iface args"]
  consider (opened) fd st where "new_raw os (ta_iface args) 2 ?s = Some (Done fd (?s\<lparr>raw_socket := st\<rparr>))"
      "layer3 st" "length (ip6 st) = 16" "grnvs_open (oj_open os) (ta_iface args) 2 raw_init = Return (fd, st)"
    | (failed) q where "new_raw os (ta_iface args) 2 ?s = Some q" "\<not> is_done q" "final q = ?s"
    by (auto simp: jvm_start_def)
  then show ?thesis
  proof cases
    case failed
    then have "final p = ?s \<and> \<not> is_done p" using p by (cases q) (auto simp: seq_run)
    then have "sent_packets (final r) = probes os st src dst ?q 0" "\<not> is_done r" for st src
      using r by (simp_all add: jvm_start_def probes_def)
    then show ?thesis by blast
  next
    case opened
    let ?t = "?s\<lparr>raw_socket := st\<rparr>"
    have "from_socket os args fd ?t = Some p" using p opened(1) by (simp add: seq_run)
    moreover have "sent_packets ?t = []" by (simp add: jvm_start_def)
    ultimately show ?thesis
      using from_socket_probes [OF assms(1,5,6), of ?t fd p] opened(2-4) assms(7,8) r by auto
  qed
qed

theorem main_trace_sends_probes_witness:
  "\<exists>t st src n. main_trace example_java [''-q'', ''1'', ''host''] (jvm_start example_rounds (replicate 2 [Wr_sent 48])) = Some (Done () t) \<and>
    n \<le> 15 \<and> sent_packets t = probes example_java st src example_host 1 n"
proof -
  obtain t where t: "main_trace example_java [''-q'', ''1'', ''host''] (jvm_start example_rounds (replicate 2 [Wr_sent 48])) = Some (Done () t)"
    using example_run by blast
  from main_trace_sends_probes [OF c_stack_example example_socket(3,4) example_arguments example_socket(5,6) _ _ this] t
  show ?thesis by (auto simp: example_facts)
qed

end
