(* ===== verification/Spec2Isabelle.thy ===== *)
theory Spec2Isabelle
  imports Prelude CString Getopt Argp Collatz Checksum Hexdump Timespec Raw Crc Traffic InfoList EthStats EthRate
    CMem Netstring NetPieces AsciiClient ClientSafety Jni JavaRun TraceArgs InetText Trace6 TracePackets TraceRun
    TraceScript
begin

text \<open>
  This library models the programs of the GRNVS assignments: \<open>collatz\<close> (assignment 1), the
  Ethernet statistics \<open>ethstats\<close> (assignment 2) with the raw socket library \<open>libraw\<close> it is
  linked with, the Java traceroute with the binding to that library in C (assignment 3), and the
  netstring client \<open>asciiclient\<close> (assignment 4). Paths below are relative to \<open>src/\<close>.

  \<^bold>\<open>Parts and theories.\<close>

  \<^item> \<open>Prelude\<close>, \<open>CString\<close>, \<open>Getopt\<close>, \<open>Argp\<close>: machine integers, outcomes of a call, the string
    to number conversions of the C library, the way it takes a command line apart with the option
    table of a program, and the callback protocol of \<open>argp_parse\<close>, stated as
    the locale \<open>option_parser\<close> that each program's \<open>parse_opt\<close> interprets.
  \<^item> \<open>Collatz\<close>: \<open>assignment1/src/{assignment1,arguments}.c\<close>.
  \<^item> \<open>Checksum\<close>, \<open>Hexdump\<close>, \<open>Timespec\<close>, \<open>Raw\<close>, \<open>Crc\<close>: \<open>assignment2/libraw/src\<close>, one
    theory for each file. \<open>assignment3/deps/libraw\<close> holds the same files once more. The static
    variables of \<open>raw.c\<close> are the record \<open>raw_state\<close>, the static string of \<open>hexdump.c\<close> an
    argument; \<open>timespec.h\<close> gives the type \<open>timespec\<close> with its order as a \<open>linorder\<close>.
  \<^item> \<open>Traffic\<close>, \<open>InfoList\<close>, \<open>EthStats\<close>: \<open>assignment2/src\<close>. \<open>InfoList\<close> has
    \<open>struct typeInfo\<close> and the list functions on an explicit heap; \<open>Traffic\<close> states what the
    program needs of such a table as the locale \<open>traffic_table\<close> and derives the report from it;
    \<open>InfoList\<close> interprets it, and \<open>EthStats\<close> has the command line, the receive loop, the
    summary and \<open>main\<close>. \<open>EthRate\<close> has the clock readings around the reads and the four rates.
  \<^item> \<open>CMem\<close>, \<open>Netstring\<close>, \<open>AsciiClient\<close>: \<open>assignment4/src\<close>. \<open>CMem\<close> is the machine: the
    character arrays with their bounds, pointers into them, the string functions, the sockets.
    \<open>Netstring\<close> has the functions on netstrings and messages, \<open>AsciiClient\<close> the command line,
    the protocol and \<open>main\<close>.
  \<^item> \<open>NetPieces\<close> and \<open>ClientSafety\<close> hold no code: the first is about netstrings that come in
    pieces, the second about the client against an arbitrary server.
  \<^item> \<open>Jni\<close>: \<open>assignment3/deps/GRNVS_RAW.c\<close>, on top of \<open>Raw\<close>, \<open>Checksum\<close> and \<open>Hexdump\<close>.
  \<^item> \<open>JavaRun\<close>, \<open>InetText\<close>: what Java does for the traceroute program: the static fields of
    \<open>Assignment3\<close> and the outside world as the record \<open>jvm\<close>, the ways a run ends as the type
    \<open>jrun\<close>, sequencing, array accesses with their exceptions, \<open>Integer.parseInt\<close>, and the text
    of an address as \<open>InetAddress.getHostAddress\<close> gives it.
  \<^item> \<open>TraceArgs\<close>, \<open>Trace6\<close>: \<open>assignment3/src\<close>, the first \<open>Arguments.java\<close>, the second
    \<open>GRNVS_RAW.java\<close>, \<open>Timeout.java\<close> and \<open>Assignment3.java\<close>; \<open>run\<close> is \<open>run_trace\<close> with
    a definition for each of its loops, \<open>main\<close> is \<open>main_trace\<close>. \<open>TracePackets\<close>,
    \<open>TraceRun\<close> and \<open>TraceScript\<close> have the lemmas on single packets, on all runs and on runs with
    a given answer to each probe.

  \<^bold>\<open>How the code is read.\<close> A C function is a definition of the same name (\<open>min\<close> is
  \<open>min_info\<close>, the methods of the binding lose their \<open>Java_GRNVS_1RAW_\<close>). Unsigned integers
  are words of their width, so they wrap; signed ones are \<^typ>\<open>int\<close> with the conversions
  written out. What C leaves undefined is a value of the model: \<open>Undefined\<close>, \<open>Undef\<close>,
  \<open>Signed_overflow\<close>, or \<open>None\<close> for an access outside an array or through an invalid pointer.
  \<open>exit\<close> is a value as well. Loops without a bound (the Collatz loop, the walks over the list,
  the loops that read netstrings) are partial functions, and \<open>None\<close> is a run that never
  returns; no fuel is used anywhere. \<open>readNet\<close> and \<open>recvMessage\<close> call \<open>strncpy\<close> and \<open>strcpy\<close> on
  overlapping parts of one array, for which C defines nothing. Nor does the model: such a copy is
  \<open>Undef\<close>, unless it goes to a lower address and has at most as many bytes as the field \<open>reach\<close> of the
  machine says, the number of bytes that the library at hand moves unharmed. With \<open>reach\<close> 0 the machine is strict ISO C. Every theorem
  that says what is received has its condition on \<open>reach\<close> among its hypotheses, and
  \<open>recvMessage_overlap\<close> states what is left without it. System calls are answered by parameters:
  the records \<open>os_open\<close>, \<open>os_alg\<close>, \<open>os_client\<close>, a list of the answers one iteration of a
  read or write loop gets, the list of what a socket delivers and the list of answers to its writes.

  \<^bold>\<open>What the lemmas show.\<close>

  \<^item> \<open>Collatz\<close>: the program prints exactly the orbit up to 1 or to the first overflow of
    \<open>long\<close>; starts below 1 never end normally; powers of two end; which command lines reach the loop.
    \<open>Getopt\<close>: options in any spelling, mixed with other words, are told apart.
  \<^item> \<open>Checksum\<close>: a closed form modulo 65535, that a stored checksum verifies, that one changed
    byte is detected, independence of the byte order for even lengths (and its failure for odd
    ones), absence of overflow. \<open>carry_fold\<close> is the locale of the carry loop.
  \<^item> \<open>Hexdump\<close>: the static array is never overrun; the text is rows of sixteen bytes that can be
    read back. \<open>Timespec\<close>: the macros are exact on normalised times.
  \<^item> \<open>Raw\<close>: what open establishes, an invariant over all sequences of open and close, the time
    accounting of a read, the dispatch of a write, and the error paths, three of them defects
    (an uninitialised variable, a wrapped timeout, write sockets that survive a close).
  \<^item> \<open>InfoList\<close>: each function computes its counterpart on lists and neither leaks nor frees
    twice. \<open>EthStats\<close>: the report is exact and sorted for every sequence of frames, and what
    happens with short frames and without memory, and how its command line is read. \<open>EthRate\<close>: the
    rates are accurate up to four roundings, and not a number without frames.
  \<^item> \<open>Netstring\<close>: what is sent and received, byte for byte, the round trip, the sizes beyond
    which the code overruns its arrays, for which messages its overlapping copies are undefined, and
    netstrings that are cut short or have a wrong terminator. \<open>AsciiClient\<close>: the complete conversation with a server that answers in
    lockstep, unexpected answers, limits, the command line and \<open>main\<close>.
    Writes may be short, fail, or end the client by a signal; the client looks at none of this.
  \<^item> \<open>NetPieces\<close>: pieces that are completed, pieces that are completed with stale bytes, and what the end of
    the stream inside a netstring does: the client hangs, or makes up the rest.
  \<^item> \<open>ClientSafety\<close>: whatever the server and the system do, what the client sends is an initial
    part of the protocol, from the words of its command line on. The
    relation \<open>behaves\<close> says this of a part of the program, \<open>behaves_seq\<close> composes it.
  \<^item> \<open>Jni\<close>: the array copies and their bounds.
  \<^item> \<open>TraceArgs\<close>: options are read back, and the ways a command line fails. \<open>TracePackets\<close>: the
    probe byte by byte, the verdict on every received packet, error messages that are never
    accepted, extension headers that keep the program in a loop, the guard of the native checksum.
    \<open>TraceRun\<close>: the invariant that what was sent is an initial part of the sequence of probes,
    through every loop and every way to end. \<open>TraceScript\<close>: the text that is printed for a given
    sequence of answers, and the packet that ends the program.

  \<^bold>\<open>Bounds.\<close> \<open>BUFSIZE\<close> is 4096 as in the code; stack arrays of the binding have 1514 and
  2048 bytes. The heap of \<open>InfoList\<close> hands out \<open>avail\<close> blocks, so that a failing \<open>malloc\<close>
  is covered; nothing is assumed about it except where a theorem says so.

  \<^bold>\<open>Not modelled.\<close> Text on standard error and the digits \<open>printf\<close> makes of the rates of \<open>ethstats\<close>,
  whose \<open>double\<close> arithmetic is real arithmetic with a rounding that is a parameter; what the socket options of \<open>asciiclient\<close> change, other
  than that its reads and writes can fail. \<open>assignment3/deps/libraw\<close> is the same code as \<open>assignment2/libraw\<close>, file by file, so the
  same definitions model it; \<open>GRNVS_RAW.h\<close> is generated. In the Java program the name resolution
  is a parameter, and \<open>finalize\<close> is a definition that no run calls. Scratch programs
  outside the build are left out.
\<close>

end
